(* ===== verification/Prelude.thy ===== *)
theory Prelude
  imports Main "HOL-Library.AList" "HOL-Library.Multiset"
    "HOL-Library.List_Lexorder" "HOL-Library.Product_Lexorder"
begin

text \<open>
  Shared vocabulary of the development: computations that may raise (the sum type
  \<open>'e + 'a\<close>, the exception on the left), Python's insertion-ordered dictionaries as
  association lists, and Python's stable \<open>sorted(..., key=...)\<close>, together with the
  generic lemmas about them that the component theories share.
\<close>

named_theorems dict_simps \<open>rewriting of dictionary operations\<close>
named_theorems exn_simps \<open>rewriting of computations that may raise\<close>

section \<open>Computations that may raise\<close>

definition bindE :: "'e + 'a \<Rightarrow> ('a \<Rightarrow> 'e + 'b) \<Rightarrow> 'e + 'b" where
  "bindE m k = (case m of Inl e \<Rightarrow> Inl e | Inr x \<Rightarrow> k x)"

fun mapE :: "('a \<Rightarrow> 'e + 'b) \<Rightarrow> 'a list \<Rightarrow> 'e + 'b list" where
  "mapE f [] = Inr []"
| "mapE f (x # xs) = bindE (f x) (\<lambda>y. bindE (mapE f xs) (\<lambda>ys. Inr (y # ys)))"

fun filterE :: "('a \<Rightarrow> 'e + bool) \<Rightarrow> 'a list \<Rightarrow> 'e + 'a list" where
  "filterE p [] = Inr []"
| "filterE p (x # xs) =
     bindE (p x) (\<lambda>b. bindE (filterE p xs) (\<lambda>ys. Inr (if b then x # ys else ys)))"

text \<open>Python's \<open>sorted(xs, key=k)\<close>: every key is computed first, in order; then a stable sort.\<close>

definition sortedE :: "('a \<Rightarrow> 'e + 'k::linorder) \<Rightarrow> 'a list \<Rightarrow> 'e + 'a list" where
  "sortedE k xs = bindE (mapE k xs) (\<lambda>ks. Inr (map snd (sort_key fst (zip ks xs))))"

section \<open>Dictionaries\<close>

type_synonym ('k, 'v) dict = "('k \<times> 'v) list"

text \<open>Assignment \<open>d[k] = v\<close> keeps the position of an existing key and appends a new one.\<close>

definition dict_set :: "'k \<Rightarrow> 'v \<Rightarrow> ('k, 'v) dict \<Rightarrow> ('k, 'v) dict" where
  "dict_set k v d = AList.update k v d"

definition dict_get :: "('k, 'v) dict \<Rightarrow> 'k \<Rightarrow> 'v option" where
  "dict_get d k = map_of d k"

definition dict_keys :: "('k, 'v) dict \<Rightarrow> 'k list" where
  "dict_keys d = map fst d"

definition dict_values :: "('k, 'v) dict \<Rightarrow> 'v list" where
  "dict_values d = map snd d"

text \<open>A dictionary display or comprehension: the pairs are assigned one after the other.\<close>

definition dict_of :: "('k \<times> 'v) list \<Rightarrow> ('k, 'v) dict" where
  "dict_of kvs = fold (\<lambda>(k, v). dict_set k v) kvs []"

definition dict_ok :: "('k, 'v) dict \<Rightarrow> bool" where
  "dict_ok d \<longleftrightarrow> distinct (dict_keys d)"

section \<open>Lemmas on computations that may raise\<close>

lemma bindE_Inl [simp]: "bindE (Inl e) k = Inl e"
  by (simp add: bindE_def)

lemma bindE_Inr [simp]: "bindE (Inr x) k = k x"
  by (simp add: bindE_def)

lemma bindE_eq_Inr [exn_simps]: "bindE m k = Inr y \<longleftrightarrow> (\<exists>x. m = Inr x \<and> k x = Inr y)"
  by (cases m) auto

lemma bindE_eq_Inl [exn_simps]:
  "bindE m k = Inl e \<longleftrightarrow> m = Inl e \<or> (\<exists>x. m = Inr x \<and> k x = Inl e)"
  by (cases m) auto

lemma mapE_Inr: "(\<And>x. x \<in> set xs \<Longrightarrow> f x = Inr (g x)) \<Longrightarrow> mapE f xs = Inr (map g xs)"
  by (induction xs) auto

lemma mapE_eq_Inr: "mapE f xs = Inr ys \<longleftrightarrow> map f xs = map Inr ys"
proof (induction xs arbitrary: ys)
  case Nil
  then show ?case by auto
next
  case (Cons x xs)
  then show ?case by (cases ys; cases "f x"; cases "mapE f xs") auto
qed

lemma mapE_length: "mapE f xs = Inr ys \<Longrightarrow> length ys = length xs"
  by (metis length_map mapE_eq_Inr)

lemma mapE_ex_Inl:
  "x \<in> set xs \<Longrightarrow> f x = Inl e \<Longrightarrow> \<exists>e'. mapE f xs = Inl e'"
  by (induction xs) (auto simp: bindE_def split: sum.splits)

lemma mapE_Inl_source: "mapE f xs = Inl e \<Longrightarrow> \<exists>x \<in> set xs. f x = Inl e"
  by (induction xs) (auto simp: exn_simps)

lemma filterE_Inr:
  "(\<And>x. x \<in> set xs \<Longrightarrow> p x = Inr (q x)) \<Longrightarrow> filterE p xs = Inr (filter q xs)"
  by (induction xs) auto

lemma filterE_eq_Inr:
  "filterE p xs = Inr ys \<Longrightarrow> ys = filter (\<lambda>x. p x = Inr True) xs \<and> (\<forall>x \<in> set xs. \<exists>b. p x = Inr b)"
  by (induction xs arbitrary: ys) (auto simp: exn_simps)

lemma filterE_Inl_source: "filterE p xs = Inl e \<Longrightarrow> \<exists>x \<in> set xs. p x = Inl e"
  by (induction xs) (auto simp: exn_simps)

lemma filterE_ex_Inl: "x \<in> set xs \<Longrightarrow> p x = Inl e \<Longrightarrow> \<exists>e'. filterE p xs = Inl e'"
  by (induction xs) (auto simp: bindE_def split: sum.splits)

section \<open>Lemmas on stable sorting\<close>

lemma insort_key_decorate:
  "insort_key fst (k x, x) (map (\<lambda>y. (k y, y)) xs) = map (\<lambda>y. (k y, y)) (insort_key k x xs)"
  by (induction xs) auto

lemma sort_key_decorate:
  "sort_key fst (map (\<lambda>x. (k x, x)) xs) = map (\<lambda>x. (k x, x)) (sort_key k xs)"
  by (induction xs) (auto simp: insort_key_decorate)

lemma sortedE_Inr:
  assumes "\<And>x. x \<in> set xs \<Longrightarrow> k x = Inr (g x)"
  shows "sortedE k xs = Inr (sort_key g xs)"
proof -
  have "zip (map g xs) xs = map (\<lambda>x. (g x, x)) xs"
    by (induction xs) auto
  moreover have "mapE k xs = Inr (map g xs)"
    by (rule mapE_Inr) (rule assms)
  ultimately show ?thesis
    by (simp add: sortedE_def sort_key_decorate comp_def)
qed

lemma sortedE_Inl_source: "sortedE k xs = Inl e \<Longrightarrow> \<exists>x \<in> set xs. k x = Inl e"
  by (auto simp: sortedE_def exn_simps dest: mapE_Inl_source)

lemma sortedE_eq_Inr:
  assumes "sortedE k xs = Inr ys"
  shows "ys = sort_key (\<lambda>x. projr (k x)) xs" and "\<forall>x \<in> set xs. \<exists>y. k x = Inr y"
proof -
  have ok: "\<exists>y. k x = Inr y" if "x \<in> set xs" for x
  proof (rule ccontr)
    assume "\<not> (\<exists>y. k x = Inr y)"
    then obtain e where "k x = Inl e" by (cases "k x") auto
    with that obtain e' where "mapE k xs = Inl e'" using mapE_ex_Inl by metis
    with assms show False by (simp add: sortedE_def)
  qed
  then show "\<forall>x \<in> set xs. \<exists>y. k x = Inr y" by blast
  have "k x = Inr (projr (k x))" if "x \<in> set xs" for x
    using ok [OF that] by auto
  then have "sortedE k xs = Inr (sort_key (\<lambda>x. projr (k x)) xs)"
    by (rule sortedE_Inr)
  with assms show "ys = sort_key (\<lambda>x. projr (k x)) xs" by simp
qed

lemma sorted_pair_key:
  assumes "sorted (map f ys)" and "\<And>k. sorted (map g (filter (\<lambda>x. f x = k) ys))"
  shows "sorted (map (\<lambda>x. (f x, g x)) ys)"
  using assms
proof (induction ys)
  case Nil
  then show ?case by simp
next
  case (Cons y ys)
  have "sorted (map g (filter (\<lambda>x. f x = k) ys))" for k
    using Cons.prems(2) [of k] by (auto split: if_splits)
  with Cons have "sorted (map (\<lambda>x. (f x, g x)) ys)" by simp
  moreover have "(f y, g y) \<le> (f x, g x)" if "x \<in> set ys" for x
  proof (cases "f x = f y")
    case True
    with that Cons.prems(2) [of "f y"] have "g y \<le> g x" by auto
    with True show ?thesis by simp
  next
    case False
    with that Cons.prems(1) have "f y < f x" by auto
    then show ?thesis by simp
  qed
  ultimately show ?case by auto
qed

text \<open>Sorting by a pair is sorting by its second component, then stably by its first.\<close>

lemma sort_key_pair:
  fixes f :: "'a \<Rightarrow> 'b::linorder" and g :: "'a \<Rightarrow> 'c::linorder"
  shows "sort_key (\<lambda>x. (f x, g x)) xs = sort_key f (sort_key g xs)"
proof (rule properties_for_sort_key)
  let ?ys = "sort_key f (sort_key g xs)"
  show "mset ?ys = mset xs" by simp
  show "sorted (map (\<lambda>x. (f x, g x)) ?ys)"
  proof (rule sorted_pair_key)
    show "sorted (map f ?ys)" by simp
    fix k
    show "sorted (map g (filter (\<lambda>x. f x = k) ?ys))"
    proof -
      have "filter (\<lambda>x. f x = k) ?ys = filter (\<lambda>x. f x = k) (sort_key g xs)"
        by (simp add: sort_key_stable)
      moreover have "sorted (map g (filter (\<lambda>x. f x = k) (sort_key g xs)))"
        by (rule sorted_filter) simp
      ultimately show ?thesis by simp
    qed
  qed
  show "filter (\<lambda>x. (f y, g y) = (f x, g x)) ?ys = filter (\<lambda>x. (f y, g y) = (f x, g x)) xs" for y
  proof -
    have split: "filter (\<lambda>x. (f y, g y) = (f x, g x)) zs =
        filter (\<lambda>x. g x = g y) (filter (\<lambda>x. f x = f y) zs)" for zs
      by (simp add: conj_commute eq_commute)
    have swap: "filter (\<lambda>x. g x = g y) (filter (\<lambda>x. f x = f y) zs) =
        filter (\<lambda>x. f x = f y) (filter (\<lambda>x. g x = g y) zs)" for zs
      by (simp add: conj_commute)
    have "filter (\<lambda>x. g x = g y) (filter (\<lambda>x. f x = f y) ?ys) =
        filter (\<lambda>x. g x = g y) (filter (\<lambda>x. f x = f y) (sort_key g xs))"
      by (simp only: sort_key_stable)
    also have "\<dots> = filter (\<lambda>x. f x = f y) (filter (\<lambda>x. g x = g y) xs)"
      by (simp only: swap sort_key_stable)
    also have "\<dots> = filter (\<lambda>x. g x = g y) (filter (\<lambda>x. f x = f y) xs)"
      by (simp only: swap)
    finally show ?thesis by (simp only: split)
  qed
qed

lemma hd_sort_key_le:
  "y \<in> set xs \<Longrightarrow> f (hd (sort_key f xs)) \<le> f y"
proof -
  assume y: "y \<in> set xs"
  then obtain z zs where s: "sort_key f xs = z # zs"
    by (cases "sort_key f xs") (metis set_sort empty_iff empty_set, simp)
  have "sorted (map f (sort_key f xs))" by simp
  moreover have "y \<in> set (z # zs)" using y s by (metis set_sort)
  ultimately show ?thesis using s by auto
qed

lemma hd_sort_key_in: "xs \<noteq> [] \<Longrightarrow> hd (sort_key f xs) \<in> set xs"
  by (metis hd_in_set length_0_conv length_sort set_sort)

lemma sort_key_eq_Nil_iff [simp]: "sort_key f xs = [] \<longleftrightarrow> xs = []"
  by (metis length_0_conv length_sort)

section \<open>Lemmas on dictionaries\<close>

lemma dict_get_set [dict_simps]:
  "dict_get (dict_set k v d) k' = (if k' = k then Some v else dict_get d k')"
  by (simp add: dict_get_def dict_set_def update_conv)

lemma dict_get_Nil [simp]: "dict_get [] k = None"
  by (simp add: dict_get_def)

lemma dict_ok_Nil [simp]: "dict_ok []"
  by (simp add: dict_ok_def dict_keys_def)

lemma dict_ok_set: "dict_ok d \<Longrightarrow> dict_ok (dict_set k v d)"
  by (simp add: dict_ok_def dict_keys_def dict_set_def distinct_update)

lemma set_dict_keys_set [dict_simps]: "set (dict_keys (dict_set k v d)) = insert k (set (dict_keys d))"
  by (induction d) (auto simp: dict_keys_def dict_set_def)

lemma dict_keys_set_new [dict_simps]:
  "k \<notin> set (dict_keys d) \<Longrightarrow> dict_keys (dict_set k v d) = dict_keys d @ [k]"
  by (induction d) (auto simp: dict_keys_def dict_set_def)

lemma dict_keys_set_old [dict_simps]:
  "k \<in> set (dict_keys d) \<Longrightarrow> dict_keys (dict_set k v d) = dict_keys d"
  by (induction d) (auto simp: dict_keys_def dict_set_def)

lemma dict_get_None_iff: "dict_get d k = None \<longleftrightarrow> k \<notin> set (dict_keys d)"
  by (simp add: dict_get_def dict_keys_def map_of_eq_None_iff)

lemma dict_get_Some_in: "dict_get d k = Some v \<Longrightarrow> (k, v) \<in> set d"
  by (simp add: dict_get_def map_of_SomeD)

lemma dict_get_in: "dict_ok d \<Longrightarrow> (k, v) \<in> set d \<Longrightarrow> dict_get d k = Some v"
  by (simp add: dict_ok_def dict_keys_def dict_get_def)

lemma fold_dict_set_ok: "dict_ok d \<Longrightarrow> dict_ok (fold (\<lambda>(k, v). dict_set k v) kvs d)"
  by (induction kvs arbitrary: d) (auto simp: dict_ok_set)

lemma dict_of_ok: "dict_ok (dict_of kvs)"
  by (simp add: dict_of_def fold_dict_set_ok)

lemma fold_dict_set_get:
  "dict_get (fold (\<lambda>(k, v). dict_set k v) kvs d) k =
     (case map_of (rev kvs) k of None \<Rightarrow> dict_get d k | Some v \<Rightarrow> Some v)"
  by (induction kvs arbitrary: d) (auto simp: dict_simps map_add_def split: option.splits)

text \<open>In a comprehension the last pair of a key wins.\<close>

lemma dict_of_get: "dict_get (dict_of kvs) k = map_of (rev kvs) k"
  by (simp add: dict_of_def fold_dict_set_get split: option.splits)

lemma fold_dict_set_keys:
  "set (dict_keys (fold (\<lambda>(k, v). dict_set k v) kvs d)) = set (dict_keys d) \<union> fst ` set kvs"
  by (induction kvs arbitrary: d) (auto simp: dict_simps)

lemma dict_of_keys: "set (dict_keys (dict_of kvs)) = fst ` set kvs"
  by (simp add: dict_of_def fold_dict_set_keys) (simp add: dict_keys_def)

lemma fold_dict_set_distinct:
  "distinct (map fst kvs) \<Longrightarrow> fst ` set kvs \<inter> set (dict_keys d) = {} \<Longrightarrow>
   fold (\<lambda>(k, v). dict_set k v) kvs d = d @ kvs"
proof (induction kvs arbitrary: d)
  case Nil
  then show ?case by simp
next
  case (Cons p kvs)
  obtain k v where p: "p = (k, v)" by force
  have "dict_set k v d = d @ [(k, v)]"
    using Cons.prems p by (induction d) (auto simp: dict_set_def dict_keys_def)
  with Cons p show ?case by (auto simp: dict_keys_def)
qed

lemma dict_of_distinct: "distinct (map fst kvs) \<Longrightarrow> dict_of kvs = kvs"
  by (simp add: dict_of_def fold_dict_set_distinct dict_keys_def)

lemma dict_of_image: "set (dict_of kvs) \<subseteq> set kvs"
proof
  fix p assume p: "p \<in> set (dict_of kvs)"
  obtain k v where kv: "p = (k, v)" by force
  with p have "dict_get (dict_of kvs) k = Some v" by (simp add: dict_get_in dict_of_ok)
  then have "map_of (rev kvs) k = Some v" by (simp add: dict_of_get)
  then show "p \<in> set kvs" using kv map_of_SomeD by fastforce
qed

end
