(* ===== verification/PyStr.thy ===== *)
theory PyStr
  imports Prelude
begin

text \<open>
  Python's \<open>str\<close> and the exceptions of the program.

  A string is a list of code points. The alphabet of the model is every code point up to
  U+00FF (\<open>Lat\<close>) and the two further code points that occur in literals of the program,
  the em dash U+2014 and the ellipsis U+2026. On this alphabet the methods the program calls
  (\<open>split\<close>, \<open>strip\<close>, \<open>lower\<close>, \<open>isdigit\<close>, \<open>isspace\<close>, \<open>splitlines\<close>, \<open>replace\<close>,
  \<open>startswith\<close>, \<open>partition\<close>, \<open>int\<close>, ...) are written out as CPython 3.11 defines them,
  superscript digits and the C1 control characters included. Comparison of strings is
  lexicographic by code point.
\<close>

section \<open>Characters and strings\<close>

datatype uchar = Lat char | EmDash | Ellipsis

type_synonym pystr = "uchar list"

fun cp :: "uchar \<Rightarrow> int" where
  "cp (Lat c) = of_char c"
| "cp EmDash = 8212"
| "cp Ellipsis = 8230"

definition lit :: "string \<Rightarrow> pystr" where
  "lit s = map Lat s"

lemma of_char_range: "0 \<le> (of_char c :: int)" "(of_char c :: int) < 256"
  using nat_of_char_less_256 [of c] of_nat_of_char [of c, where 'a = int] by linarith+

lemma cp_inject: "cp a = cp b \<longleftrightarrow> a = b"
proof -
  have "(of_char c :: int) \<noteq> 8212" "(of_char c :: int) \<noteq> 8230" for c
    using of_char_range [of c] by linarith+
  then show ?thesis by (cases a; cases b) (auto simp: eq_commute)
qed

instantiation uchar :: linorder
begin

definition less_eq_uchar :: "uchar \<Rightarrow> uchar \<Rightarrow> bool" where
  "less_eq_uchar a b \<longleftrightarrow> cp a \<le> cp b"

definition less_uchar :: "uchar \<Rightarrow> uchar \<Rightarrow> bool" where
  "less_uchar a b \<longleftrightarrow> cp a < cp b"

instance
  by standard (auto simp: less_eq_uchar_def less_uchar_def cp_inject)

end

section \<open>Exceptions\<close>

text \<open>
  Exceptions of the interpreter, of the libraries and of the program; \<open>HTTPException\<close>
  carries the status code and the detail, a text or a list of messages; \<open>OtherException\<close> stands for what code
  outside the repository may raise beyond the documented exceptions.
\<close>

datatype exn =
    ValueError | KeyError | IndexError | TypeError | AttributeError | OverflowError | ZeroDivisionError
  | SyntaxError | RecursionError | OSError | SubprocessError | ApiException int | OtherException
  | FeatureUnavailable pystr | FeatureInputError pystr | ValidationError "pystr list"
  | HTTPException nat "pystr + pystr list"

section \<open>Methods of str\<close>

definition isspace_c :: "uchar \<Rightarrow> bool" where
  "isspace_c c \<longleftrightarrow> (let n = cp c in (9 \<le> n \<and> n \<le> 13) \<or> (28 \<le> n \<and> n \<le> 32) \<or> n = 133 \<or> n = 160)"

definition isdecimal_c :: "uchar \<Rightarrow> bool" where
  "isdecimal_c c \<longleftrightarrow> 48 \<le> cp c \<and> cp c \<le> 57"

text \<open>\<open>isdigit\<close> also accepts the superscripts U+00B2, U+00B3 and U+00B9.\<close>

definition isdigit_c :: "uchar \<Rightarrow> bool" where
  "isdigit_c c \<longleftrightarrow> isdecimal_c c \<or> cp c = 178 \<or> cp c = 179 \<or> cp c = 185"

definition isdigit :: "pystr \<Rightarrow> bool" where
  "isdigit s \<longleftrightarrow> s \<noteq> [] \<and> list_all isdigit_c s"

fun lower_c :: "uchar \<Rightarrow> uchar" where
  "lower_c (Lat c) =
     (let n = of_char c :: int in
      if (65 \<le> n \<and> n \<le> 90) \<or> (192 \<le> n \<and> n \<le> 222 \<and> n \<noteq> 215) then Lat (char_of (n + 32))
      else Lat c)"
| "lower_c c = c"

definition lower :: "pystr \<Rightarrow> pystr" where
  "lower s = map lower_c s"

text \<open>\<open>str.upper\<close> of one character, on ASCII letters (the only ones \<open>capitalize\<close> meets here).\<close>

fun upper_c :: "uchar \<Rightarrow> uchar" where
  "upper_c (Lat c) =
     (let n = of_char c :: int in if 97 \<le> n \<and> n \<le> 122 then Lat (char_of (n - 32)) else Lat c)"
| "upper_c c = c"

fun capitalize :: "pystr \<Rightarrow> pystr" where
  "capitalize [] = []"
| "capitalize (c # s) = upper_c c # lower s"

text \<open>\<open>s.split(c)\<close> for a one-character separator.\<close>

fun split_on :: "uchar \<Rightarrow> pystr \<Rightarrow> pystr list" where
  "split_on c [] = [[]]"
| "split_on c (x # xs) =
     (if x = c then [] # split_on c xs
      else (case split_on c xs of [] \<Rightarrow> [[x]] | p # ps \<Rightarrow> (x # p) # ps))"

text \<open>\<open>s.split()\<close>: the maximal runs of characters that are not white space.\<close>

fun split_ws_acc :: "pystr \<Rightarrow> pystr \<Rightarrow> pystr list" where
  "split_ws_acc acc [] = (if acc = [] then [] else [rev acc])"
| "split_ws_acc acc (x # xs) =
     (if isspace_c x
      then (if acc = [] then split_ws_acc [] xs else rev acc # split_ws_acc [] xs)
      else split_ws_acc (x # acc) xs)"

definition split_ws :: "pystr \<Rightarrow> pystr list" where
  "split_ws s = split_ws_acc [] s"

definition strip_by :: "(uchar \<Rightarrow> bool) \<Rightarrow> pystr \<Rightarrow> pystr" where
  "strip_by p s = rev (dropWhile p (rev (dropWhile p s)))"

definition strip :: "pystr \<Rightarrow> pystr" where
  "strip s = strip_by isspace_c s"

definition startswith :: "pystr \<Rightarrow> pystr \<Rightarrow> bool" where
  "startswith s p \<longleftrightarrow> take (length p) s = p"

text \<open>\<open>q in s\<close> for strings.\<close>

fun str_in :: "pystr \<Rightarrow> pystr \<Rightarrow> bool" where
  "str_in q [] \<longleftrightarrow> q = []"
| "str_in q (x # xs) \<longleftrightarrow> startswith (x # xs) q \<or> str_in q xs"

text \<open>\<open>s.replace(old, new)\<close> for a non-empty \<open>old\<close>: leftmost, without overlaps.\<close>

function replace :: "pystr \<Rightarrow> pystr \<Rightarrow> pystr \<Rightarrow> pystr" where
  "replace old new [] = []"
| "replace old new (x # xs) =
     (if old \<noteq> [] \<and> startswith (x # xs) old then new @ replace old new (drop (length old) (x # xs))
      else x # replace old new xs)"
  by pat_completeness auto
termination
  by (relation "measure (\<lambda>(old, new, s). length s)") auto

fun join :: "pystr \<Rightarrow> pystr list \<Rightarrow> pystr" where
  "join sep [] = []"
| "join sep [s] = s"
| "join sep (s # t # ss) = s @ sep @ join sep (t # ss)"

text \<open>\<open>s.partition(c)\<close> without the middle component: the text before and after the first \<open>c\<close>.\<close>

definition partition_on :: "uchar \<Rightarrow> pystr \<Rightarrow> pystr \<times> pystr" where
  "partition_on c s = (takeWhile (\<lambda>x. x \<noteq> c) s, drop 1 (dropWhile (\<lambda>x. x \<noteq> c) s))"

definition line_break :: "uchar \<Rightarrow> bool" where
  "line_break c \<longleftrightarrow> (let n = cp c in (10 \<le> n \<and> n \<le> 13) \<or> (28 \<le> n \<and> n \<le> 30) \<or> n = 133)"

text \<open>\<open>s.splitlines()\<close>: \<open>\\r\\n\<close> is one break; a break at the end opens no empty line.\<close>

function splitlines_acc :: "pystr \<Rightarrow> pystr \<Rightarrow> pystr list" where
  "splitlines_acc acc [] = (if acc = [] then [] else [rev acc])"
| "splitlines_acc acc (x # xs) =
     (if cp x = 13 \<and> xs \<noteq> [] \<and> cp (hd xs) = 10 then rev acc # splitlines_acc [] (tl xs)
      else if line_break x then rev acc # splitlines_acc [] xs
      else splitlines_acc (x # acc) xs)"
  by pat_completeness auto
termination
  by (relation "measure (\<lambda>(acc, s). length s)") auto

definition splitlines :: "pystr \<Rightarrow> pystr list" where
  "splitlines s = splitlines_acc [] s"

text \<open>A text between apostrophes, as the messages of the program quote names.\<close>

definition quoted :: "pystr \<Rightarrow> pystr" where
  "quoted s = Lat (CHR 0x27) # s @ [Lat (CHR 0x27)]"

section \<open>Numbers and strings\<close>

definition digit_val :: "uchar \<Rightarrow> int" where
  "digit_val c = cp c - 48"

definition digits_val :: "pystr \<Rightarrow> int" where
  "digits_val s = foldl (\<lambda>a c. 10 * a + digit_val c) 0 s"

text \<open>
  \<open>int(s)\<close> for a string of digits, as the program calls it: a character that is a digit
  but not a decimal raises \<open>ValueError\<close>, and so do more than 4300 digits (the
  interpreter's default conversion limit).
\<close>

definition py_int :: "pystr \<Rightarrow> exn + int" where
  "py_int s =
     (if s \<noteq> [] \<and> list_all isdecimal_c s \<and> length s \<le> 4300 then Inr (digits_val s)
      else Inl ValueError)"

fun dec_digits :: "int \<Rightarrow> pystr" where
  "dec_digits n =
     (if n < 10 then [Lat (char_of (48 + n))]
      else dec_digits (n div 10) @ [Lat (char_of (48 + n mod 10))])"

declare dec_digits.simps [simp del]

definition str_of_int :: "int \<Rightarrow> pystr" where
  "str_of_int i = (if i < 0 then lit ''-'' @ dec_digits (- i) else dec_digits i)"

definition str_of_nat :: "nat \<Rightarrow> pystr" where
  "str_of_nat n = str_of_int (int n)"

section \<open>Lemmas\<close>

lemma lit_Nil [simp]: "lit [] = []"
  by (simp add: lit_def)

lemma lit_Cons: "lit (c # s) = Lat c # lit s"
  by (simp add: lit_def)

lemma lit_eq_Nil [simp]: "lit s = [] \<longleftrightarrow> s = []" "[] = lit s \<longleftrightarrow> s = []"
  by (auto simp: lit_def)

lemma length_lit [simp]: "length (lit s) = length s"
  by (simp add: lit_def)

lemma lit_append: "lit (a @ b) = lit a @ lit b"
  by (simp add: lit_def)

lemma lit_inject [simp]: "lit a = lit b \<longleftrightarrow> a = b"
  by (auto simp: lit_def inj_map_eq_map inj_def)

lemma split_on_not_Nil [simp]: "split_on c s \<noteq> []"
  by (cases s) (auto split: list.splits)

lemma join_Cons: "ss \<noteq> [] \<Longrightarrow> join sep (s # ss) = s @ sep @ join sep ss"
  by (cases ss) auto

lemma join_split_on: "join [c] (split_on c s) = s"
proof (induction s)
  case Nil
  then show ?case by simp
next
  case (Cons x xs)
  obtain p ps where ps: "split_on c xs = p # ps"
    using split_on_not_Nil [of c xs] by (cases "split_on c xs") auto
  with Cons.IH show ?case by (cases ps) (auto simp: join_Cons)
qed

lemma split_on_no_sep: "p \<in> set (split_on c s) \<Longrightarrow> c \<notin> set p"
proof (induction s arbitrary: p)
  case Nil
  then show ?case by simp
next
  case (Cons x xs)
  obtain q qs where q: "split_on c xs = q # qs"
    using split_on_not_Nil [of c xs] by (cases "split_on c xs") auto
  show ?case using Cons q by (auto split: if_splits)
qed

lemma split_on_free: "c \<notin> set s \<Longrightarrow> split_on c s = [s]"
  by (induction s) auto

lemma split_on_append_sep: "c \<notin> set a \<Longrightarrow> split_on c (a @ c # b) = a # split_on c b"
  by (induction a) auto

lemma split_on_join:
  "ss \<noteq> [] \<Longrightarrow> (\<And>s. s \<in> set ss \<Longrightarrow> c \<notin> set s) \<Longrightarrow> split_on c (join [c] ss) = ss"
proof (induction ss)
  case Nil
  then show ?case by simp
next
  case (Cons s ss)
  show ?case
  proof (cases "ss = []")
    case True
    with Cons.prems show ?thesis by (simp add: split_on_free)
  next
    case False
    with Cons have "split_on c (join [c] ss) = ss" by simp
    with False Cons.prems show ?thesis by (simp add: join_Cons split_on_append_sep)
  qed
qed

lemma startswith_append [simp]: "startswith (p @ s) p"
  by (simp add: startswith_def)

lemma startswith_iff: "startswith s p \<longleftrightarrow> (\<exists>t. s = p @ t)"
  unfolding startswith_def by (metis append_take_drop_id append_eq_conv_conj)

lemma startswith_Cons: "startswith s (c # p) \<longleftrightarrow> (\<exists>t. s = c # t \<and> startswith t p)"
  by (cases s) (auto simp: startswith_def)

lemma startswith_Nil [simp]: "startswith s []"
  by (simp add: startswith_def)

lemma str_in_iff: "str_in q s \<longleftrightarrow> (\<exists>a b. s = a @ q @ b)"
proof (induction s)
  case Nil
  then show ?case by auto
next
  case (Cons x xs)
  show ?case
  proof
    assume "str_in q (x # xs)"
    then consider "startswith (x # xs) q" | "str_in q xs" by auto
    then show "\<exists>a b. x # xs = a @ q @ b"
    proof cases
      case 1
      then obtain t where "x # xs = [] @ q @ t" by (auto simp: startswith_iff)
      then show ?thesis by blast
    next
      case 2
      then obtain a b where "xs = a @ q @ b" using Cons.IH by auto
      then have "x # xs = (x # a) @ q @ b" by simp
      then show ?thesis by blast
    qed
  next
    assume "\<exists>a b. x # xs = a @ q @ b"
    then obtain a b where ab: "x # xs = a @ q @ b" by blast
    show "str_in q (x # xs)"
    proof (cases a)
      case Nil
      with ab have "startswith (x # xs) q" by (simp add: startswith_iff)
      then show ?thesis by simp
    next
      case (Cons y ys)
      with ab have "xs = ys @ q @ b" by simp
      then show ?thesis using Cons.IH by auto
    qed
  qed
qed

lemma strip_by_subset: "set (strip_by p s) \<subseteq> set s"
  unfolding strip_by_def by (metis set_dropWhileD set_rev subsetI)

lemma py_int_isdigit:
  "isdigit s \<Longrightarrow> length s \<le> 4300 \<Longrightarrow> py_int s = Inl ValueError \<longleftrightarrow> (\<exists>c \<in> set s. \<not> isdecimal_c c)"
  by (auto simp: py_int_def isdigit_def list_all_iff)

lemma digit_val_range: "isdecimal_c c \<Longrightarrow> 0 \<le> digit_val c \<and> digit_val c \<le> 9"
  by (auto simp: isdecimal_c_def digit_val_def)

lemma foldl_digits_nonneg:
  "0 \<le> a \<Longrightarrow> list_all isdecimal_c s \<Longrightarrow> 0 \<le> foldl (\<lambda>a c. 10 * a + digit_val c) a s"
  by (induction s arbitrary: a) (auto simp: digit_val_range)

lemma py_int_nonneg: "py_int s = Inr n \<Longrightarrow> 0 \<le> n"
  by (auto simp: py_int_def digits_val_def foldl_digits_nonneg split: if_splits)

lemma cp_char_of: "0 \<le> n \<Longrightarrow> n < 256 \<Longrightarrow> cp (Lat (char_of n)) = n"
  by simp

lemma lower_c_idem: "lower_c (lower_c c) = lower_c c"
proof (cases c)
  case (Lat d)
  then show ?thesis using of_char_range [of d] by (auto simp: Let_def)
qed auto

lemma lower_idem: "lower (lower s) = lower s"
  by (simp add: lower_def lower_c_idem)


text \<open>Decimal printing and reading are inverse.\<close>

lemma digit_char:
  assumes "0 \<le> m" "m < 10"
  shows "isdecimal_c (Lat (char_of (48 + m :: int)))" and "digit_val (Lat (char_of (48 + m))) = m"
  using assms by (auto simp: isdecimal_c_def digit_val_def)

lemma dec_digits_decimal: "0 \<le> n \<Longrightarrow> list_all isdecimal_c (dec_digits n)"
proof (induction n rule: dec_digits.induct)
  case (1 n)
  then show ?case
    using digit_char [of n] digit_char [of "n mod 10"] by (simp add: dec_digits.simps [of n])
qed

lemma dec_digits_not_Nil [simp]: "dec_digits n \<noteq> []"
  by (simp add: dec_digits.simps [of n])

lemma digits_val_dec_digits: "0 \<le> n \<Longrightarrow> digits_val (dec_digits n) = n"
proof (induction n rule: dec_digits.induct)
  case (1 n)
  show ?case
  proof (cases "n < 10")
    case True
    with 1 show ?thesis by (simp add: dec_digits.simps [of n] digits_val_def digit_char)
  next
    case False
    with 1 have "digits_val (dec_digits (n div 10)) = n div 10" by simp
    with False show ?thesis
      by (simp add: dec_digits.simps [of n] digits_val_def digit_char)
  qed
qed

lemma str_of_nat_inject [simp]: "str_of_nat m = str_of_nat n \<longleftrightarrow> m = n"
  by (metis digits_val_dec_digits of_nat_eq_iff of_nat_0_le_iff str_of_int_def str_of_nat_def
      not_less)

lemma py_int_str_of_nat: "length (str_of_nat n) \<le> 4300 \<Longrightarrow> py_int (str_of_nat n) = Inr (int n)"
  by (simp add: py_int_def str_of_nat_def str_of_int_def dec_digits_decimal digits_val_dec_digits)

end
