(* ===== verification/PyFloat.thy ===== *)
theory PyFloat
  imports Complex_Main Prelude
begin

text \<open>
  Python's \<open>float\<close>. A finite binary64 value is represented by the rational number it
  denotes; every arithmetic operation is the exact operation followed by \<open>fl\<close>, rounding to
  nearest, ties to even, with 53 significant bits and gradual underflow. A literal such as
  \<open>0.7\<close> is \<open>fl (7/10)\<close>. Infinities, NaN and the sign of zero are not represented: the
  quantities of the program (rates, priors, latencies) stay far below the overflow threshold.
\<close>

type_synonym float64 = rat

section \<open>Rounding\<close>

fun bit_len :: "int \<Rightarrow> nat" where
  "bit_len n = (if n \<le> 0 then 0 else Suc (bit_len (n div 2)))"

declare bit_len.simps [simp del]

text \<open>The binary exponent: \<open>2 powi ilog2 x \<le> x < 2 powi (ilog2 x + 1)\<close> for positive \<open>x\<close>.\<close>

definition ilog2 :: "rat \<Rightarrow> int" where
  "ilog2 x = (if 1 \<le> x then int (bit_len \<lfloor>x\<rfloor>) - 1 else - int (bit_len (\<lceil>1 / x\<rceil> - 1)))"

definition round_half_even :: "rat \<Rightarrow> int" where
  "round_half_even r =
     (let f = \<lfloor>r\<rfloor>; d = r - of_int f in
      if d < 1 / 2 then f else if 1 / 2 < d then f + 1 else if even f then f else f + 1)"

definition ulp_exp :: "rat \<Rightarrow> int" where
  "ulp_exp x = max (ilog2 \<bar>x\<bar> - 52) (- 1074)"

definition fl :: "rat \<Rightarrow> float64" where
  "fl x = (if x = 0 then 0
           else of_int (round_half_even (x / 2 powi ulp_exp x)) * 2 powi ulp_exp x)"

section \<open>Operations\<close>

definition fadd :: "float64 \<Rightarrow> float64 \<Rightarrow> float64" where "fadd a b = fl (a + b)"
definition fsub :: "float64 \<Rightarrow> float64 \<Rightarrow> float64" where "fsub a b = fl (a - b)"
definition fmul :: "float64 \<Rightarrow> float64 \<Rightarrow> float64" where "fmul a b = fl (a * b)"
definition fdiv :: "float64 \<Rightarrow> float64 \<Rightarrow> float64" where "fdiv a b = fl (a / b)"

text \<open>True division of two integers is correctly rounded; so is float divided by integer here.\<close>

definition int_div :: "int \<Rightarrow> int \<Rightarrow> float64" where
  "int_div a b = fl (of_int a / of_int b)"

text \<open>\<open>round(x, n)\<close>: the exact value is rounded half-even to \<open>n\<close> decimals, then to a float.\<close>

definition py_round :: "float64 \<Rightarrow> nat \<Rightarrow> float64" where
  "py_round x n = fl (of_int (round_half_even (x * 10 ^ n)) / 10 ^ n)"

section \<open>The binary exponent\<close>

lemma bit_len_bounds: "0 < n \<Longrightarrow> 2 ^ (bit_len n - 1) \<le> n \<and> n < 2 ^ bit_len n \<and> 0 < bit_len n"
proof (induction n rule: bit_len.induct)
  case (1 n)
  show ?case
  proof (cases "n = 1")
    case True
    then show ?thesis by (simp add: bit_len.simps)
  next
    case False
    with 1 have IH: "2 ^ (bit_len (n div 2) - 1) \<le> n div 2" "n div 2 < 2 ^ bit_len (n div 2)"
      "0 < bit_len (n div 2)" by auto
    have e: "bit_len n = Suc (bit_len (n div 2))" using 1 by (simp add: bit_len.simps [of n])
    obtain k where k: "bit_len (n div 2) = Suc k" using IH(3) by (cases "bit_len (n div 2)") auto
    show ?thesis using IH e k by simp presburger
  qed
qed

lemma powi_nat: "0 \<le> k \<Longrightarrow> (2::rat) powi k = 2 ^ nat k"
  by (simp add: power_int_def)

lemma powi_int_nat: "(2::rat) powi (int n) = 2 ^ n"
  by (simp add: power_int_def)

lemma powi_pos [simp]: "0 < (2::rat) powi k"
  by (simp add: zero_less_power_int)

lemma powi_nonneg [simp]: "0 \<le> (2::rat) powi k"
  by (simp add: order_less_imp_le)

lemma powi_neq_0 [simp]: "(2::rat) powi k \<noteq> 0"
  by (simp add: power_int_eq_0_iff)

lemma ilog2_bounds:
  assumes "0 < x"
  shows "2 powi ilog2 x \<le> x" and "x < 2 powi (ilog2 x + 1)"
proof -
  have "2 powi ilog2 x \<le> x \<and> x < 2 powi (ilog2 x + 1)"
  proof (cases "1 \<le> x")
    case True
    define n where "n = \<lfloor>x\<rfloor>"
    have n: "0 < n" using True by (simp add: n_def)
    note b = bit_len_bounds [OF n]
    then obtain k where k: "bit_len n = Suc k" by (cases "bit_len n") auto
    have "ilog2 x = int k" using True k by (simp add: ilog2_def n_def)
    moreover have "(2::rat) ^ k \<le> of_int n"
    proof -
      have "of_int ((2::int) ^ k) \<le> (of_int n :: rat)" using b k by (simp only: of_int_le_iff) simp
      then show ?thesis by simp
    qed
    moreover have "x < (2::rat) ^ Suc k"
    proof -
      have "n + 1 \<le> 2 ^ Suc k" using b k by simp
      then have "of_int (n + 1) \<le> (of_int (2 ^ Suc k) :: rat)" by (simp only: of_int_le_iff)
      moreover have "x < of_int (n + 1)" unfolding n_def by linarith
      ultimately show ?thesis by simp
    qed
    moreover have "of_int n \<le> x" by (simp add: n_def)
    moreover have "int k + 1 = int (Suc k)" by simp
    ultimately show ?thesis by (metis order_trans powi_int_nat)
  next
    case False
    define m where "m = \<lceil>1 / x\<rceil>"
    have y: "1 < 1 / x" using assms False by simp
    then have m: "0 < m - 1" unfolding m_def by linarith
    note b = bit_len_bounds [OF m]
    then obtain k where k: "bit_len (m - 1) = Suc k" by (cases "bit_len (m - 1)") auto
    have e: "ilog2 x = - int (Suc k)" using False k by (simp add: ilog2_def m_def)
    have "m \<le> 2 ^ Suc k" using b k by simp
    then have "(of_int m :: rat) \<le> of_int (2 ^ Suc k)" by (simp only: of_int_le_iff)
    moreover have "1 / x \<le> of_int m" by (simp add: m_def)
    ultimately have up: "1 / x \<le> 2 ^ Suc k" by simp
    have "2 ^ k \<le> m - 1" using b k by simp
    then have "(of_int (2 ^ k) :: rat) \<le> of_int (m - 1)" by (simp only: of_int_le_iff)
    moreover have "of_int (m - 1) < 1 / x" unfolding m_def by linarith
    ultimately have lo: "2 ^ k < 1 / x" by simp
    have "2 powi ilog2 x = 1 / (2::rat) ^ Suc k"
      unfolding e by (simp only: power_int_minus_divide powi_int_nat)
    moreover have "2 powi (ilog2 x + 1) = 1 / (2::rat) ^ k"
    proof -
      have "ilog2 x + 1 = - int k" using e by simp
      then show ?thesis by (simp only: power_int_minus_divide powi_int_nat)
    qed
    moreover have "1 / 2 ^ Suc k \<le> x" using up assms by (simp add: field_simps)
    moreover have "x < 1 / 2 ^ k" using lo assms by (simp add: field_simps)
    ultimately show ?thesis by (simp only: simp_thms)
  qed
  then show "2 powi ilog2 x \<le> x" and "x < 2 powi (ilog2 x + 1)" by auto
qed

lemma powi_mono: "a \<le> b \<Longrightarrow> (2::rat) powi a \<le> 2 powi b"
  by (simp add: power_int_increasing)

lemma powi_less_iff: "(2::rat) powi a < 2 powi b \<longleftrightarrow> a < b"
  by (metis linorder_not_less power_int_strict_increasing one_less_numeral_iff semiring_norm(76)
      powi_mono)

lemma ilog2_mono:
  assumes "0 < x" and "x \<le> y"
  shows "ilog2 x \<le> ilog2 y"
proof -
  have "2 powi ilog2 x \<le> x" using assms ilog2_bounds by blast
  also have "x \<le> y" by (rule assms)
  also have "y < 2 powi (ilog2 y + 1)" using assms ilog2_bounds [of y] by simp
  finally have "ilog2 x < ilog2 y + 1" by (simp only: powi_less_iff)
  then show ?thesis by simp
qed

section \<open>Rounding to an integer\<close>

lemma round_half_even_of_int [simp]: "round_half_even (of_int n) = n"
  by (simp add: round_half_even_def)

lemma round_half_even_bounds:
  "of_int (round_half_even r) - 1 / 2 \<le> r \<and> r \<le> of_int (round_half_even r) + 1 / 2"
  unfolding round_half_even_def Let_def by (auto simp: not_less) linarith+

lemma round_half_even_mono:
  assumes "a \<le> b"
  shows "round_half_even a \<le> round_half_even b"
proof (rule ccontr)
  assume "\<not> ?thesis"
  then have gt: "round_half_even b + 1 \<le> round_half_even a" by simp
  have "of_int (round_half_even a) - 1 / 2 \<le> a" "b \<le> of_int (round_half_even b) + 1 / 2"
    using round_half_even_bounds by blast+
  moreover have "of_int (round_half_even b) + 1 \<le> (of_int (round_half_even a) :: rat)"
    using gt by (metis of_int_1 of_int_add of_int_le_iff)
  ultimately have "a = b" using assms by linarith
  with gt show False by simp
qed

lemma round_half_even_minus: "round_half_even (- r) = - round_half_even r"
proof (cases "r \<in> \<int>")
  case True
  then obtain n where "r = of_int n" by (auto elim: Ints_cases)
  then show ?thesis by (metis of_int_minus round_half_even_of_int)
next
  case False
  have f: "\<lfloor>- r\<rfloor> = - \<lfloor>r\<rfloor> - 1"
    using False by (metis ceiling_altdef floor_minus minus_diff_eq diff_minus_eq_add
        add_uminus_conv_diff Ints_of_int minus_add_distrib uminus_add_conv_diff add.commute)
  show ?thesis
    by (auto simp: round_half_even_def Let_def f) 
qed

section \<open>Rounding to a float\<close>

lemma fl_0 [simp]: "fl 0 = 0"
  by (simp add: fl_def)

lemma ulp_exp_minus [simp]: "ulp_exp (- x) = ulp_exp x"
  by (simp add: ulp_exp_def)

lemma fl_minus: "fl (- x) = - fl x"
  by (simp add: fl_def round_half_even_minus)

text \<open>A power of two that is a multiple of the unit is a fixed point of rounding in that unit.\<close>

lemma round_powi:
  assumes "u \<le> e"
  shows "of_int (round_half_even (2 powi e / 2 powi u)) * 2 powi u = (2::rat) powi e"
proof -
  have "(2::rat) powi e / 2 powi u = 2 powi (e - u)" by (simp add: power_int_diff)
  also have "\<dots> = of_int (2 ^ nat (e - u))" using assms by (simp add: powi_nat)
  finally have q: "(2::rat) powi e / 2 powi u = of_int (2 ^ nat (e - u))" .
  then have "of_int (round_half_even (2 powi e / 2 powi u)) = (2::rat) powi e / 2 powi u"
    by (simp only: round_half_even_of_int)
  then show ?thesis by simp
qed

lemma round_unit_mono:
  assumes "x \<le> y"
  shows "of_int (round_half_even (x / 2 powi u)) * 2 powi u
    \<le> of_int (round_half_even (y / 2 powi u)) * (2::rat) powi u"
proof -
  have "x / 2 powi u \<le> y / 2 powi u" using assms by (simp add: divide_right_mono)
  then have "round_half_even (x / 2 powi u) \<le> round_half_even (y / 2 powi u)"
    by (rule round_half_even_mono)
  then show ?thesis by (simp add: mult_right_mono)
qed

lemma fl_nonneg: "0 \<le> x \<Longrightarrow> 0 \<le> fl x"
  using round_unit_mono [of 0 x "ulp_exp x"] round_half_even_of_int [of 0]
  by (auto simp: fl_def)

lemma fl_mono_pos:
  assumes "0 < x" and "x \<le> y"
  shows "fl x \<le> fl y"
proof (cases "ulp_exp x = ulp_exp y")
  case True
  then show ?thesis
    using assms round_unit_mono [OF assms(2), of "ulp_exp x"] by (simp add: fl_def)
next
  case False
  let ?e = "ilog2 y"
  have "ilog2 x \<le> ?e" using assms by (rule ilog2_mono)
  with False assms have lt: "ilog2 x < ?e" and uy: "ulp_exp y = ?e - 52" and ux: "ulp_exp x \<le> ?e - 53"
    and xe: "ulp_exp x \<le> ?e" by (auto simp: ulp_exp_def max_def split: if_splits)
  have "x < 2 powi (ilog2 x + 1)" using assms ilog2_bounds by blast
  also have "\<dots> \<le> 2 powi ?e" using lt by (intro powi_mono) simp
  finally have x: "x \<le> 2 powi ?e" by simp
  have y: "2 powi ?e \<le> y" using assms ilog2_bounds [of y] by simp
  have "fl x \<le> 2 powi ?e"
    using round_unit_mono [OF x, of "ulp_exp x"] round_powi [OF xe] assms by (simp add: fl_def)
  also have "2 powi ?e = of_int (round_half_even (2 powi ?e / 2 powi ulp_exp y)) * (2::rat) powi ulp_exp y"
    by (rule round_powi [symmetric]) (simp add: uy)
  also have "\<dots> \<le> fl y"
    using round_unit_mono [OF y, of "ulp_exp y"] assms by (simp only: fl_def) simp
  finally show ?thesis .
qed

lemma fl_mono: "x \<le> y \<Longrightarrow> fl x \<le> fl y"
proof -
  assume xy: "x \<le> y"
  consider "0 < x" | "x \<le> 0" "0 \<le> y" | "y < 0" by linarith
  then show ?thesis
  proof cases
    case 1
    then show ?thesis using xy by (rule fl_mono_pos)
  next
    case 2
    then have "0 \<le> fl (- x)" "0 \<le> fl y" by (auto intro: fl_nonneg)
    then show ?thesis by (simp add: fl_minus)
  next
    case 3
    then have "fl (- y) \<le> fl (- x)" using xy by (intro fl_mono_pos) auto
    then show ?thesis by (simp add: fl_minus)
  qed
qed

text \<open>Rounding moves a value by at most half a unit in the last place.\<close>

lemma fl_error: "\<bar>fl x - x\<bar> \<le> 2 powi ulp_exp x / 2"
proof (cases "x = 0")
  case True
  then show ?thesis by simp
next
  case False
  let ?u = "(2::rat) powi ulp_exp x"
  let ?r = "of_int (round_half_even (x / ?u)) :: rat"
  have "?r - 1 / 2 \<le> x / ?u \<and> x / ?u \<le> ?r + 1 / 2" by (rule round_half_even_bounds)
  then have "\<bar>?r - x / ?u\<bar> \<le> 1 / 2" by linarith
  then have "\<bar>?r - x / ?u\<bar> * ?u \<le> 1 / 2 * ?u" by (rule mult_right_mono) simp
  moreover have "\<bar>?r - x / ?u\<bar> * ?u = \<bar>fl x - x\<bar>"
  proof -
    have "\<bar>?r - x / ?u\<bar> * ?u = \<bar>(?r - x / ?u) * ?u\<bar>" by (simp add: abs_mult)
    also have "(?r - x / ?u) * ?u = fl x - x" using False by (simp add: fl_def left_diff_distrib)
    finally show ?thesis .
  qed
  ultimately show ?thesis by simp
qed

lemma fl_error_abs:
  assumes "\<bar>x\<bar> < 2"
  shows "\<bar>fl x - x\<bar> \<le> 1 / 2 ^ 53"
proof (cases "x = 0")
  case True
  then show ?thesis by simp
next
  case False
  have "2 powi ilog2 \<bar>x\<bar> \<le> \<bar>x\<bar>" using False ilog2_bounds by simp
  with assms have "2 powi ilog2 \<bar>x\<bar> < (2::rat) powi 1" by simp
  then have "ilog2 \<bar>x\<bar> < 1" by (simp only: powi_less_iff)
  then have "ulp_exp x \<le> - 52" by (simp add: ulp_exp_def)
  then have "(2::rat) powi ulp_exp x \<le> 2 powi (- 52)" by (rule powi_mono)
  also have "\<dots> = 1 / 2 ^ 52" by (simp only: power_int_minus_divide power_int_numeral)
  finally have "(2::rat) powi ulp_exp x / 2 \<le> 1 / 2 ^ 53" by simp
  with fl_error [of x] show ?thesis by linarith
qed

text \<open>Values of the form \<open>m * 2 powi e\<close> with a 53-bit \<open>m\<close> are represented exactly.\<close>

lemma fl_exact:
  assumes m: "\<bar>m\<bar> < 2 ^ 53" and e: "- 1074 \<le> e"
  shows "fl (of_int m * 2 powi e) = of_int m * 2 powi e"
proof (cases "m = 0")
  case True
  then show ?thesis by simp
next
  case False
  let ?x = "of_int m * 2 powi e :: rat"
  let ?u = "ulp_exp ?x"
  have x0: "?x \<noteq> 0" and ax: "\<bar>?x\<bar> = of_int \<bar>m\<bar> * 2 powi e" using False by (auto simp: abs_mult)
  have "(of_int \<bar>m\<bar> :: rat) < of_int (2 ^ 53)" using m by (simp only: of_int_less_iff)
  then have "\<bar>?x\<bar> < of_int (2 ^ 53) * 2 powi e" unfolding ax by (rule mult_strict_right_mono) simp
  also have "\<dots> = 2 powi (e + 53)" by (simp add: power_int_add)
  finally have "2 powi ilog2 \<bar>?x\<bar> < (2::rat) powi (e + 53)" using ilog2_bounds(1) [of "\<bar>?x\<bar>"] x0
    by (meson order_le_less_trans zero_less_abs_iff)
  then have "ilog2 \<bar>?x\<bar> < e + 53" by (simp only: powi_less_iff)
  then have u: "?u \<le> e" using e by (simp add: ulp_exp_def)
  have "?x / 2 powi ?u = of_int m * (2 powi e / 2 powi ?u)" by simp
  also have "(2::rat) powi e / 2 powi ?u = 2 powi (e - ?u)" by (simp add: power_int_diff)
  also have "\<dots> = of_int (2 ^ nat (e - ?u))" using u by (simp add: powi_nat)
  finally have "?x / 2 powi ?u = of_int (m * 2 ^ nat (e - ?u))" by simp
  then have "of_int (round_half_even (?x / 2 powi ?u)) = ?x / 2 powi ?u"
    by (simp only: round_half_even_of_int)
  then show ?thesis using x0 by (simp add: fl_def)
qed

lemma fl_of_int: "\<bar>m\<bar> < 2 ^ 53 \<Longrightarrow> fl (of_int m) = of_int m"
  using fl_exact [of m 0] by simp

lemma fl_significand:
  assumes "x \<noteq> 0"
  shows "\<bar>round_half_even (x / 2 powi ulp_exp x)\<bar> \<le> 2 ^ 53"
proof -
  let ?u = "ulp_exp x"
  have "\<bar>x\<bar> \<le> 2 powi (ilog2 \<bar>x\<bar> + 1)" using assms ilog2_bounds(2) [of "\<bar>x\<bar>"] by simp
  also have "\<dots> \<le> 2 powi (53 + ?u)" by (rule powi_mono) (simp add: ulp_exp_def)
  also have "\<dots> = of_int (2 ^ 53) * 2 powi ?u" by (simp add: power_int_add)
  finally have "\<bar>x\<bar> / 2 powi ?u \<le> of_int (2 ^ 53)" by (simp add: divide_le_eq)
  then have "x / 2 powi ?u \<le> of_int (2 ^ 53)" and "of_int (- (2 ^ 53)) \<le> x / 2 powi ?u"
    by (auto simp: abs_le_iff simp flip: abs_divide)
      (metis abs_divide abs_ge_self abs_ge_minus_self order_trans abs_of_pos powi_pos,
       metis abs_divide abs_ge_minus_self order_trans abs_of_pos powi_pos neg_le_iff_le minus_minus)
  from this [THEN round_half_even_mono] show ?thesis
    by (simp only: round_half_even_of_int abs_le_iff) simp
qed

lemma fl_idem [simp]: "fl (fl x) = fl x"
proof (cases "x = 0")
  case True
  then show ?thesis by simp
next
  case False
  define m u where "m = round_half_even (x / 2 powi ulp_exp x)" and "u = ulp_exp x"
  have fx: "fl x = of_int m * 2 powi u" using False by (simp add: fl_def m_def u_def)
  have u: "- 1074 \<le> u" by (simp add: u_def ulp_exp_def)
  show ?thesis
  proof (cases "\<bar>m\<bar> < 2 ^ 53")
    case True
    then show ?thesis unfolding fx using u by (rule fl_exact)
  next
    case False
    then have "m = 2 ^ 53 \<or> m = - (2 ^ 53)"
      using fl_significand [OF \<open>x \<noteq> 0\<close>] unfolding m_def by linarith
    then have "fl x = of_int (m div 2) * 2 powi (u + 1)" and "\<bar>m div 2\<bar> < 2 ^ 53"
      unfolding fx by (auto simp: power_int_add)
    then show ?thesis using u fl_exact [of "m div 2" "u + 1"] by simp
  qed
qed

lemma fl_le_1: "x \<le> 1 \<Longrightarrow> fl x \<le> 1"
  using fl_mono [of x 1] fl_of_int [of 1] by simp

end
