(* ===== verification/Json.thy ===== *)
theory Json
  imports PyStr PyFloat
begin

text \<open>
  JSON values as Python represents them (\<open>None\<close>, \<open>bool\<close>, \<open>int\<close>, \<open>float\<close>, \<open>str\<close>,
  \<open>list\<close>, \<open>dict\<close> with string keys in insertion order), their truth values, and
  \<open>json.dumps\<close> with its default ASCII escaping, its separators and \<open>sort_keys\<close>.
\<close>

datatype json =
    JNull | JBool bool | JInt int | JFloat float64 | JStr pystr
  | JList "json list" | JObj "(pystr \<times> json) list"

type_synonym json_obj = "(pystr, json) dict"

text \<open>Python's truth value, as in \<open>x or y\<close> and \<open>if x\<close>.\<close>

fun truthy :: "json \<Rightarrow> bool" where
  "truthy JNull = False"
| "truthy (JBool b) = b"
| "truthy (JInt i) = (i \<noteq> 0)"
| "truthy (JFloat r) = (r \<noteq> 0)"
| "truthy (JStr s) = (s \<noteq> [])"
| "truthy (JList xs) = (xs \<noteq> [])"
| "truthy (JObj d) = (d \<noteq> [])"

text \<open>\<open>d.get(k, default)\<close> of a dictionary.\<close>

definition get_or :: "json_obj \<Rightarrow> pystr \<Rightarrow> json \<Rightarrow> json" where
  "get_or d k v = (case dict_get d k of None \<Rightarrow> v | Some w \<Rightarrow> w)"

text \<open>\<open>table.get(v, default)\<close> for a JSON value as the key: lists and objects are unhashable.\<close>

fun table_get :: "(pystr, 'a) dict \<Rightarrow> json \<Rightarrow> 'a \<Rightarrow> exn + 'a" where
  "table_get t (JStr s) d = Inr (case dict_get t s of None \<Rightarrow> d | Some a \<Rightarrow> a)"
| "table_get t (JList xs) d = Inl TypeError"
| "table_get t (JObj kvs) d = Inl TypeError"
| "table_get t v d = Inr d"

text \<open>An object whose attribute \<open>get\<close> is called.\<close>

fun as_dict :: "json \<Rightarrow> exn + json_obj" where
  "as_dict (JObj d) = Inr d"
| "as_dict v = Inl AttributeError"

text \<open>\<open>v[k]\<close> with a string key.\<close>

fun subscript :: "json \<Rightarrow> pystr \<Rightarrow> exn + json" where
  "subscript (JObj d) k = (case dict_get d k of None \<Rightarrow> Inl KeyError | Some v \<Rightarrow> Inr v)"
| "subscript v k = Inl TypeError"

section \<open>Printing floats\<close>

text \<open>
  \<open>repr\<close> of a float: the shortest decimal that rounds back to the value, the closest one
  of that length, in fixed notation when the decimal point lies in \<open>-3 .. 16\<close>. Seventeen
  significant digits always suffice for binary64, and 400 shifts always reach one.
\<close>

fun dec_shift :: "nat \<Rightarrow> rat \<Rightarrow> int" where
  "dec_shift 0 x = 0"
| "dec_shift (Suc fuel) x = (if 1 \<le> x then 0 else 1 + dec_shift fuel (10 * x))"

definition dec_point :: "rat \<Rightarrow> int" where
  "dec_point x =
     (if 1 \<le> x then int (length (dec_digits \<lfloor>x\<rfloor>)) else 1 - dec_shift 400 x)"

definition ten_pow :: "int \<Rightarrow> rat" where
  "ten_pow k = (if 0 \<le> k then 10 ^ nat k else 1 / 10 ^ nat (- k))"

text \<open>The digits as an integer, and their number.\<close>

fun shortest_digits :: "nat \<Rightarrow> nat \<Rightarrow> rat \<Rightarrow> int \<times> nat" where
  "shortest_digits 0 n x = (round_half_even (x * ten_pow (17 - dec_point x)), 17)"
| "shortest_digits (Suc fuel) n x =
     (let s = ten_pow (int n - dec_point x); c = round_half_even (x * s); f = \<lfloor>x * s\<rfloor>;
          d = (if c = f then f + 1 else f) in
      if fl (of_int c / s) = x then (c, n)
      else if fl (of_int d / s) = x then (d, n)
      else shortest_digits fuel (Suc n) x)"

definition exp_repr :: "int \<Rightarrow> pystr" where
  "exp_repr e = lit ''e'' @ (if e < 0 then lit ''-'' else lit ''+'')
     @ (if \<bar>e\<bar> < 10 then lit ''0'' else []) @ dec_digits \<bar>e\<bar>"

text \<open>The digits with the decimal point after the first \<open>k\<close> of them, or in exponent notation.\<close>

definition place_point :: "pystr \<Rightarrow> int \<Rightarrow> pystr" where
  "place_point ds k =
     (let n = int (length ds) in
      if - 4 < k \<and> k \<le> 16 then
        (if k \<le> 0 then lit ''0.'' @ replicate (nat (- k)) (Lat (CHR ''0'')) @ ds
         else if n \<le> k then ds @ replicate (nat (k - n)) (Lat (CHR ''0'')) @ lit ''.0''
         else take (nat k) ds @ lit ''.'' @ drop (nat k) ds)
      else take 1 ds @ (if 1 < n then lit ''.'' @ drop 1 ds else []) @ exp_repr (k - 1))"

definition pos_repr :: "rat \<Rightarrow> pystr" where
  "pos_repr x =
     (let (c, m) = shortest_digits 17 1 x in
      if c = 10 ^ m then place_point (lit ''1'') (dec_point x + 1)
      else place_point (dec_digits c) (dec_point x))"

definition float_repr :: "float64 \<Rightarrow> pystr" where
  "float_repr x =
     (if x = 0 then lit ''0.0'' else if x < 0 then lit ''-'' @ pos_repr (- x) else pos_repr x)"

section \<open>json.dumps\<close>

definition hex_digit :: "int \<Rightarrow> uchar" where
  "hex_digit n = Lat (char_of (if n < 10 then 48 + n else 87 + n))"

definition hex4 :: "int \<Rightarrow> pystr" where
  "hex4 n = map hex_digit [n div 4096 mod 16, n div 256 mod 16, n div 16 mod 16, n mod 16]"

text \<open>The \<open>ensure_ascii\<close> escapes: everything outside the printable ASCII range is escaped.\<close>

definition esc_char :: "uchar \<Rightarrow> pystr" where
  "esc_char c =
     (let n = cp c in
      if n = 34 then [Lat (CHR 0x5C), Lat (CHR 0x22)]
      else if n = 92 then [Lat (CHR 0x5C), Lat (CHR 0x5C)]
      else if n = 10 then Lat (CHR 0x5C) # lit ''n''
      else if n = 13 then Lat (CHR 0x5C) # lit ''r''
      else if n = 9 then Lat (CHR 0x5C) # lit ''t''
      else if n = 8 then Lat (CHR 0x5C) # lit ''b''
      else if n = 12 then Lat (CHR 0x5C) # lit ''f''
      else if 32 \<le> n \<and> n \<le> 126 then [c]
      else Lat (CHR 0x5C) # lit ''u'' @ hex4 n)"

definition dump_str :: "pystr \<Rightarrow> pystr" where
  "dump_str s = Lat (CHR 0x22) # concat (map esc_char s) @ [Lat (CHR 0x22)]"

text \<open>
  The recursive printer: \<open>isep\<close> separates items, \<open>ksep\<close> a key from its value, and with
  \<open>sk\<close> the items of an object are sorted by key.
\<close>

fun dumps_with :: "pystr \<Rightarrow> pystr \<Rightarrow> bool \<Rightarrow> json \<Rightarrow> pystr" where
  "dumps_with isep ksep sk JNull = lit ''null''"
| "dumps_with isep ksep sk (JBool b) = (if b then lit ''true'' else lit ''false'')"
| "dumps_with isep ksep sk (JInt i) = str_of_int i"
| "dumps_with isep ksep sk (JFloat x) = float_repr x"
| "dumps_with isep ksep sk (JStr s) = dump_str s"
| "dumps_with isep ksep sk (JList xs) =
     lit ''['' @ join isep (map (dumps_with isep ksep sk) xs) @ lit '']''"
| "dumps_with isep ksep sk (JObj kvs) =
     (let items = map (\<lambda>(k, v). (k, dumps_with isep ksep sk v)) kvs;
          ordered = (if sk then sort_key fst items else items) in
      lit ''{'' @ join isep (map (\<lambda>(k, t). dump_str k @ ksep @ t) ordered) @ lit ''}'')"

text \<open>\<open>json.dumps(v)\<close> with its default separators.\<close>

definition dumps :: "json \<Rightarrow> pystr" where
  "dumps v = dumps_with (lit '', '') (lit '': '') False v"

section \<open>str() and == of JSON values\<close>

definition printable_c :: "uchar \<Rightarrow> bool" where
  "printable_c c = (let n = cp c in 32 \<le> n \<and> n \<le> 126 \<or> 161 \<le> n \<and> n \<noteq> 173)"

definition repr_char :: "uchar \<Rightarrow> uchar \<Rightarrow> pystr" where
  "repr_char quote c =
     (let n = cp c in
      if c = quote \<or> n = 92 then [Lat (CHR 0x5C), c]
      else if n = 9 then Lat (CHR 0x5C) # lit ''t''
      else if n = 10 then Lat (CHR 0x5C) # lit ''n''
      else if n = 13 then Lat (CHR 0x5C) # lit ''r''
      else if printable_c c then [c]
      else Lat (CHR 0x5C) # lit ''x'' @ drop 2 (hex4 n))"

definition repr_str :: "pystr \<Rightarrow> pystr" where
  "repr_str s =
     (let apos = Lat (CHR 0x27); dq = Lat (CHR 0x22);
          quote = (if apos \<in> set s \<and> dq \<notin> set s then dq else apos) in
      quote # concat (map (repr_char quote) s) @ [quote])"

fun py_repr :: "json \<Rightarrow> pystr" where
  "py_repr JNull = lit ''None''"
| "py_repr (JBool b) = (if b then lit ''True'' else lit ''False'')"
| "py_repr (JInt i) = str_of_int i"
| "py_repr (JFloat x) = float_repr x"
| "py_repr (JStr s) = repr_str s"
| "py_repr (JList xs) = lit ''['' @ join (lit '', '') (map py_repr xs) @ lit '']''"
| "py_repr (JObj kvs) =
     lit ''{'' @ join (lit '', '') (map (\<lambda>(k, v). repr_str k @ lit '': '' @ py_repr v) kvs) @ lit ''}''"

fun py_str :: "json \<Rightarrow> pystr" where
  "py_str (JStr s) = s"
| "py_str v = py_repr v"

text \<open>Booleans, integers and floats compare by value.\<close>

fun as_number :: "json \<Rightarrow> rat option" where
  "as_number (JBool b) = Some (if b then 1 else 0)"
| "as_number (JInt i) = Some (of_int i)"
| "as_number (JFloat r) = Some r"
| "as_number v = None"

function (sequential) py_eq :: "json \<Rightarrow> json \<Rightarrow> bool" where
  "py_eq (JStr s) (JStr t) = (s = t)"
| "py_eq JNull JNull = True"
| "py_eq (JList xs) (JList ys) =
     (length xs = length ys \<and> list_all (\<lambda>(x, y). py_eq x y) (zip xs ys))"
| "py_eq (JObj d) (JObj e) =
     (length d = length e \<and>
      list_all (\<lambda>(k, v). case dict_get e k of None \<Rightarrow> False | Some w \<Rightarrow> py_eq v w) d)"
| "py_eq v w = (as_number v \<noteq> None \<and> as_number v = as_number w)"
  by pat_completeness auto

termination
proof (relation "measure (\<lambda>(v, w). size v)", goal_cases)
  case (2 xs ys z x y)
  then have "x \<in> set xs" by (auto dest: set_zip_leftD)
  then have "size x < Suc (size_list size xs)" by (induction xs) auto
  then show ?case by simp
next
  case (3 d e z k v w)
  then have "size v < Suc (size_list (size_prod (\<lambda>_. 0) size) d)" by (induction d) auto
  then show ?case by simp
qed simp

section \<open>Equality of JSON values as Python dictionaries\<close>

text \<open>
  Two values are the same content when they differ only in the order of object keys, at any
  depth: this is \<open>==\<close> of Python dictionaries.
\<close>

inductive same_content :: "json \<Rightarrow> json \<Rightarrow> bool" where
  same_refl: "same_content v v"
| same_list: "list_all2 same_content xs ys \<Longrightarrow> same_content (JList xs) (JList ys)"
| same_obj: "distinct (map fst kvs) \<Longrightarrow>
     list_all2 (\<lambda>p q. fst p = fst q \<and> same_content (snd p) (snd q)) kvs mid \<Longrightarrow>
     mset mid = mset kvs' \<Longrightarrow> same_content (JObj kvs) (JObj kvs')"

inductive_cases same_listE: "same_content (JList xs) v"
inductive_cases same_objE: "same_content (JObj kvs) v"

lemma sort_key_mset_distinct:
  assumes "mset xs = mset ys" and "distinct (map f xs)"
  shows "sort_key f xs = sort_key f ys"
proof (rule properties_for_sort_key)
  show "mset (sort_key f ys) = mset xs" using assms by simp
  show "sorted (map f (sort_key f ys))" by simp
  fix k
  assume "k \<in> set (sort_key f ys)"
  have d: "distinct (map f zs) \<Longrightarrow> length (filter (\<lambda>x. f k = f x) zs) \<le> 1" for zs
  proof (induction zs)
    case (Cons z zs)
    then show ?case by (cases "f k = f z") (auto simp: filter_empty_conv image_iff)
  qed simp
  have dy: "distinct (map f (sort_key f ys))"
    using assms by (metis distinct_map mset_eq_imp_distinct_iff mset_eq_setD mset_sort)
  have "mset (filter (\<lambda>x. f k = f x) (sort_key f ys)) = mset (filter (\<lambda>x. f k = f x) xs)"
    using assms by (metis mset_filter mset_sort)
  then show "filter (\<lambda>x. f k = f x) (sort_key f ys) = filter (\<lambda>x. f k = f x) xs"
    using d [OF dy] d [OF assms(2)]
    by (cases "filter (\<lambda>x. f k = f x) xs"; cases "filter (\<lambda>x. f k = f x) (sort_key f ys)") auto
qed

text \<open>With sorted keys the printed text does not depend on the order of keys.\<close>

lemma dumps_sorted_same_content:
  "same_content v w \<Longrightarrow> dumps_with isep ksep True v = dumps_with isep ksep True w"
proof (induction rule: same_content.induct)
  case (same_refl v)
  show ?case by simp
next
  case (same_list xs ys)
  then have "map (dumps_with isep ksep True) xs = map (dumps_with isep ksep True) ys"
    by (induction rule: list_all2_induct) auto
  then show ?case by simp
next
  case (same_obj kvs mid kvs')
  let ?f = "\<lambda>(k, v). (k, dumps_with isep ksep True v)"
  have "map ?f kvs = map ?f mid" using same_obj.IH
    by (induction rule: list_all2_induct) auto
  moreover have "mset (map ?f mid) = mset (map ?f kvs')" using same_obj.hyps(2) by simp
  ultimately have "mset (map ?f kvs) = mset (map ?f kvs')" by simp
  moreover have "distinct (map fst (map ?f kvs))" using same_obj.hyps(1)
    by (simp add: comp_def case_prod_beta)
  ultimately have "sort_key fst (map ?f kvs) = sort_key fst (map ?f kvs')"
    by (rule sort_key_mset_distinct)
  then show ?case by simp
qed

end
