(* ===== verification/Models.thy ===== *)
theory Models
  imports Json
begin

text \<open>
  The data model of \<open>gateway/models.py\<close>: the enumerations, the manifest of a feature, a
  feature as the catalog surfaces it, and the request and response bodies of an invocation.
\<close>

section \<open>Enumerations\<close>

datatype trust_tier = OFFICIAL | VERIFIED | COMMUNITY

datatype visibility = PUBLIC | INTERNAL | PRIVATE

datatype protocol = GRPC | HTTP

datatype phase = PENDING | PROVISIONING | READY | FAILED

fun trust_value :: "trust_tier \<Rightarrow> pystr" where
  "trust_value OFFICIAL = lit ''official''"
| "trust_value VERIFIED = lit ''verified''"
| "trust_value COMMUNITY = lit ''community''"

fun visibility_value :: "visibility \<Rightarrow> pystr" where
  "visibility_value PUBLIC = lit ''public''"
| "visibility_value INTERNAL = lit ''internal''"
| "visibility_value PRIVATE = lit ''private''"

fun protocol_value :: "protocol \<Rightarrow> pystr" where
  "protocol_value GRPC = lit ''grpc''"
| "protocol_value HTTP = lit ''http''"

text \<open>Calling the enumeration: \<open>FeatureProtocol(s)\<close>.\<close>

definition protocol_of :: "pystr \<Rightarrow> exn + protocol" where
  "protocol_of s =
     (if s = protocol_value GRPC then Inr GRPC
      else if s = protocol_value HTTP then Inr HTTP else Inl ValueError)"

section \<open>Manifests and features\<close>

record manifest =
  m_name :: pystr
  m_version :: pystr
  m_description :: pystr
  m_tags :: "pystr list"
  m_input_schema :: json_obj
  m_output_schema :: json_obj
  m_visibility :: visibility
  m_protocol :: protocol
  m_vendor :: pystr
  m_capability :: pystr
  m_trust :: trust_tier

text \<open>The field defaults of a manifest with the given name.\<close>

definition manifest_defaults :: "pystr \<Rightarrow> manifest" where
  "manifest_defaults n =
     \<lparr>m_name = n, m_version = lit ''1.0.0'', m_description = [], m_tags = [], m_input_schema = [],
      m_output_schema = [], m_visibility = PUBLIC, m_protocol = GRPC, m_vendor = lit ''community'',
      m_capability = [], m_trust = COMMUNITY\<rparr>"

text \<open>The model validator that runs after construction.\<close>

definition default_capability :: "manifest \<Rightarrow> manifest" where
  "default_capability m = (if m_capability m = [] then m\<lparr>m_capability := m_name m\<rparr> else m)"

record feature =
  f_manifest :: manifest
  f_phase :: phase
  f_endpoint :: "pystr option"

abbreviation f_name :: "feature \<Rightarrow> pystr" where "f_name f \<equiv> m_name (f_manifest f)"
abbreviation f_version :: "feature \<Rightarrow> pystr" where "f_version f \<equiv> m_version (f_manifest f)"
abbreviation f_vendor :: "feature \<Rightarrow> pystr" where "f_vendor f \<equiv> m_vendor (f_manifest f)"
abbreviation f_capability :: "feature \<Rightarrow> pystr" where "f_capability f \<equiv> m_capability (f_manifest f)"
abbreviation f_trust :: "feature \<Rightarrow> trust_tier" where "f_trust f \<equiv> m_trust (f_manifest f)"

section \<open>Requests and responses\<close>

record request_context =
  c_trace_id :: "pystr option"
  c_tenant :: "pystr option"
  c_timeout_ms :: int
  c_metadata :: "(pystr, pystr) dict"

definition default_context :: request_context where
  "default_context = \<lparr>c_trace_id = None, c_tenant = None, c_timeout_ms = 30000, c_metadata = []\<rparr>"

record invoke_request =
  r_input :: json_obj
  r_context :: request_context

record invoke_response =
  ir_feature :: pystr
  ir_version :: pystr
  ir_output :: json_obj
  ir_latency_ms :: float64
  ir_vendor :: pystr

record capability_summary =
  cs_capability :: pystr
  cs_description :: pystr
  cs_provider_count :: nat
  cs_vendors :: "pystr list"
  cs_preferred :: "pystr option"

record provider_score =
  ps_feature_id :: pystr
  ps_vendor :: pystr
  ps_version :: pystr
  ps_score :: float64
  ps_invocations :: nat
  ps_success_rate :: "float64 option"
  ps_avg_latency_ms :: "float64 option"

section \<open>Lemmas\<close>

lemma default_capability_fields [simp]:
  "m_name (default_capability m) = m_name m"
  "m_version (default_capability m) = m_version m"
  "m_description (default_capability m) = m_description m"
  "m_tags (default_capability m) = m_tags m"
  "m_input_schema (default_capability m) = m_input_schema m"
  "m_output_schema (default_capability m) = m_output_schema m"
  "m_visibility (default_capability m) = m_visibility m"
  "m_protocol (default_capability m) = m_protocol m"
  "m_vendor (default_capability m) = m_vendor m"
  "m_trust (default_capability m) = m_trust m"
  by (auto simp: default_capability_def)

lemma default_capability_capability:
  "m_capability (default_capability m) = (if m_capability m = [] then m_name m else m_capability m)"
  by (simp add: default_capability_def)

lemma default_capability_idem [simp]: "default_capability (default_capability m) = default_capability m"
  by (auto simp: default_capability_def)

lemma protocol_of_value [simp]: "protocol_of (protocol_value p) = Inr p"
  by (cases p) (auto simp: protocol_of_def)

lemma protocol_of_Inr: "protocol_of s = Inr p \<Longrightarrow> s = protocol_value p"
  by (auto simp: protocol_of_def split: if_splits)

end
