(* ===== verification/Versions.thy ===== *)
theory Versions
  imports Models
begin

text \<open>
  Version parsing and range matching of \<open>gateway/catalog.py\<close>: \<open>_semver_key\<close>,
  \<open>_triple\<close> and \<open>match_version\<close>, with the exception \<open>int\<close> may raise, and the
  meaning of every kind of range as an order condition on (major, minor, patch).
\<close>

section \<open>Definitions\<close>

definition dot :: uchar where "dot = Lat (CHR ''.'')"

definition semver_part :: "pystr \<Rightarrow> exn + int" where
  "semver_part p = (if isdigit p then py_int p else Inr 0)"

definition semver_key :: "pystr \<Rightarrow> exn + int list" where
  "semver_key version = mapE semver_part (split_on dot (hd (split_on (Lat (CHR ''-'')) version)))"

type_synonym triple = "int \<times> int \<times> int"

fun pad_triple :: "int list \<Rightarrow> triple" where
  "pad_triple key = (let k = key @ [0, 0, 0] in (k ! 0, k ! 1, k ! 2))"

definition triple_of :: "pystr \<Rightarrow> exn + triple" where
  "triple_of version = bindE (semver_key version) (\<lambda>k. Inr (pad_triple k))"

definition any_specs :: "pystr list" where
  "any_specs = [[], lit ''*'', lit ''latest'', lit ''x'', lit ''X'']"

definition caret_upper :: "triple \<Rightarrow> triple" where
  "caret_upper base =
     (case base of (a, b, c) \<Rightarrow>
        if 0 < a then (a + 1, 0, 0) else if 0 < b then (0, b + 1, 0) else (0, 0, c + 1))"

definition tilde_upper :: "nat \<Rightarrow> triple \<Rightarrow> triple" where
  "tilde_upper comps base =
     (case base of (a, b, c) \<Rightarrow> if 2 \<le> comps then (a, b + 1, 0) else (a + 1, 0, 0))"

text \<open>The comparators in the order the loop tries them, with the comparison each performs.\<close>

datatype cmp_op = OpGe | OpLe | OpGt | OpLt | OpEq

fun op_text :: "cmp_op \<Rightarrow> pystr" where
  "op_text OpGe = lit ''>=''"
| "op_text OpLe = lit ''<=''"
| "op_text OpGt = lit ''>''"
| "op_text OpLt = lit ''<''"
| "op_text OpEq = lit ''==''"

fun op_holds :: "cmp_op \<Rightarrow> triple \<Rightarrow> triple \<Rightarrow> bool" where
  "op_holds OpGe v base \<longleftrightarrow> v \<ge> base"
| "op_holds OpLe v base \<longleftrightarrow> v \<le> base"
| "op_holds OpGt v base \<longleftrightarrow> v > base"
| "op_holds OpLt v base \<longleftrightarrow> v < base"
| "op_holds OpEq v base \<longleftrightarrow> v = base"

fun match_ops :: "cmp_op list \<Rightarrow> triple \<Rightarrow> pystr \<Rightarrow> exn + bool" where
  "match_ops [] v spec = bindE (triple_of spec) (\<lambda>base. Inr (v = base))"
| "match_ops (oper # ops) v spec =
     (if startswith spec (op_text oper)
      then bindE (triple_of (drop (length (op_text oper)) spec)) (\<lambda>base. Inr (op_holds oper v base))
      else match_ops ops v spec)"

definition match_version :: "pystr \<Rightarrow> pystr \<Rightarrow> exn + bool" where
  "match_version version spec0 =
     (let spec = strip spec0 in
      if spec \<in> set any_specs then Inr True
      else bindE (triple_of version) (\<lambda>v.
        if hd spec = Lat (CHR ''^'') then
          bindE (triple_of (tl spec)) (\<lambda>base. Inr (base \<le> v \<and> v < caret_upper base))
        else if hd spec = Lat (CHR ''~'') then
          bindE (triple_of (tl spec)) (\<lambda>base.
            Inr (base \<le> v \<and> v < tilde_upper (length (split_on dot (tl spec))) base))
        else match_ops [OpGe, OpLe, OpGt, OpLt, OpEq] v spec))"

text \<open>The printed form of a version with three numeric components.\<close>

definition show_triple :: "nat \<times> nat \<times> nat \<Rightarrow> pystr" where
  "show_triple t = (case t of (a, b, c) \<Rightarrow>
     join [dot] [str_of_nat a, str_of_nat b, str_of_nat c])"

section \<open>Parsing\<close>

lemma semver_key_raises_iff:
  "(\<exists>e. semver_key v = Inl e) \<longleftrightarrow>
   (\<exists>p \<in> set (split_on dot (hd (split_on (Lat (CHR ''-'')) v))).
      isdigit p \<and> ((\<exists>c \<in> set p. \<not> isdecimal_c c) \<or> 4300 < length p))"
proof -
  have part: "(\<exists>e. semver_part p = Inl e) \<longleftrightarrow>
      isdigit p \<and> ((\<exists>c \<in> set p. \<not> isdecimal_c c) \<or> 4300 < length p)" for p
    by (auto simp: semver_part_def py_int_def isdigit_def list_all_iff)
  show ?thesis
    unfolding semver_key_def part [symmetric]
    by (metis mapE_Inl_source mapE_ex_Inl)
qed

lemma semver_key_error: "semver_key v = Inl e \<Longrightarrow> e = ValueError"
  by (auto simp: semver_key_def semver_part_def py_int_def dest!: mapE_Inl_source split: if_splits)

lemma semver_part_nonneg: "semver_part p = Inr n \<Longrightarrow> 0 \<le> n"
  by (auto simp: semver_part_def py_int_nonneg split: if_splits)

lemma semver_key_nonneg: "semver_key v = Inr k \<Longrightarrow> n \<in> set k \<Longrightarrow> 0 \<le> n"
proof -
  assume "semver_key v = Inr k" and n: "n \<in> set k"
  then have "map semver_part (split_on dot (hd (split_on (Lat (CHR ''-'')) v))) = map Inr k"
    by (simp add: semver_key_def mapE_eq_Inr)
  with n obtain p where "semver_part p = Inr n"
    by (metis (no_types, lifting) imageE image_eqI list.set_map)
  then show ?thesis by (rule semver_part_nonneg)
qed

lemma triple_of_nonneg:
  assumes "triple_of v = Inr (a, b, c)"
  shows "0 \<le> a" and "0 \<le> b" and "0 \<le> c"
proof -
  obtain k where k: "semver_key v = Inr k" and p: "pad_triple k = (a, b, c)"
    using assms by (auto simp: triple_of_def exn_simps)
  have "0 \<le> n" if "n \<in> set (k @ [0, 0, 0])" for n
    using that semver_key_nonneg [OF k] by auto
  then have "0 \<le> (k @ [0, 0, 0]) ! i" if "i < 3" for i
    using that by (metis nth_mem length_append length_Cons list.size(3) numeral_3_eq_3 trans_less_add2)
  from this [of 0] this [of 1] this [of 2] p show "0 \<le> a" and "0 \<le> b" and "0 \<le> c"
    by (auto simp: Let_def)
qed

text \<open>A pre-release or build suffix after the first hyphen is ignored.\<close>

lemma triple_of_prerelease:
  "Lat (CHR ''-'') \<notin> set v \<Longrightarrow> triple_of (v @ Lat (CHR ''-'') # suffix) = triple_of v"
  by (simp add: triple_of_def semver_key_def split_on_append_sep split_on_free)

lemma isdecimal_not_sep:
  "isdecimal_c c \<Longrightarrow> c \<noteq> dot" "isdecimal_c c \<Longrightarrow> c \<noteq> Lat (CHR ''-'')"
  by (auto simp: isdecimal_c_def dot_def)

lemma str_of_nat_all_decimal: "list_all isdecimal_c (str_of_nat n)"
  by (simp add: str_of_nat_def str_of_int_def dec_digits_decimal)

lemma str_of_nat_no_sep: "dot \<notin> set (str_of_nat n)" "Lat (CHR ''-'') \<notin> set (str_of_nat n)"
  using str_of_nat_all_decimal [of n] isdecimal_not_sep by (auto simp: list_all_iff)

lemma semver_part_str_of_nat:
  assumes "length (str_of_nat n) \<le> 4300"
  shows "semver_part (str_of_nat n) = Inr (int n)"
proof -
  have "isdigit (str_of_nat n)"
    using str_of_nat_all_decimal [of n]
    by (auto simp: isdigit_def list_all_iff isdigit_c_def str_of_nat_def str_of_int_def)
  with assms show ?thesis by (simp add: semver_part_def py_int_str_of_nat)
qed

lemma semver_key_show_triple:
  assumes "length (str_of_nat a) \<le> 4300" "length (str_of_nat b) \<le> 4300" "length (str_of_nat c) \<le> 4300"
  shows "semver_key (show_triple (a, b, c)) = Inr [int a, int b, int c]"
proof -
  let ?ps = "[str_of_nat a, str_of_nat b, str_of_nat c]"
  have "split_on dot (join [dot] ?ps) = ?ps"
    by (rule split_on_join) (auto simp: str_of_nat_no_sep)
  moreover have "Lat (CHR ''-'') \<notin> set (join [dot] ?ps)"
    by (auto simp: str_of_nat_no_sep dot_def)
  ultimately show ?thesis
    using assms by (simp add: semver_key_def show_triple_def split_on_free semver_part_str_of_nat)
qed

section \<open>Matching\<close>

lemma match_version_split:
  assumes "triple_of version = Inr v" and "strip spec \<notin> set any_specs"
  shows "match_version version spec =
    (if hd (strip spec) = Lat (CHR ''^'') then
       bindE (triple_of (tl (strip spec))) (\<lambda>base. Inr (base \<le> v \<and> v < caret_upper base))
     else if hd (strip spec) = Lat (CHR ''~'') then
       bindE (triple_of (tl (strip spec))) (\<lambda>base.
         Inr (base \<le> v \<and> v < tilde_upper (length (split_on dot (tl (strip spec)))) base))
     else match_ops [OpGe, OpLe, OpGt, OpLt, OpEq] v (strip spec))"
  using assms by (simp add: match_version_def Let_def)

lemma match_ops_select:
  assumes "strip spec = op_text oper @ b" and "\<not> startswith b (lit ''='')"
  shows "match_ops [OpGe, OpLe, OpGt, OpLt, OpEq] v (op_text oper @ b)
    = bindE (triple_of b) (\<lambda>base. Inr (op_holds oper v base))"
  using assms by (cases oper) (auto simp: startswith_Cons lit_Cons)

lemma op_text_not_special:
  "op_text oper @ b \<notin> set any_specs" "hd (op_text oper @ b) \<noteq> Lat (CHR ''^'')"
  "hd (op_text oper @ b) \<noteq> Lat (CHR ''~'')"
  by (cases oper; auto simp: any_specs_def lit_Cons)+

lemma pad_triple_singleton: "pad_triple [n] = (n, 0, 0)"
  by simp

lemma triple_of_one_component:
  "length (split_on dot b) < 2 \<Longrightarrow> triple_of b = Inr (x, y, z) \<Longrightarrow> y = 0 \<and> z = 0"
proof -
  assume one: "length (split_on dot b) < 2" and t: "triple_of b = Inr (x, y, z)"
  obtain p where p: "split_on dot b = [p]"
    using one split_on_not_Nil [of dot b] by (cases "split_on dot b") auto
  have nodot: "dot \<notin> set b"
    using split_on_no_sep [of p dot b] join_split_on [of dot b] p by simp
  have "set (hd (split_on (Lat (CHR ''-'')) b)) \<subseteq> set b"
  proof (cases "Lat (CHR ''-'') \<in> set b")
    case True
    then obtain u w where "b = u @ Lat (CHR ''-'') # w" "Lat (CHR ''-'') \<notin> set u"
      by (metis split_list_first)
    then show ?thesis by (auto simp: split_on_append_sep)
  next
    case False
    then show ?thesis by (simp add: split_on_free)
  qed
  with nodot have "dot \<notin> set (hd (split_on (Lat (CHR ''-'')) b))" by blast
  with t show ?thesis by (auto simp: triple_of_def semver_key_def split_on_free exn_simps)
qed

section \<open>Properties\<close>

text \<open>
  C16. A caret range \<open>^a.b.c\<close> accepts exactly the versions that are at least the base and agree
  with it up to and including its left-most non-zero component (with base \<open>0.0.c\<close>, the base
  alone).
\<close>

theorem match_version_caret:
  assumes "strip spec = Lat (CHR ''^'') # base"
    and "triple_of version = Inr (x, y, z)" and "triple_of base = Inr (a, b, c)"
  shows "match_version version spec = Inr ((a, b, c) \<le> (x, y, z) \<and>
    (if 0 < a then x = a else if 0 < b then x = 0 \<and> y = b else x = 0 \<and> y = 0 \<and> z = c))"
proof -
  note nn = triple_of_nonneg [OF assms(2)] triple_of_nonneg [OF assms(3)]
  have "strip spec \<notin> set any_specs" using assms(1) by (simp add: any_specs_def lit_Cons)
  then have "match_version version spec = Inr ((a, b, c) \<le> (x, y, z) \<and> (x, y, z) < caret_upper (a, b, c))"
    using assms by (simp add: match_version_split)
  also have "((a, b, c) \<le> (x, y, z) \<and> (x, y, z) < caret_upper (a, b, c)) \<longleftrightarrow> ((a, b, c) \<le> (x, y, z) \<and>
    (if 0 < a then x = a else if 0 < b then x = 0 \<and> y = b else x = 0 \<and> y = 0 \<and> z = c))"
    using nn by (auto simp: caret_upper_def)
  finally show ?thesis .
qed

theorem match_version_caret_witness:
  "match_version (lit ''1.5.0'') (lit '' ^1.2.0'') = Inr True"
proof -
  have s: "strip (lit '' ^1.2.0'') = Lat (CHR ''^'') # lit ''1.2.0''" by code_simp
  have v: "triple_of (lit ''1.5.0'') = Inr (1, 5, 0)" by code_simp
  have b: "triple_of (lit ''1.2.0'') = Inr (1, 2, 0)" by code_simp
  show ?thesis using match_version_caret [OF s v b] by simp
qed

text \<open>
  A tilde range accepts exactly the versions of the same major, and, when at least a minor
  is written, of the same minor with a patch that is not smaller.
\<close>

theorem match_version_tilde:
  assumes "strip spec = Lat (CHR ''~'') # base"
    and "triple_of version = Inr (x, y, z)" and "triple_of base = Inr (a, b, c)"
  shows "match_version version spec =
    Inr (x = a \<and> (2 \<le> length (split_on dot base) \<longrightarrow> y = b \<and> c \<le> z))"
proof -
  note nn = triple_of_nonneg [OF assms(2)] triple_of_nonneg [OF assms(3)]
  have "strip spec \<notin> set any_specs" using assms(1) by (simp add: any_specs_def lit_Cons)
  then have "match_version version spec = Inr ((a, b, c) \<le> (x, y, z) \<and>
      (x, y, z) < tilde_upper (length (split_on dot base)) (a, b, c))"
    using assms by (simp add: match_version_split)
  also have "((a, b, c) \<le> (x, y, z) \<and> (x, y, z) < tilde_upper (length (split_on dot base)) (a, b, c))
    \<longleftrightarrow> (x = a \<and> (2 \<le> length (split_on dot base) \<longrightarrow> y = b \<and> c \<le> z))"
    using nn triple_of_one_component [OF _ assms(3)] by (auto simp: tilde_upper_def not_le)
  finally show ?thesis .
qed

theorem match_version_tilde_witness:
  "match_version (lit ''1.9.0'') (lit ''~1'') = Inr True"
proof -
  have s: "strip (lit ''~1'') = Lat (CHR ''~'') # lit ''1''" by code_simp
  have v: "triple_of (lit ''1.9.0'') = Inr (1, 9, 0)" by code_simp
  have b: "triple_of (lit ''1'') = Inr (1, 0, 0)" by code_simp
  show ?thesis using match_version_tilde [OF s v b] by (simp add: dot_def lit_Cons)
qed

text \<open>
  A comparator range decides by the order of the triples, and no comparator is mistaken for
  a shorter one that is its prefix.
\<close>

theorem match_version_comparator:
  assumes "strip spec = op_text oper @ base" and "\<not> startswith base (lit ''='')"
    and "triple_of version = Inr v" and "triple_of base = Inr b"
  shows "match_version version spec = Inr (op_holds oper v b)"
  using assms match_ops_select [OF assms(1,2), of v]
  by (simp add: match_version_split op_text_not_special)

theorem match_version_comparator_witness:
  "match_version (lit ''2.1.0'') (lit ''>2.0.0'') = Inr True"
proof -
  have s: "strip (lit ''>2.0.0'') = op_text OpGt @ lit ''2.0.0''" by code_simp
  have n: "\<not> startswith (lit ''2.0.0'') (lit ''='')" by code_simp
  have v: "triple_of (lit ''2.1.0'') = Inr (2, 1, 0)" by code_simp
  have b: "triple_of (lit ''2.0.0'') = Inr (2, 0, 0)" by code_simp
  show ?thesis using match_version_comparator [OF s n v b] by simp
qed

text \<open>
  Parsing inverts printing: a version written as three decimal numbers is read back as that
  triple, also when a pre-release suffix follows.
\<close>

theorem triple_of_show_triple:
  assumes "length (str_of_nat a) \<le> 4300" "length (str_of_nat b) \<le> 4300" "length (str_of_nat c) \<le> 4300"
  shows "triple_of (show_triple (a, b, c)) = Inr (int a, int b, int c) \<and>
    triple_of (show_triple (a, b, c) @ Lat (CHR ''-'') # suffix) = Inr (int a, int b, int c)"
proof -
  have t: "triple_of (show_triple (a, b, c)) = Inr (int a, int b, int c)"
    using assms by (simp add: triple_of_def semver_key_show_triple)
  have "Lat (CHR ''-'') \<notin> set (show_triple (a, b, c))"
    by (auto simp: show_triple_def str_of_nat_no_sep dot_def)
  then show ?thesis using t by (simp add: triple_of_prerelease)
qed

theorem triple_of_show_triple_witness:
  "triple_of (lit ''1.12.3-rc1'') = Inr (1, 12, 3)"
proof -
  have "show_triple (1, 12, 3) @ Lat (CHR ''-'') # lit ''rc1'' = lit ''1.12.3-rc1''" by code_simp
  moreover have "length (str_of_nat 1) \<le> 4300" "length (str_of_nat 12) \<le> 4300"
    "length (str_of_nat 3) \<le> 4300" by code_simp+
  ultimately show ?thesis using triple_of_show_triple [of 1 12 3 "lit ''rc1''"] by simp
qed

text \<open>
  Version matching raises only \<open>ValueError\<close>, and parsing a version raises exactly when a
  component is a digit string to \<open>isdigit\<close> but not to \<open>int\<close> (a superscript digit, or more
  than 4300 digits); every other component that is not numeric counts as 0.
\<close>

theorem semver_key_total:
  "semver_key v = (if \<exists>p \<in> set (split_on dot (hd (split_on (Lat (CHR ''-'')) v))).
      isdigit p \<and> ((\<exists>c \<in> set p. \<not> isdecimal_c c) \<or> 4300 < length p)
    then Inl ValueError
    else Inr (map (\<lambda>p. if isdigit p then digits_val p else 0)
           (split_on dot (hd (split_on (Lat (CHR ''-'')) v)))))"
proof (cases "\<exists>p \<in> set (split_on dot (hd (split_on (Lat (CHR ''-'')) v))).
      isdigit p \<and> ((\<exists>c \<in> set p. \<not> isdecimal_c c) \<or> 4300 < length p)")
  case True
  then obtain e where "semver_key v = Inl e" using semver_key_raises_iff by blast
  with True semver_key_error show ?thesis by auto
next
  case False
  have "mapE semver_part (split_on dot (hd (split_on (Lat (CHR ''-'')) v)))
    = Inr (map (\<lambda>p. if isdigit p then digits_val p else 0)
           (split_on dot (hd (split_on (Lat (CHR ''-'')) v))))"
  proof (rule mapE_Inr)
    fix p
    assume "p \<in> set (split_on dot (hd (split_on (Lat (CHR ''-'')) v)))"
    with False have "isdigit p \<longrightarrow> (\<forall>c \<in> set p. isdecimal_c c) \<and> length p \<le> 4300" by (auto simp: not_less)
    then show "semver_part p = Inr (if isdigit p then digits_val p else 0)"
      by (auto simp: semver_part_def py_int_def isdigit_def list_all_iff)
  qed
  with False show ?thesis by (simp add: semver_key_def)
qed

text \<open>
  The single \<open>=\<close> that the documentation lists as a comparator is not one: the component
  after it is read as 0, so such a range never accepts a version whose major is not 0.
\<close>

theorem match_version_single_eq:
  assumes "strip spec = Lat (CHR ''='') # base" and "\<not> startswith base (lit ''='')"
    and "triple_of version = Inr (x, y, z)" and "0 < x"
  shows "match_version version spec \<noteq> Inr True"
proof
  assume m: "match_version version spec = Inr True"
  have sp: "strip spec \<notin> set any_specs" using assms(1) by (simp add: any_specs_def lit_Cons)
  have "match_version version spec =
      bindE (triple_of (Lat (CHR ''='') # base)) (\<lambda>b. Inr ((x, y, z) = b))"
    using assms by (simp add: match_version_split [OF assms(3) sp] startswith_Cons lit_Cons)
  with m have t: "triple_of (Lat (CHR ''='') # base) = Inr (x, y, z)" by (auto simp: exn_simps)
  have first: "\<exists>q qs. split_on c (e # u) = (e # q) # qs" if "e \<noteq> c" for c e u
    using that split_on_not_Nil [of c u] by (cases "split_on c u") auto
  obtain q qs where q: "split_on (Lat (CHR ''-'')) (Lat (CHR ''='') # base) = (Lat (CHR ''='') # q) # qs"
    using first [of "Lat (CHR ''='')" "Lat (CHR ''-'')" base] by auto
  obtain r rs where r: "split_on dot (Lat (CHR ''='') # q) = (Lat (CHR ''='') # r) # rs"
    using first [of "Lat (CHR ''='')" dot q] by (auto simp: dot_def)
  have "\<not> isdigit (Lat (CHR ''='') # r)" by (simp add: isdigit_def isdigit_c_def isdecimal_c_def)
  then have "semver_part (Lat (CHR ''='') # r) = Inr 0" by (simp add: semver_part_def)
  with t q r have "x = 0" by (auto simp: triple_of_def semver_key_def exn_simps Let_def)
  with assms(4) show False by simp
qed

theorem match_version_single_eq_witness:
  "match_version (lit ''1.2.3'') (lit ''=1.2.3'') \<noteq> Inr True"
proof (rule match_version_single_eq)
  show "strip (lit ''=1.2.3'') = Lat (CHR ''='') # lit ''1.2.3''" by code_simp
  show "\<not> startswith (lit ''1.2.3'') (lit ''='')" by code_simp
  show "triple_of (lit ''1.2.3'') = Inr (1, 2, 3)" by code_simp
  show "(0::int) < 1" by simp
qed

end
