(* ===== verification/Catalog.thy ===== *)
theory Catalog
  imports Versions
begin

text \<open>
  The catalog of \<open>gateway/catalog.py\<close>: ranking, resolution and grouping of features, the
  mapping of \<open>Feature\<close> custom resources, and the two catalogs (in memory, Kubernetes). The
  interface the gateway depends on is the locale \<open>catalog_list\<close> (the laws of listing) and
  its extension \<open>catalog\<close> (lookup by name); both catalogs are interpretations.
\<close>

section \<open>Ranking, resolution and grouping\<close>

definition feature_id :: "feature \<Rightarrow> pystr" where
  "feature_id f = f_vendor f @ lit ''/'' @ f_name f @ lit ''@'' @ f_version f"

fun trust_rank :: "trust_tier \<Rightarrow> int" where
  "trust_rank OFFICIAL = 0"
| "trust_rank VERIFIED = 1"
| "trust_rank COMMUNITY = 2"

type_synonym rank_key = "int \<times> int list \<times> pystr"

definition rank_key :: "feature \<Rightarrow> exn + rank_key" where
  "rank_key f = bindE (semver_key (f_version f))
     (\<lambda>k. Inr (trust_rank (f_trust f), map uminus k, f_vendor f))"

definition rank_features :: "feature list \<Rightarrow> exn + feature list" where
  "rank_features fs = sortedE rank_key fs"

text \<open>An optional pin counts only when it is a non-empty string.\<close>

definition given :: "pystr option \<Rightarrow> bool" where
  "given p \<longleftrightarrow> (case p of None \<Rightarrow> False | Some s \<Rightarrow> s \<noteq> [])"

definition pin_vendor :: "pystr option \<Rightarrow> feature list \<Rightarrow> feature list" where
  "pin_vendor vendor fs = (if given vendor then filter (\<lambda>f. f_vendor f = the vendor) fs else fs)"

definition pin_version :: "pystr option \<Rightarrow> feature list \<Rightarrow> exn + feature list" where
  "pin_version version fs =
     (if given version then filterE (\<lambda>f. match_version (f_version f) (the version)) fs else Inr fs)"

definition resolve_feature ::
  "feature list \<Rightarrow> pystr \<Rightarrow> pystr option \<Rightarrow> pystr option \<Rightarrow> exn + feature option" where
  "resolve_feature fs capability version vendor =
     (let candidates = pin_vendor vendor (filter (\<lambda>f. f_capability f = capability) fs) in
      bindE (pin_version version candidates) (\<lambda>cs.
      bindE (rank_features cs) (\<lambda>ranked.
      Inr (case ranked of [] \<Rightarrow> None | f # _ \<Rightarrow> Some f))))"

text \<open>\<open>by_cap.setdefault(capability, []).append(f)\<close>.\<close>

definition group_add :: "feature \<Rightarrow> (pystr, feature list) dict \<Rightarrow> (pystr, feature list) dict" where
  "group_add f d =
     dict_set (f_capability f)
       ((case dict_get d (f_capability f) of None \<Rightarrow> [] | Some fs \<Rightarrow> fs) @ [f]) d"

definition by_cap :: "feature list \<Rightarrow> (pystr, feature list) dict" where
  "by_cap fs = fold group_add fs []"

definition summary_of :: "pystr \<times> feature list \<Rightarrow> exn + capability_summary" where
  "summary_of item = (case item of (capability, grp) \<Rightarrow>
     bindE (rank_features grp) (\<lambda>ranked.
     Inr \<lparr>cs_capability = capability,
          cs_description = m_description (f_manifest (hd ranked)),
          cs_provider_count = length ranked,
          cs_vendors = map f_vendor ranked,
          cs_preferred = Some (feature_id (hd ranked))\<rparr>))"

definition summarize_capabilities :: "feature list \<Rightarrow> exn + capability_summary list" where
  "summarize_capabilities fs = mapE summary_of (sort_key fst (by_cap fs))"

section \<open>Custom resources\<close>

definition visibility_table :: "(pystr, visibility) dict" where
  "visibility_table = [(lit ''Public'', PUBLIC), (lit ''Internal'', INTERNAL), (lit ''Private'', PRIVATE)]"

definition phase_table :: "(pystr, phase) dict" where
  "phase_table = [(lit ''Pending'', PENDING), (lit ''Provisioning'', PROVISIONING),
     (lit ''Ready'', READY), (lit ''Failed'', FAILED)]"

definition trust_table :: "(pystr, trust_tier) dict" where
  "trust_table = [(lit ''Official'', OFFICIAL), (lit ''Verified'', VERIFIED), (lit ''Community'', COMMUNITY)]"

text \<open>Field types as the models check them; a mismatch is a pydantic error, a \<open>ValueError\<close>.\<close>

fun str_field :: "json \<Rightarrow> exn + pystr" where
  "str_field (JStr s) = Inr s"
| "str_field v = Inl ValueError"

fun opt_str_field :: "json \<Rightarrow> exn + pystr option" where
  "opt_str_field JNull = Inr None"
| "opt_str_field (JStr s) = Inr (Some s)"
| "opt_str_field v = Inl ValueError"

fun str_list_field :: "json \<Rightarrow> exn + pystr list" where
  "str_list_field (JList xs) = mapE str_field xs"
| "str_list_field v = Inl ValueError"

fun dict_field :: "json \<Rightarrow> exn + json_obj" where
  "dict_field (JObj d) = Inr d"
| "dict_field v = Inl ValueError"

fun protocol_field :: "json \<Rightarrow> exn + protocol" where
  "protocol_field (JStr s) = protocol_of s"
| "protocol_field v = Inl ValueError"

text \<open>
  \<open>json.loads(spec[k]) if spec.get(k) else {}\<close>; \<open>loads\<close> is the JSON parser of the
  standard library on strings.
\<close>

definition schema_of :: "(pystr \<Rightarrow> exn + json) \<Rightarrow> json_obj \<Rightarrow> pystr \<Rightarrow> exn + json" where
  "schema_of loads spec k =
     (let v = get_or spec k JNull in
      if truthy v then (case v of JStr s \<Rightarrow> loads s | _ \<Rightarrow> Inl TypeError) else Inr (JObj []))"

definition manifest_from_cr :: "(pystr \<Rightarrow> exn + json) \<Rightarrow> json \<Rightarrow> json_obj \<Rightarrow> exn + manifest" where
  "manifest_from_cr loads nm spec =
     bindE (schema_of loads spec (lit ''inputSchema'')) (\<lambda>ins.
     bindE (schema_of loads spec (lit ''outputSchema'')) (\<lambda>outs.
     bindE (table_get visibility_table (get_or spec (lit ''visibility'') (JStr (lit ''Public''))) PUBLIC) (\<lambda>vis.
     bindE (protocol_field (get_or spec (lit ''protocol'') (JStr (lit ''grpc'')))) (\<lambda>prot.
     bindE (table_get trust_table (get_or spec (lit ''trust'') (JStr (lit ''Community''))) COMMUNITY) (\<lambda>tr.
     bindE (str_field nm) (\<lambda>name.
     bindE (str_field (get_or spec (lit ''description'') (JStr []))) (\<lambda>desc.
     bindE (str_list_field (get_or spec (lit ''tags'') (JList []))) (\<lambda>tags.
     bindE (dict_field ins) (\<lambda>insch.
     bindE (dict_field outs) (\<lambda>outsch.
     bindE (str_field (get_or spec (lit ''vendor'') (JStr (lit ''community'')))) (\<lambda>vend.
     bindE (str_field (get_or spec (lit ''capability'') (JStr []))) (\<lambda>cap.
     Inr (default_capability ((manifest_defaults name)
       \<lparr>m_description := desc, m_tags := tags, m_input_schema := insch, m_output_schema := outsch,
        m_visibility := vis, m_protocol := prot, m_vendor := vend, m_capability := cap,
        m_trust := tr\<rparr>))))))))))))))"

definition feature_from_cr :: "(pystr \<Rightarrow> exn + json) \<Rightarrow> json_obj \<Rightarrow> exn + feature" where
  "feature_from_cr loads cr =
     (let specv = get_or cr (lit ''spec'') (JObj []); statusv = get_or cr (lit ''status'') (JObj []) in
      bindE (bindE (subscript (JObj cr) (lit ''metadata'')) (\<lambda>md. subscript md (lit ''name''))) (\<lambda>nm.
      bindE (as_dict specv) (\<lambda>spec.
      bindE (manifest_from_cr loads nm spec) (\<lambda>man.
      bindE (as_dict statusv) (\<lambda>status.
      bindE (table_get phase_table (get_or status (lit ''phase'') (JStr (lit ''Pending''))) PENDING) (\<lambda>ph.
      bindE (opt_str_field (get_or status (lit ''endpoint'') JNull)) (\<lambda>ep.
      Inr \<lparr>f_manifest = man, f_phase = ph, f_endpoint = ep\<rparr>)))))))"

section \<open>Listing\<close>

definition has_tags :: "pystr list \<Rightarrow> feature \<Rightarrow> bool" where
  "has_tags wanted f \<longleftrightarrow> set wanted \<subseteq> set (m_tags (f_manifest f))"

definition mentions :: "pystr \<Rightarrow> feature \<Rightarrow> bool" where
  "mentions query f \<longleftrightarrow>
     (let q = lower query; m = f_manifest f in
      str_in q (lower (m_name m)) \<or> str_in q (lower (m_description m))
      \<or> list_ex (\<lambda>t. str_in q (lower t)) (m_tags m))"

text \<open>The body both catalogs share: an absent or empty filter does not filter.\<close>

definition list_results :: "pystr option \<Rightarrow> pystr list option \<Rightarrow> feature list \<Rightarrow> feature list" where
  "list_results query tags fs =
     (let by_tags = (case tags of None \<Rightarrow> fs | Some ts \<Rightarrow> if ts = [] then fs else filter (has_tags ts) fs);
          by_query = (if given query then filter (mentions (the query)) by_tags else by_tags) in
      sort_key f_name by_query)"

section \<open>The in-memory catalog\<close>

type_synonym in_memory_catalog = "(pystr, feature) dict"

definition in_memory_init :: "manifest list \<Rightarrow> in_memory_catalog" where
  "in_memory_init ms = dict_of (map (\<lambda>m. (m_name m,
     \<lparr>f_manifest = m, f_phase = READY, f_endpoint = Some (lit ''local://'' @ m_name m)\<rparr>)) ms)"

definition in_memory_list :: "in_memory_catalog \<Rightarrow> pystr option \<Rightarrow> pystr list option \<Rightarrow> exn + feature list" where
  "in_memory_list c query tags = Inr (list_results query tags (dict_values c))"

definition in_memory_get :: "in_memory_catalog \<Rightarrow> pystr \<Rightarrow> exn + feature option" where
  "in_memory_get c name = Inr (dict_get c name)"

definition in_memory_list_capabilities :: "in_memory_catalog \<Rightarrow> exn + capability_summary list" where
  "in_memory_list_capabilities c = summarize_capabilities (dict_values c)"

definition in_memory_resolve ::
  "in_memory_catalog \<Rightarrow> pystr \<Rightarrow> pystr option \<Rightarrow> pystr option \<Rightarrow> exn + feature option" where
  "in_memory_resolve c capability version vendor =
     resolve_feature (dict_values c) capability version vendor"

section \<open>The Kubernetes catalog\<close>

text \<open>
  The custom-objects API is a parameter: the response of listing the features of the
  namespace, and the response of getting one by name.
\<close>

record k8s_api =
  api_list :: "exn + json_obj"
  api_get :: "pystr \<Rightarrow> exn + json_obj"

fun cr_items :: "json \<Rightarrow> exn + json list" where
  "cr_items (JList xs) = Inr xs"
| "cr_items v = Inl TypeError"

definition k8s_features :: "(pystr \<Rightarrow> exn + json) \<Rightarrow> k8s_api \<Rightarrow> exn + feature list" where
  "k8s_features loads api =
     bindE (api_list api) (\<lambda>resp.
     bindE (cr_items (get_or resp (lit ''items'') (JList []))) (\<lambda>items.
     mapE (\<lambda>item. bindE (as_dict item) (feature_from_cr loads)) items))"

definition k8s_list ::
  "(pystr \<Rightarrow> exn + json) \<Rightarrow> k8s_api \<Rightarrow> pystr option \<Rightarrow> pystr list option \<Rightarrow> exn + feature list" where
  "k8s_list loads api query tags =
     bindE (k8s_features loads api) (\<lambda>fs. Inr (list_results query tags fs))"

definition k8s_get :: "(pystr \<Rightarrow> exn + json) \<Rightarrow> k8s_api \<Rightarrow> pystr \<Rightarrow> exn + feature option" where
  "k8s_get loads api name =
     (case api_get api name of
        Inl (ApiException status) \<Rightarrow> if status = 404 then Inr None else Inl (ApiException status)
      | Inl e \<Rightarrow> Inl e
      | Inr cr \<Rightarrow> bindE (feature_from_cr loads cr) (\<lambda>f. Inr (Some f)))"

definition k8s_list_capabilities :: "(pystr \<Rightarrow> exn + json) \<Rightarrow> k8s_api \<Rightarrow> exn + capability_summary list" where
  "k8s_list_capabilities loads api = bindE (k8s_list loads api None None) summarize_capabilities"

definition k8s_resolve ::
  "(pystr \<Rightarrow> exn + json) \<Rightarrow> k8s_api \<Rightarrow> pystr \<Rightarrow> pystr option \<Rightarrow> pystr option \<Rightarrow> exn + feature option" where
  "k8s_resolve loads api capability version vendor =
     bindE (k8s_list loads api None None) (\<lambda>fs. resolve_feature fs capability version vendor)"

section \<open>Ranking\<close>

text \<open>The key of a feature whose version parses, and that it does.\<close>

definition rkey :: "feature \<Rightarrow> rank_key" where
  "rkey f = projr (rank_key f)"

definition version_ok :: "feature \<Rightarrow> bool" where
  "version_ok f \<longleftrightarrow> \<not> isl (semver_key (f_version f))"

lemma version_ok_iff: "version_ok f \<longleftrightarrow> (\<exists>k. semver_key (f_version f) = Inr k)"
  by (cases "semver_key (f_version f)") (auto simp: version_ok_def)

lemma rank_key_ok: "version_ok f \<Longrightarrow> rank_key f = Inr (rkey f)"
  by (auto simp: version_ok_iff rank_key_def rkey_def)

lemma rank_key_bad: "\<not> version_ok f \<Longrightarrow> rank_key f = Inl ValueError"
  by (cases "semver_key (f_version f)") (auto simp: version_ok_def rank_key_def dest: semver_key_error)

lemma rkey_eq:
  "semver_key (f_version f) = Inr k \<Longrightarrow> rkey f = (trust_rank (f_trust f), map uminus k, f_vendor f)"
  by (simp add: rkey_def rank_key_def)

lemma rank_features_eq:
  "rank_features fs = (if list_all version_ok fs then Inr (sort_key rkey fs) else Inl ValueError)"
proof (cases "list_all version_ok fs")
  case True
  then have "rank_features fs = Inr (sort_key rkey fs)"
    unfolding rank_features_def by (intro sortedE_Inr) (auto simp: list_all_iff rank_key_ok)
  with True show ?thesis by simp
next
  case False
  then obtain f where f: "f \<in> set fs" "\<not> version_ok f" by (auto simp: list_all_iff)
  then obtain e where e: "mapE rank_key fs = Inl e"
    using mapE_ex_Inl [of f fs rank_key] rank_key_bad by blast
  then obtain g where "rank_key g = Inl e" by (auto dest: mapE_Inl_source)
  then have "e = ValueError" using rank_key_bad rank_key_ok by (cases "version_ok g") auto
  with False e show ?thesis by (simp add: rank_features_def sortedE_def)
qed

lemma rank_features_Inr:
  "rank_features fs = Inr rs \<longleftrightarrow> list_all version_ok fs \<and> rs = sort_key rkey fs"
  by (auto simp: rank_features_eq)

lemma trust_rank_inject [simp]: "trust_rank a = trust_rank b \<longleftrightarrow> a = b"
  by (cases a; cases b) auto

section \<open>Resolution\<close>

definition eligible :: "pystr \<Rightarrow> pystr option \<Rightarrow> pystr option \<Rightarrow> feature \<Rightarrow> bool" where
  "eligible capability version vendor f \<longleftrightarrow>
     f_capability f = capability \<and> (given vendor \<longrightarrow> f_vendor f = the vendor)
     \<and> (given version \<longrightarrow> match_version (f_version f) (the version) = Inr True)"

lemma pin_vendor_filter:
  "pin_vendor vendor fs = filter (\<lambda>f. given vendor \<longrightarrow> f_vendor f = the vendor) fs"
  by (simp add: pin_vendor_def)

lemma pin_version_Inr:
  "pin_version version fs = Inr gs \<Longrightarrow>
   gs = filter (\<lambda>f. given version \<longrightarrow> match_version (f_version f) (the version) = Inr True) fs"
  by (auto simp: pin_version_def dest: filterE_eq_Inr split: if_splits)

lemma pins_eligible:
  assumes "pin_version version (pin_vendor vendor (filter (\<lambda>f. f_capability f = capability) fs)) = Inr cs"
  shows "cs = filter (eligible capability version vendor) fs"
  using pin_version_Inr [OF assms]
  by (simp add: pin_vendor_filter eligible_def [abs_def] conj_ac cong: conj_cong)

lemma resolve_feature_Inr:
  assumes "resolve_feature fs capability version vendor = Inr r"
  shows "r = (case sort_key rkey (filter (eligible capability version vendor) fs) of
    [] \<Rightarrow> None | f # _ \<Rightarrow> Some f)"
  using assms by (auto simp: resolve_feature_def Let_def exn_simps rank_features_Inr dest!: pins_eligible)

text \<open>A range that parses; whether it does is independent of the version it is tried on.\<close>

definition spec_ok :: "pystr \<Rightarrow> bool" where
  "spec_ok spec \<longleftrightarrow> \<not> isl (match_version (lit ''0'') spec)"

lemma triple_of_zero: "triple_of (lit ''0'') = Inr (0, 0, 0)"
  by code_simp

lemma match_ops_isl: "isl (match_ops ops v spec) = isl (match_ops ops w spec)"
  by (induction ops) (auto simp: bindE_def split: sum.splits)

lemma match_version_ok:
  assumes "spec_ok spec" and "triple_of version = Inr v"
  shows "\<exists>b. match_version version spec = Inr b"
proof (cases "strip spec \<in> set any_specs")
  case True
  then have "match_version version spec = Inr True" by (simp add: match_version_def Let_def)
  then show ?thesis by blast
next
  case False
  have "isl (match_version version spec) = isl (match_version (lit ''0'') spec)"
    using match_ops_isl [of "[OpGe, OpLe, OpGt, OpLt, OpEq]" v "strip spec" "(0, 0, 0)"]
    by (simp only: match_version_split [OF assms(2) False] match_version_split [OF triple_of_zero False])
      (auto simp: bindE_def split: sum.splits)
  with assms(1) show ?thesis
    by (cases "match_version version spec") (auto simp: spec_ok_def)
qed

lemma version_ok_triple: "version_ok f \<Longrightarrow> \<exists>v. triple_of (f_version f) = Inr v"
  by (auto simp del: split_paired_Ex simp: version_ok_iff triple_of_def)

lemma pin_version_ok:
  assumes "list_all version_ok fs" and "given version \<longrightarrow> spec_ok (the version)"
  shows "\<exists>gs. pin_version version fs = Inr gs"
proof (cases "given version")
  case True
  have "\<exists>e. filterE (\<lambda>f. match_version (f_version f) (the version)) fs = Inr e"
  proof (cases "filterE (\<lambda>f. match_version (f_version f) (the version)) fs")
    case (Inl e)
    then obtain f where "f \<in> set fs" "match_version (f_version f) (the version) = Inl e"
      by (auto dest: filterE_Inl_source)
    then show ?thesis
      using True assms version_ok_triple [of f] match_version_ok [of "the version" "f_version f"]
      by (auto simp: list_all_iff)
  qed auto
  with True show ?thesis by (simp add: pin_version_def)
qed (simp add: pin_version_def)

lemma resolve_feature_ok:
  assumes "list_all version_ok fs" and "given version \<longrightarrow> spec_ok (the version)"
  shows "resolve_feature fs capability version vendor =
    Inr (case sort_key rkey (filter (eligible capability version vendor) fs) of
           [] \<Rightarrow> None | f # _ \<Rightarrow> Some f)"
proof -
  let ?cs = "pin_vendor vendor (filter (\<lambda>f. f_capability f = capability) fs)"
  have "list_all version_ok ?cs" using assms(1) by (auto simp: pin_vendor_filter list_all_iff)
  then obtain cs where cs: "pin_version version ?cs = Inr cs" using pin_version_ok assms(2) by blast
  then have "cs = filter (eligible capability version vendor) fs" by (rule pins_eligible)
  moreover from this have "list_all version_ok cs" using assms(1) by (auto simp: list_all_iff)
  ultimately show ?thesis using cs by (simp add: resolve_feature_def Let_def rank_features_eq)
qed

text \<open>
  Resolution on two orders of the same features: the same outcome, or two features that tie on
  trust, version and vendor.
\<close>

lemma map_sort_key: "map k (sort_key k xs) = sort (map k xs)"
proof (rule sym, rule properties_for_sort)
  show "mset (map k (sort_key k xs)) = mset (map k xs)" by simp
  show "sorted (map k (sort_key k xs))" by simp
qed

lemma sort_key_mset: "mset xs = mset ys \<Longrightarrow> map k (sort_key k xs) = map k (sort_key k ys)"
  unfolding map_sort_key by (metis mset_map sorted_list_of_multiset_mset)

lemma match_version_error: "match_version v spec = Inl e \<Longrightarrow> e = ValueError"
proof -
  have t: "triple_of x = Inl e' \<Longrightarrow> e' = ValueError" for x e'
    using semver_key_error by (auto simp: triple_of_def exn_simps)
  have "match_ops ops u x = Inl e' \<Longrightarrow> e' = ValueError" for ops u x e'
    by (induction ops) (auto simp: exn_simps dest: t split: if_splits)
  then show "match_version v spec = Inl e \<Longrightarrow> e = ValueError"
    by (auto simp: match_version_def Let_def exn_simps dest: t split: if_splits)
qed

lemma pin_version_Inl:
  "pin_version version fs = Inl e \<longleftrightarrow>
   e = ValueError \<and> given version \<and> (\<exists>f \<in> set fs. match_version (f_version f) (the version) = Inl ValueError)"
proof
  assume "pin_version version fs = Inl e"
  then show "e = ValueError \<and> given version \<and> (\<exists>f \<in> set fs. match_version (f_version f) (the version) = Inl ValueError)"
    by (auto simp: pin_version_def dest!: filterE_Inl_source split: if_splits) (use match_version_error in blast)+
next
  assume r: "e = ValueError \<and> given version \<and> (\<exists>f \<in> set fs. match_version (f_version f) (the version) = Inl ValueError)"
  then obtain e' where e': "filterE (\<lambda>f. match_version (f_version f) (the version)) fs = Inl e'"
    using filterE_ex_Inl [where p = "\<lambda>f. match_version (f_version f) (the version)"] by blast
  then have "e' = ValueError" using match_version_error by (blast dest: filterE_Inl_source)
  with e' r show "pin_version version fs = Inl e" by (simp add: pin_version_def)
qed

definition tied :: "exn + feature option \<Rightarrow> exn + feature option \<Rightarrow> bool" where
  "tied x y \<longleftrightarrow> x = y \<or> (\<exists>f g. x = Inr (Some f) \<and> y = Inr (Some g) \<and> rank_key f = rank_key g)"

lemma resolve_reordered:
  assumes m: "mset fs = mset gs"
  shows "tied (resolve_feature fs capability version vendor) (resolve_feature gs capability version vendor)
    \<and> (inj_on rank_key {f \<in> set fs. eligible capability version vendor f} \<longrightarrow>
         resolve_feature fs capability version vendor = resolve_feature gs capability version vendor)"
proof -
  let ?c = "\<lambda>xs. pin_vendor vendor (filter (\<lambda>f. f_capability f = capability) xs)"
  let ?e = "filter (eligible capability version vendor)"
  have set: "set fs = set gs" using m by (rule mset_eq_setD)
  have cset: "set (?c fs) = set (?c gs)" by (auto simp: pin_vendor_filter set)
  show ?thesis
  proof (cases "pin_version version (?c fs)")
    case (Inl e)
    moreover from Inl have "pin_version version (?c gs) = Inl e" unfolding pin_version_Inl cset .
    ultimately show ?thesis by (simp add: resolve_feature_def tied_def)
  next
    case (Inr cs)
    then have "pin_version version (?c gs) \<noteq> Inl e" for e
      using pin_version_Inl [of version "?c gs" e] pin_version_Inl [of version "?c fs" e] unfolding cset by auto
    then obtain cs' where cs': "pin_version version (?c gs) = Inr cs'" by (cases "pin_version version (?c gs)") auto
    have e: "cs = ?e fs" "cs' = ?e gs" using pins_eligible [OF Inr] pins_eligible [OF cs'] by simp_all
    have me: "mset (?e fs) = mset (?e gs)" using m by (simp add: mset_filter)
    have eset: "set (?e fs) = set (?e gs)" using set by simp
    show ?thesis
    proof (cases "list_all version_ok (?e fs)")
      case False
      then have "\<not> list_all version_ok (?e gs)" using eset by (simp only: list_all_iff not_False_eq_True)
      with False Inr cs' show ?thesis by (simp add: resolve_feature_def e rank_features_eq tied_def)
    next
      case True
      then have ok: "list_all version_ok (?e gs)" using eset by (simp only: list_all_iff)
      let ?f = "sort_key rkey (?e fs)" and ?g = "sort_key rkey (?e gs)"
      have r: "resolve_feature fs capability version vendor = Inr (case ?f of [] \<Rightarrow> None | f # _ \<Rightarrow> Some f)"
        "resolve_feature gs capability version vendor = Inr (case ?g of [] \<Rightarrow> None | f # _ \<Rightarrow> Some f)"
        using Inr cs' True ok by (simp_all add: resolve_feature_def e rank_features_eq)
      have k: "map rkey ?f = map rkey ?g" using me by (rule sort_key_mset)
      show ?thesis
      proof (cases ?f)
        case Nil
        with k have "?g = []" by simp
        with Nil r show ?thesis by (simp add: tied_def)
      next
        case (Cons f fr)
        have "map rkey ?g = rkey f # map rkey fr" using k Cons by simp
        then obtain g gr where g: "?g = g # gr" "rkey f = rkey g" unfolding map_eq_Cons_conv by auto
        have "f \<in> set ?f" "g \<in> set ?g" unfolding Cons g(1) by simp_all
        then have mem: "f \<in> set (?e fs)" "g \<in> set (?e fs)" using set by simp_all
        then have "rank_key f = rank_key g" using True g(2) by (auto simp: list_all_iff rank_key_ok)
        with r Cons g mem show ?thesis by (auto simp: tied_def inj_on_def)
      qed
    qed
  qed
qed

section \<open>Grouping\<close>

lemma fold_group_add_get:
  "dict_get (fold group_add fs d) c =
     (case dict_get d c of
        None \<Rightarrow> if filter (\<lambda>f. f_capability f = c) fs = [] then None
                else Some (filter (\<lambda>f. f_capability f = c) fs)
      | Some gs \<Rightarrow> Some (gs @ filter (\<lambda>f. f_capability f = c) fs))"
  by (induction fs arbitrary: d) (auto simp: group_add_def dict_simps split: option.splits)

lemma by_cap_get:
  "dict_get (by_cap fs) c =
     (if filter (\<lambda>f. f_capability f = c) fs = [] then None
      else Some (filter (\<lambda>f. f_capability f = c) fs))"
  by (simp add: by_cap_def fold_group_add_get)

lemma fold_group_add_ok: "dict_ok d \<Longrightarrow> dict_ok (fold group_add fs d)"
  by (induction fs arbitrary: d) (auto simp: group_add_def dict_ok_set)

lemma by_cap_ok: "dict_ok (by_cap fs)"
  by (simp add: by_cap_def fold_group_add_ok)

lemma by_cap_item:
  "(c, g) \<in> set (by_cap fs) \<longleftrightarrow> g = filter (\<lambda>f. f_capability f = c) fs \<and> c \<in> f_capability ` set fs"
proof
  assume "(c, g) \<in> set (by_cap fs)"
  then have "dict_get (by_cap fs) c = Some g" by (simp add: dict_get_in by_cap_ok)
  then show "g = filter (\<lambda>f. f_capability f = c) fs \<and> c \<in> f_capability ` set fs"
    by (auto simp: by_cap_get filter_empty_conv split: if_splits)
next
  assume "g = filter (\<lambda>f. f_capability f = c) fs \<and> c \<in> f_capability ` set fs"
  then have "dict_get (by_cap fs) c = Some g" by (auto simp: by_cap_get filter_empty_conv)
  then show "(c, g) \<in> set (by_cap fs)" by (rule dict_get_Some_in)
qed

lemma by_cap_keys: "fst ` set (by_cap fs) = f_capability ` set fs"
proof (rule set_eqI)
  fix c
  have "c \<in> fst ` set (by_cap fs) \<longleftrightarrow> (\<exists>g. (c, g) \<in> set (by_cap fs))" by force
  then show "c \<in> fst ` set (by_cap fs) \<longleftrightarrow> c \<in> f_capability ` set fs" by (simp add: by_cap_item)
qed

lemma sorted_by_cap_keys:
  "map fst (sort_key fst (by_cap fs)) = sorted_list_of_set (f_capability ` set fs)"
proof (rule sorted_distinct_set_unique)
  show "sorted (map fst (sort_key fst (by_cap fs)))" by simp
  have "distinct (map fst (by_cap fs))" using by_cap_ok by (simp add: dict_ok_def dict_keys_def)
  moreover have "mset (map fst (sort_key fst (by_cap fs))) = mset (map fst (by_cap fs))" by simp
  ultimately show "distinct (map fst (sort_key fst (by_cap fs)))"
    using mset_eq_imp_distinct_iff by blast
  show "set (map fst (sort_key fst (by_cap fs))) = set (sorted_list_of_set (f_capability ` set fs))"
    by (simp add: by_cap_keys)
qed auto

section \<open>Listing\<close>

definition selects :: "pystr option \<Rightarrow> pystr list option \<Rightarrow> feature \<Rightarrow> bool" where
  "selects query tags f \<longleftrightarrow>
     (case tags of None \<Rightarrow> True | Some ts \<Rightarrow> has_tags ts f) \<and> (given query \<longrightarrow> mentions (the query) f)"

lemma has_tags_Nil [simp]: "has_tags [] f"
  by (simp add: has_tags_def)

lemma list_results_filter:
  "list_results query tags fs = sort_key f_name (filter (selects query tags) fs)"
  by (auto simp: list_results_def selects_def [abs_def] Let_def conj_commute split: option.splits
      cong: filter_cong)

lemma list_results_all: "list_results None None fs = sort_key f_name fs"
  by (simp add: list_results_def given_def)

lemma filter_sort_key: "filter P (sort_key f xs) = sort_key f (filter P xs)"
  by (rule filter_sort)

text \<open>What every catalog promises about listing, and what its clients get from it.\<close>

locale catalog_list =
  fixes clist :: "pystr option \<Rightarrow> pystr list option \<Rightarrow> exn + feature list"
  assumes clist_sorted: "clist query tags = Inr fs \<Longrightarrow> sorted (map f_name fs)"
    and clist_filter: "clist None None = Inr fs \<Longrightarrow> clist query tags = Inr (filter (selects query tags) fs)"
    and clist_error: "clist None None = Inl e \<Longrightarrow> clist query tags = Inl e"
begin

lemma clist_subset:
  assumes "clist query tags = Inr fs"
  shows "\<exists>all. clist None None = Inr all \<and> set fs \<subseteq> set all"
proof (cases "clist None None")
  case (Inl e)
  with assms show ?thesis using clist_error [of e query tags] by simp
next
  case (Inr all)
  with assms show ?thesis using clist_filter [of all query tags] by auto
qed

lemma clist_complete:
  assumes "clist None None = Inr all" and "f \<in> set all" and "selects query tags f"
  shows "\<exists>fs. clist query tags = Inr fs \<and> f \<in> set fs"
  using assms clist_filter by auto

end

text \<open>A catalog also finds features by name, in agreement with its listing.\<close>

locale catalog = catalog_list clist
  for clist :: "pystr option \<Rightarrow> pystr list option \<Rightarrow> exn + feature list" +
  fixes cget :: "pystr \<Rightarrow> exn + feature option"
  assumes cget_iff: "clist None None = Inr fs \<Longrightarrow>
      cget n = Inr (Some f) \<longleftrightarrow> f \<in> set fs \<and> f_name f = n"
begin

lemma cget_unique:
  assumes "clist None None = Inr fs" and "f \<in> set fs" and "g \<in> set fs" and "f_name f = f_name g"
  shows "f = g"
  using assms cget_iff [OF assms(1), of "f_name g" f] cget_iff [OF assms(1), of "f_name g" g] by auto

lemma cget_listed:
  assumes "clist query tags = Inr fs" and "f \<in> set fs"
  shows "cget (f_name f) = Inr (Some f)"
proof -
  obtain all where all: "clist None None = Inr all" "set fs \<subseteq> set all"
    using clist_subset [OF assms(1)] by blast
  with assms(2) show ?thesis using cget_iff [OF all(1), of "f_name f" f] by blast
qed

end

lemma in_memory_init_name: "(k, f) \<in> set (in_memory_init ms) \<Longrightarrow> f_name f = k"
  unfolding in_memory_init_def using dict_of_image by fastforce

lemma in_memory_init_ok: "dict_ok (in_memory_init ms)"
  by (simp add: in_memory_init_def dict_of_ok)

lemma in_memory_get_iff:
  "dict_get (in_memory_init ms) n = Some f \<longleftrightarrow> f \<in> set (dict_values (in_memory_init ms)) \<and> f_name f = n"
proof
  assume "dict_get (in_memory_init ms) n = Some f"
  then have "(n, f) \<in> set (in_memory_init ms)" by (rule dict_get_Some_in)
  then show "f \<in> set (dict_values (in_memory_init ms)) \<and> f_name f = n"
    using in_memory_init_name by (force simp: dict_values_def)
next
  assume "f \<in> set (dict_values (in_memory_init ms)) \<and> f_name f = n"
  then obtain k where k: "(k, f) \<in> set (in_memory_init ms)" and n: "f_name f = n"
    by (auto simp: dict_values_def)
  then have "k = n" using in_memory_init_name by blast
  with k show "dict_get (in_memory_init ms) n = Some f" by (simp add: dict_get_in in_memory_init_ok)
qed

interpretation mem: catalog "in_memory_list (in_memory_init ms)" "in_memory_get (in_memory_init ms)" for ms
  by unfold_locales
    (auto simp: in_memory_list_def in_memory_get_def list_results_filter list_results_all filter_sort_key
      in_memory_get_iff selects_def given_def)

interpretation k8s: catalog_list "k8s_list loads api" for loads api
  by unfold_locales
    (auto simp: k8s_list_def exn_simps list_results_filter list_results_all filter_sort_key
      selects_def given_def)

section \<open>Properties\<close>

text \<open>
  The order the documentation of \<open>rank_features\<close> describes: better trust tier, then newer
  version, then vendor name.
\<close>

definition outranks :: "feature \<Rightarrow> feature \<Rightarrow> bool" where
  "outranks f g \<longleftrightarrow>
     trust_rank (f_trust f) < trust_rank (f_trust g)
     \<or> f_trust f = f_trust g \<and>
       (projr (triple_of (f_version g)) < projr (triple_of (f_version f))
        \<or> triple_of (f_version f) = triple_of (f_version g) \<and> f_vendor f \<le> f_vendor g)"

lemma rkey_le_outranks:
  assumes "semver_key (f_version f) = Inr [a, b, c]" and "semver_key (f_version g) = Inr [x, y, z]"
    and "rkey f \<le> rkey g"
  shows "outranks f g"
  using assms by (auto simp: rkey_eq outranks_def triple_of_def)

text \<open>
  On versions with three components \<open>rank_features\<close> returns a rearrangement of its input
  in which every feature outranks (trust tier, then newest version, then vendor) all that
  follow it, features with the same key keeping their order.
\<close>

theorem rank_features_correct:
  assumes "\<forall>f \<in> set fs. \<exists>a b c. semver_key (f_version f) = Inr [a, b, c]"
  shows "\<exists>rs. rank_features fs = Inr rs \<and> mset rs = mset fs \<and> sorted_wrt outranks rs
    \<and> (\<forall>f. filter (\<lambda>g. rkey g = rkey f) rs = filter (\<lambda>g. rkey g = rkey f) fs)"
proof -
  let ?rs = "sort_key rkey fs"
  have "list_all version_ok fs" using assms by (auto simp: list_all_iff version_ok_iff)
  then have "rank_features fs = Inr ?rs" by (simp add: rank_features_eq)
  moreover have "sorted_wrt outranks ?rs"
  proof -
    have "sorted_wrt (\<lambda>f g. rkey f \<le> rkey g) ?rs"
      using sorted_sort_key [of rkey fs] by (simp only: sorted_map)
    then show ?thesis
      by (rule sorted_wrt_mono_rel [rotated]) (metis assms rkey_le_outranks set_sort)
  qed
  moreover have "filter (\<lambda>g. rkey g = rkey f) ?rs = filter (\<lambda>g. rkey g = rkey f) fs" for f
    by (rule sort_key_stable)
  ultimately show ?thesis by (metis mset_sort)
qed

definition sample_feature :: "string \<Rightarrow> string \<Rightarrow> trust_tier \<Rightarrow> string \<Rightarrow> feature" where
  "sample_feature nm vendor tier version =
     \<lparr>f_manifest = (manifest_defaults (lit nm))\<lparr>m_vendor := lit vendor, m_trust := tier,
        m_version := lit version, m_capability := lit ''greet''\<rparr>,
      f_phase = READY, f_endpoint = None\<rparr>"

lemma sample_semver:
  "semver_key (lit ''1.0.0'') = Inr [1, 0, 0]" "semver_key (lit ''1.2.0'') = Inr [1, 2, 0]"
  "semver_key (lit ''1'') = Inr [1]"
  by code_simp+

theorem rank_features_correct_witness:
  "\<exists>rs. rank_features [sample_feature ''g'' ''globex'' COMMUNITY ''1.2.0'',
      sample_feature ''a'' ''acme'' VERIFIED ''1.0.0''] = Inr rs \<and> sorted_wrt outranks rs"
proof -
  let ?fs = "[sample_feature ''g'' ''globex'' COMMUNITY ''1.2.0'',
      sample_feature ''a'' ''acme'' VERIFIED ''1.0.0'']"
  have "\<forall>f \<in> set ?fs. \<exists>a b c. semver_key (f_version f) = Inr [a, b, c]"
    using sample_semver by (simp add: sample_feature_def)
  from rank_features_correct [OF this] show ?thesis by blast
qed

text \<open>
  With versions of different length the order is not by age: a version that is a proper
  prefix of another (\<open>1\<close> against \<open>1.2.0\<close>) is ranked first, although it is older.
\<close>

theorem rank_features_prefix_first:
  assumes "semver_key (f_version f) = Inr k" and "semver_key (f_version g) = Inr (k @ n # ks)"
    and "f_trust f = f_trust g"
  shows "rank_features [g, f] = Inr [f, g]"
proof -
  have less: "xs < xs @ y # ys" for xs ys :: "int list" and y
    by (induction xs) auto
  have "rkey f < rkey g" using assms less [of "map uminus k"] by (simp add: rkey_eq)
  moreover have "list_all version_ok [g, f]" using assms by (auto simp: version_ok_iff)
  ultimately show ?thesis by (simp add: rank_features_eq less_le_not_le)
qed

theorem rank_features_prefix_first_witness:
  "rank_features [sample_feature ''new'' ''v'' COMMUNITY ''1.2.0'', sample_feature ''old'' ''v'' COMMUNITY ''1'']
    = Inr [sample_feature ''old'' ''v'' COMMUNITY ''1'', sample_feature ''new'' ''v'' COMMUNITY ''1.2.0'']"
proof (rule rank_features_prefix_first)
  show "semver_key (f_version (sample_feature ''old'' ''v'' COMMUNITY ''1'')) = Inr [1]"
    using sample_semver by (simp add: sample_feature_def)
  show "semver_key (f_version (sample_feature ''new'' ''v'' COMMUNITY ''1.2.0'')) = Inr ([1] @ 2 # [0])"
    using sample_semver by (simp add: sample_feature_def)
qed (simp add: sample_feature_def)

text \<open>
  C11. When every version and the requested range parse, resolution returns a feature of the
  capability that satisfies both pins and that no other such feature precedes in the ranking,
  and returns nothing exactly when no feature qualifies.
\<close>

theorem resolve_feature_correct:
  assumes "list_all version_ok fs" and "given version \<longrightarrow> spec_ok (the version)"
  shows "\<exists>r. resolve_feature fs capability version vendor = Inr r \<and>
    (case r of
       None \<Rightarrow> \<forall>g \<in> set fs. \<not> eligible capability version vendor g
     | Some f \<Rightarrow> f \<in> set fs \<and> eligible capability version vendor f \<and>
         (\<forall>g \<in> set fs. eligible capability version vendor g \<longrightarrow> rkey f \<le> rkey g))"
proof -
  let ?cs = "filter (eligible capability version vendor) fs"
  note eq = resolve_feature_ok [OF assms, of capability vendor]
  show ?thesis
  proof (cases "sort_key rkey ?cs")
    case Nil
    then have "?cs = []" by simp
    with eq show ?thesis by (auto simp: filter_empty_conv)
  next
    case (Cons f rest)
    then have f: "f \<in> set ?cs" by (metis list.set_intros(1) set_sort)
    have "rkey f \<le> rkey g" if "g \<in> set ?cs" for g
      using hd_sort_key_le [OF that, of rkey] Cons by simp
    with eq Cons f show ?thesis by auto
  qed
qed

theorem resolve_feature_correct_witness:
  "resolve_feature [sample_feature ''g'' ''globex'' COMMUNITY ''1.2.0'',
      sample_feature ''a'' ''acme'' VERIFIED ''1.0.0''] (lit ''greet'') (Some (lit ''^1.0.0'')) None
    \<noteq> Inr None"
proof -
  let ?a = "sample_feature ''a'' ''acme'' VERIFIED ''1.0.0''"
  let ?fs = "[sample_feature ''g'' ''globex'' COMMUNITY ''1.2.0'', ?a]"
  have ok: "list_all version_ok ?fs" using sample_semver by (simp add: version_ok_def sample_feature_def)
  have spec: "given (Some (lit ''^1.0.0'')) \<longrightarrow> spec_ok (the (Some (lit ''^1.0.0'')))" by code_simp
  have "match_version (lit ''1.0.0'') (lit ''^1.0.0'') = Inr True" by code_simp
  then have "eligible (lit ''greet'') (Some (lit ''^1.0.0'')) None ?a"
    by (simp add: eligible_def sample_feature_def given_def)
  with resolve_feature_correct [OF ok spec, of "lit ''greet''" None] show ?thesis by force
qed

text \<open>
  C29. The capability summary lists every capability once, in order; each entry counts exactly the
  providers of its capability, lists their vendors best-first, and prefers the very feature
  that resolving the capability without pins returns.
\<close>

theorem summarize_capabilities_correct:
  assumes "list_all version_ok fs"
  shows "\<exists>ss. summarize_capabilities fs = Inr ss \<and>
    map cs_capability ss = sorted_list_of_set (f_capability ` set fs) \<and>
    (\<forall>s \<in> set ss. \<exists>f ranked.
       rank_features (filter (\<lambda>g. f_capability g = cs_capability s) fs) = Inr ranked \<and>
       resolve_feature fs (cs_capability s) None None = Inr (Some f) \<and>
       cs_provider_count s = length (filter (\<lambda>g. f_capability g = cs_capability s) fs) \<and>
       cs_vendors s = map f_vendor ranked \<and>
       cs_preferred s = Some (feature_id f) \<and> cs_description s = m_description (f_manifest f))"
proof -
  let ?sum = "\<lambda>(c, g). let r = sort_key rkey g in
     \<lparr>cs_capability = c, cs_description = m_description (f_manifest (hd r)),
      cs_provider_count = length r, cs_vendors = map f_vendor r,
      cs_preferred = Some (feature_id (hd r))\<rparr>"
  let ?items = "sort_key fst (by_cap fs)"
  have ok: "list_all version_ok g" if "(c, g) \<in> set ?items" for c g
    using that assms by (auto simp: by_cap_item list_all_iff)
  have "summarize_capabilities fs = Inr (map ?sum ?items)"
    unfolding summarize_capabilities_def
    using ok by (intro mapE_Inr) (auto simp: summary_of_def rank_features_eq Let_def)
  moreover have "map cs_capability (map ?sum ?items) = sorted_list_of_set (f_capability ` set fs)"
    unfolding sorted_by_cap_keys [symmetric] by (simp add: Let_def case_prod_beta)
  moreover have "\<exists>f ranked.
       rank_features (filter (\<lambda>g. f_capability g = cs_capability s) fs) = Inr ranked \<and>
       resolve_feature fs (cs_capability s) None None = Inr (Some f) \<and>
       cs_provider_count s = length (filter (\<lambda>g. f_capability g = cs_capability s) fs) \<and>
       cs_vendors s = map f_vendor ranked \<and>
       cs_preferred s = Some (feature_id f) \<and> cs_description s = m_description (f_manifest f)"
    if "s \<in> set (map ?sum ?items)" for s
  proof -
    from that obtain c g where cg: "(c, g) \<in> set ?items" and s: "s = ?sum (c, g)" by auto
    then have g: "g = filter (\<lambda>f. f_capability f = c) fs" and ne: "g \<noteq> []"
      by (auto simp: by_cap_item filter_empty_conv)
    have elig: "filter (eligible c None None) fs = g" by (simp add: g eligible_def [abs_def] given_def)
    obtain f rest where f: "sort_key rkey g = f # rest" using ne by (cases "sort_key rkey g") auto
    have "resolve_feature fs c None None = Inr (Some f)"
      using resolve_feature_ok [OF assms, of None c None] elig f by (simp add: given_def)
    moreover have "rank_features g = Inr (f # rest)" using ok [OF cg] f by (simp add: rank_features_eq)
    moreover have "length g = length (f # rest)" using f by (metis length_sort)
    ultimately show ?thesis using s f g by (auto simp: Let_def)
  qed
  ultimately show ?thesis by blast
qed

theorem summarize_capabilities_correct_witness:
  "\<exists>ss. summarize_capabilities [sample_feature ''g'' ''globex'' COMMUNITY ''1.2.0'',
      sample_feature ''a'' ''acme'' VERIFIED ''1.0.0''] = Inr ss \<and>
    map cs_capability ss = sorted_list_of_set {lit ''greet''}"
proof -
  let ?fs = "[sample_feature ''g'' ''globex'' COMMUNITY ''1.2.0'', sample_feature ''a'' ''acme'' VERIFIED ''1.0.0'']"
  have ok: "list_all version_ok ?fs" using sample_semver by (simp add: version_ok_def sample_feature_def)
  have "f_capability ` set ?fs = {lit ''greet''}" by (simp add: sample_feature_def)
  with summarize_capabilities_correct [OF ok] show ?thesis by auto
qed

text \<open>
  C30. One feature whose version does not parse makes the whole capability listing raise
  \<open>ValueError\<close>, whatever the other features are; otherwise it succeeds.
\<close>

theorem summarize_capabilities_raises:
  "summarize_capabilities fs = Inl e \<longleftrightarrow> e = ValueError \<and> (\<exists>f \<in> set fs. \<not> version_ok f)"
proof (cases "list_all version_ok fs")
  case True
  have "\<exists>ss. mapE summary_of (sort_key fst (by_cap fs)) = Inr ss"
  proof (rule ccontr)
    assume "\<nexists>ss. mapE summary_of (sort_key fst (by_cap fs)) = Inr ss"
    then obtain e' where "mapE summary_of (sort_key fst (by_cap fs)) = Inl e'"
      by (cases "mapE summary_of (sort_key fst (by_cap fs))") auto
    then obtain item where item: "item \<in> set (sort_key fst (by_cap fs))" "summary_of item = Inl e'"
      by (auto dest: mapE_Inl_source)
    obtain c g where "item = (c, g)" by (cases item)
    with item show False using True by (auto simp: by_cap_item summary_of_def rank_features_eq list_all_iff)
  qed
  with True show ?thesis by (auto simp: summarize_capabilities_def list_all_iff)
next
  case False
  then obtain f where f: "f \<in> set fs" "\<not> version_ok f" by (auto simp: list_all_iff)
  let ?g = "filter (\<lambda>h. f_capability h = f_capability f) fs"
  have item: "(f_capability f, ?g) \<in> set (sort_key fst (by_cap fs))" using f by (simp add: by_cap_item)
  have bad: "summary_of (f_capability f, ?g) = Inl ValueError"
    using f by (auto simp: summary_of_def rank_features_eq list_all_iff)
  obtain e' where e': "mapE summary_of (sort_key fst (by_cap fs)) = Inl e'"
    using mapE_ex_Inl [OF item, of summary_of, OF bad] by blast
  then obtain item where "summary_of item = Inl e'" by (auto dest: mapE_Inl_source)
  then have "e' = ValueError"
    by (cases item) (auto simp: summary_of_def rank_features_eq split: if_splits)
  with e' f show ?thesis by (auto simp: summarize_capabilities_def)
qed

text \<open>
  C31. The in-memory catalog lists features in strictly increasing order of name, and lists a
  feature for a query exactly when looking its name up returns it and it carries every wanted tag
  and mentions the query.
\<close>

theorem in_memory_catalog_correct:
  assumes "in_memory_list (in_memory_init ms) query tags = Inr fs"
  shows "sorted (map f_name fs) \<and> distinct (map f_name fs) \<and>
    (\<forall>f. f \<in> set fs \<longleftrightarrow>
       in_memory_get (in_memory_init ms) (f_name f) = Inr (Some f) \<and> selects query tags f)"
proof -
  let ?vals = "dict_values (in_memory_init ms)"
  have "map f_name ?vals = dict_keys (in_memory_init ms)"
    by (auto simp: dict_values_def dict_keys_def intro: in_memory_init_name)
  then have d: "distinct (map f_name ?vals)" using in_memory_init_ok [of ms] by (simp add: dict_ok_def)
  have fs: "fs = sort_key f_name (filter (selects query tags) ?vals)"
    using assms by (simp add: in_memory_list_def list_results_filter)
  have "distinct (map f_name (filter (selects query tags) ?vals))" using d by (rule distinct_map_filter)
  moreover have "mset (map f_name fs) = mset (map f_name (filter (selects query tags) ?vals))"
    by (simp add: fs)
  ultimately have "distinct (map f_name fs)" using mset_eq_imp_distinct_iff by blast
  moreover have "f \<in> set fs \<longleftrightarrow>
      in_memory_get (in_memory_init ms) (f_name f) = Inr (Some f) \<and> selects query tags f" for f
    by (auto simp: fs in_memory_get_def in_memory_get_iff)
  ultimately show ?thesis using mem.clist_sorted [OF assms] by blast
qed

theorem in_memory_catalog_correct_witness:
  "\<exists>fs. in_memory_list (in_memory_init [manifest_defaults (lit ''clock'')]) None None = Inr fs \<and>
     distinct (map f_name fs)"
proof -
  obtain fs where fs: "in_memory_list (in_memory_init [manifest_defaults (lit ''clock'')]) None None = Inr fs"
    by (simp add: in_memory_list_def)
  from in_memory_catalog_correct [OF fs] fs show ?thesis by blast
qed

text \<open>
  Every feature built from a custom resource has the resource's name, a capability (its own
  name when none is given), and the default version \<open>1.0.0\<close>: no version is ever read from
  the resource. A visibility outside the table becomes public.
\<close>

theorem feature_from_cr_fields:
  assumes "feature_from_cr loads cr = Inr f"
  shows "\<exists>md spec. dict_get cr (lit ''metadata'') = Some (JObj md)
    \<and> dict_get md (lit ''name'') = Some (JStr (f_name f))
    \<and> get_or cr (lit ''spec'') (JObj []) = JObj spec
    \<and> f_version f = lit ''1.0.0''
    \<and> (f_name f \<noteq> [] \<longrightarrow> f_capability f \<noteq> [])
    \<and> (\<forall>s. dict_get spec (lit ''visibility'') = Some (JStr s) \<longrightarrow>
         m_visibility (f_manifest f) =
           (case dict_get visibility_table s of None \<Rightarrow> PUBLIC | Some v \<Rightarrow> v))"
proof -
  have sub: "subscript v k = Inr w \<Longrightarrow> \<exists>d. v = JObj d \<and> dict_get d k = Some w" for v k w
    by (cases v) (auto split: option.splits)
  have dict: "as_dict v = Inr d \<Longrightarrow> v = JObj d" for v d by (cases v) auto
  have str: "str_field v = Inr s \<Longrightarrow> v = JStr s" for v s by (cases v) auto
  from assms obtain mdv nm spec man where
    md: "subscript (JObj cr) (lit ''metadata'') = Inr mdv" and nm: "subscript mdv (lit ''name'') = Inr nm"
    and sp: "as_dict (get_or cr (lit ''spec'') (JObj [])) = Inr spec"
    and man: "manifest_from_cr loads nm spec = Inr man" and f: "f_manifest f = man"
    by (auto simp: feature_from_cr_def Let_def exn_simps)
  from man have nms: "str_field nm = Inr (m_name man)" and ver: "m_version man = lit ''1.0.0''"
    and cap: "m_name man \<noteq> [] \<longrightarrow> m_capability man \<noteq> []"
    and vis: "table_get visibility_table (get_or spec (lit ''visibility'') (JStr (lit ''Public''))) PUBLIC
      = Inr (m_visibility man)"
    by (auto simp: manifest_from_cr_def exn_simps default_capability_capability manifest_defaults_def
        split: if_splits)
  have "m_visibility man = (case dict_get visibility_table s of None \<Rightarrow> PUBLIC | Some v \<Rightarrow> v)"
    if "dict_get spec (lit ''visibility'') = Some (JStr s)" for s
    using vis that by (simp add: get_or_def)
  then show ?thesis using sub [OF md] sub [OF nm] dict [OF sp] str [OF nms] ver cap f by auto
qed

definition sample_cr :: json_obj where
  "sample_cr = [(lit ''metadata'', JObj [(lit ''name'', JStr (lit ''echo''))]),
     (lit ''spec'', JObj [(lit ''version'', JStr (lit ''2.0.0'')), (lit ''visibility'', JStr (lit ''Secret''))])]"

theorem feature_from_cr_fields_witness:
  "\<exists>f. feature_from_cr (\<lambda>s. Inl ValueError) sample_cr = Inr f \<and> f_version f = lit ''1.0.0''
     \<and> m_visibility (f_manifest f) = PUBLIC"
proof -
  obtain f where f: "feature_from_cr (\<lambda>s. Inl ValueError) sample_cr = Inr f"
    and v: "m_visibility (f_manifest f) = PUBLIC"
    by (simp add: feature_from_cr_def manifest_from_cr_def sample_cr_def get_or_def dict_get_def
        schema_of_def visibility_table_def phase_table_def trust_table_def protocol_of_def Let_def
        default_capability_def manifest_defaults_def)
  from feature_from_cr_fields [OF f] f v show ?thesis by blast
qed

text \<open>
  Looking a feature up in Kubernetes turns exactly the API's 404 into an absent feature; any
  other failure of the API is passed on.
\<close>

theorem k8s_get_errors:
  "(k8s_get loads api n = Inr None \<longleftrightarrow> api_get api n = Inl (ApiException 404)) \<and>
   (\<forall>e. api_get api n = Inl e \<and> e \<noteq> ApiException 404 \<longrightarrow> k8s_get loads api n = Inl e)"
  by (auto simp: k8s_get_def exn_simps split: sum.splits exn.splits if_splits)

theorem k8s_get_errors_witness:
  "k8s_get (\<lambda>s. Inl ValueError) \<lparr>api_list = Inl OtherException, api_get = (\<lambda>n. Inl (ApiException 500))\<rparr>
     (lit ''echo'') = Inl (ApiException 500)"
  using k8s_get_errors [of "\<lambda>s. Inl ValueError"
    "\<lparr>api_list = Inl OtherException, api_get = (\<lambda>n. Inl (ApiException 500))\<rparr>" "lit ''echo''"]
  by simp

end
