(* ===== verification/Ranking.thy ===== *)
theory Ranking
  imports Catalog
begin

text \<open>
  The ranking of \<open>gateway/ranking.py\<close>: per-feature outcome counters, the two policies
  (baseline and metrics) and the contract \<open>RankingPolicy\<close> as the locale \<open>ranking_policy\<close>,
  of which both policies, and the one the application selects, are interpretations.
\<close>

section \<open>Metrics\<close>

record feature_metrics =
  fm_invocations :: nat
  fm_successes :: nat
  fm_total_latency_ms :: float64

definition new_metrics :: feature_metrics where
  "new_metrics = \<lparr>fm_invocations = 0, fm_successes = 0, fm_total_latency_ms = 0\<rparr>"

definition success_rate :: "feature_metrics \<Rightarrow> float64 option" where
  "success_rate m =
     (if fm_invocations m \<noteq> 0 then Some (int_div (int (fm_successes m)) (int (fm_invocations m))) else None)"

definition avg_latency_ms :: "feature_metrics \<Rightarrow> float64 option" where
  "avg_latency_ms m =
     (if fm_successes m \<noteq> 0 then Some (fdiv (fm_total_latency_ms m) (fl (of_nat (fm_successes m)))) else None)"

type_synonym metrics_store = "pystr \<rightharpoonup> feature_metrics"

text \<open>\<open>MetricsStore.record\<close>: the lock makes each call one step of the store.\<close>

definition record_outcome :: "metrics_store \<Rightarrow> pystr \<Rightarrow> bool \<Rightarrow> float64 \<Rightarrow> metrics_store" where
  "record_outcome store fid success latency_ms =
     (let m = (case store fid of None \<Rightarrow> new_metrics | Some m \<Rightarrow> m);
          m1 = m\<lparr>fm_invocations := fm_invocations m + 1\<rparr>;
          m2 = (if success then m1\<lparr>fm_successes := fm_successes m1 + 1,
                                   fm_total_latency_ms := fadd (fm_total_latency_ms m1) latency_ms\<rparr>
                else m1) in
      store(fid \<mapsto> m2))"

section \<open>Policies\<close>

fun trust_prior :: "trust_tier \<Rightarrow> float64" where
  "trust_prior OFFICIAL = fl (1 / 10)"
| "trust_prior VERIFIED = fl (5 / 100)"
| "trust_prior COMMUNITY = 0"

definition baseline_score :: "metrics_store \<Rightarrow> feature \<Rightarrow> float64" where
  "baseline_score store f = trust_prior (f_trust f)"

definition baseline_rank :: "metrics_store \<Rightarrow> feature list \<Rightarrow> exn + feature list" where
  "baseline_rank store fs = rank_features fs"

record metrics_policy =
  default_prior :: float64
  latency_weight :: float64

definition metrics_policy_init :: metrics_policy where
  "metrics_policy_init = \<lparr>default_prior = fl (7 / 10), latency_weight = fl (1 / 10)\<rparr>"

definition latency_penalty :: "metrics_policy \<Rightarrow> feature_metrics \<Rightarrow> float64" where
  "latency_penalty p m =
     fmul (fdiv (case avg_latency_ms m of None \<Rightarrow> 0 | Some l \<Rightarrow> l) 1000) (latency_weight p)"

definition metrics_score :: "metrics_policy \<Rightarrow> metrics_store \<Rightarrow> feature \<Rightarrow> float64" where
  "metrics_score p store f =
     (let (base, penalty) =
        (case store (feature_id f) of
           Some m \<Rightarrow> (case success_rate m of
              Some r \<Rightarrow> (r, latency_penalty p m) | None \<Rightarrow> (default_prior p, 0))
         | None \<Rightarrow> (default_prior p, 0)) in
      fsub (fadd base (trust_prior (f_trust f))) penalty)"

text \<open>
  \<open>MetricsPolicy.rank\<close>. The dictionary \<open>baseline\<close> is keyed by object identity; the
  objects of the list are told apart by their position, the first component of a pair.
\<close>

definition baseline_index :: "(nat \<times> feature) list \<Rightarrow> (nat, nat) dict" where
  "baseline_index ranked = dict_of (map (\<lambda>(i, ob). (fst ob, i)) (zip [0..<length ranked] ranked))"

definition metrics_rank :: "metrics_policy \<Rightarrow> metrics_store \<Rightarrow> feature list \<Rightarrow> exn + feature list" where
  "metrics_rank p store fs =
     (let objs = zip [0..<length fs] fs in
      bindE (sortedE (\<lambda>ob. rank_key (snd ob)) objs) (\<lambda>ranked.
      let baseline = baseline_index ranked in
      Inr (map snd (sort_key (\<lambda>ob. (- metrics_score p store (snd ob), the (dict_get baseline (fst ob)))) objs))))"

text \<open>The policy the application selects from its environment.\<close>

datatype policy = BaselinePolicy | MetricsPolicy metrics_policy

fun policy_score :: "policy \<Rightarrow> metrics_store \<Rightarrow> feature \<Rightarrow> float64" where
  "policy_score BaselinePolicy = baseline_score"
| "policy_score (MetricsPolicy p) = metrics_score p"

fun policy_rank :: "policy \<Rightarrow> metrics_store \<Rightarrow> feature list \<Rightarrow> exn + feature list" where
  "policy_rank BaselinePolicy = baseline_rank"
| "policy_rank (MetricsPolicy p) = metrics_rank p"

section \<open>Sorting objects by identity\<close>

lemma map_insort_key_comp: "map h (insort_key (\<lambda>x. k (h x)) x xs) = insort_key k (h x) (map h xs)"
  by (induction xs) auto

lemma map_sort_key_comp: "map h (sort_key (\<lambda>x. k (h x)) xs) = sort_key k (map h xs)"
  by (induction xs) (auto simp: map_insort_key_comp)

lemma baseline_index_get:
  assumes "distinct (map fst ranked)" and "i < length ranked"
  shows "dict_get (baseline_index ranked) (fst (ranked ! i)) = Some i"
proof -
  let ?kvs = "map (\<lambda>(i, ob). (fst ob, i)) (zip [0..<length ranked] ranked)"
  have keys: "map fst ?kvs = map fst ranked"
    by (rule nth_equalityI) auto
  then have eq: "baseline_index ranked = ?kvs"
    using assms(1) unfolding baseline_index_def by (intro dict_of_distinct) (simp only:)
  have "(fst (ranked ! i), i) \<in> set ?kvs"
    using assms(2) by (force simp: set_zip)
  moreover have "dict_ok ?kvs" using keys assms(1) by (simp only: dict_ok_def dict_keys_def)
  ultimately show ?thesis unfolding eq by (rule dict_get_in [rotated])
qed

lemma sort_by_baseline_index:
  assumes "mset ranked = mset objs" and "distinct (map fst ranked)"
  shows "sort_key (\<lambda>ob. the (dict_get (baseline_index ranked) (fst ob))) objs = ranked"
proof -
  let ?pos = "\<lambda>ob. the (dict_get (baseline_index ranked) (fst ob))"
  have pos: "map ?pos ranked = [0..<length ranked]"
    using baseline_index_get [OF assms(2)] by (intro nth_equalityI) auto
  have "distinct (map ?pos ranked)" unfolding pos by simp
  with assms(1) have "sort_key ?pos ranked = sort_key ?pos objs" by (rule sort_key_mset_distinct)
  moreover have "sort_key ?pos ranked = ranked"
    by (rule sort_key_id_if_sorted) (simp add: pos)
  ultimately show ?thesis by simp
qed

text \<open>The metrics order is the stable sort by descending score of the baseline order.\<close>

lemma metrics_rank_eq:
  "metrics_rank p store fs =
     (if list_all version_ok fs
      then Inr (sort_key (\<lambda>f. - metrics_score p store f) (sort_key rkey fs)) else Inl ValueError)"
proof (cases "list_all version_ok fs")
  case True
  let ?objs = "zip [0..<length fs] fs"
  let ?ranked = "sort_key (\<lambda>ob. rkey (snd ob)) ?objs"
  let ?pos = "\<lambda>ob. the (dict_get (baseline_index ?ranked) (fst ob))"
  have fs: "map snd ?objs = fs" by simp
  have r: "sortedE (\<lambda>ob. rank_key (snd ob)) ?objs = Inr ?ranked"
    using True by (intro sortedE_Inr) (auto simp: list_all_iff rank_key_ok dest: set_zip_rightD)
  have "distinct (map fst ?objs)" by simp
  moreover have "mset (map fst ?ranked) = mset (map fst ?objs)" by (simp only: mset_map mset_sort)
  ultimately have d: "distinct (map fst ?ranked)" using mset_eq_imp_distinct_iff by blast
  have "sort_key (\<lambda>ob. (- metrics_score p store (snd ob), ?pos ob)) ?objs =
      sort_key (\<lambda>ob. - metrics_score p store (snd ob)) (sort_key ?pos ?objs)"
    by (rule sort_key_pair)
  also have "sort_key ?pos ?objs = ?ranked" using d by (intro sort_by_baseline_index) simp_all
  finally have s: "map snd (sort_key (\<lambda>ob. (- metrics_score p store (snd ob), ?pos ob)) ?objs) =
      sort_key (\<lambda>f. - metrics_score p store f) (map snd ?ranked)"
    by (simp add: map_sort_key_comp [where h = snd and k = "\<lambda>f. - metrics_score p store f"])
  have "map snd ?ranked = sort_key rkey fs"
    using map_sort_key_comp [where h = snd and k = rkey and xs = ?objs] fs by simp
  with s r True show ?thesis by (simp add: metrics_rank_def Let_def)
next
  case False
  then obtain f where "f \<in> set fs" "\<not> version_ok f" by (auto simp: list_all_iff)
  then obtain i where "i < length fs" "\<not> version_ok (fs ! i)" by (auto simp: in_set_conv_nth)
  moreover from this have "zip [0..<length fs] fs ! i = (i, fs ! i)" by simp
  ultimately have ob: "(i, fs ! i) \<in> set (zip [0..<length fs] fs)" "rank_key (snd (i, fs ! i)) = Inl ValueError"
    by (metis length_zip length_upt min.idem minus_nat.diff_0 nth_mem, simp add: rank_key_bad)
  then obtain e where e: "mapE (\<lambda>ob. rank_key (snd ob)) (zip [0..<length fs] fs) = Inl e"
    using mapE_ex_Inl [OF ob(1), of "\<lambda>ob. rank_key (snd ob)" ValueError] by auto
  then obtain ob where "rank_key (snd ob) = Inl e" by (auto dest: mapE_Inl_source)
  then have "e = ValueError" using rank_key_bad rank_key_ok by (cases "version_ok (snd ob)") auto
  with e False show ?thesis by (simp add: metrics_rank_def sortedE_def Let_def)
qed

section \<open>The contract of a ranking policy\<close>

text \<open>
  A policy gives every feature a score and orders features by descending score, equal scores
  in baseline order; it raises exactly when a version does not parse.
\<close>

locale ranking_policy =
  fixes score :: "metrics_store \<Rightarrow> feature \<Rightarrow> float64"
    and rank :: "metrics_store \<Rightarrow> feature list \<Rightarrow> exn + feature list"
  assumes rank_eq: "rank store fs =
      (if list_all version_ok fs then Inr (sort_key (\<lambda>f. - score store f) (sort_key rkey fs))
       else Inl ValueError)"
begin

lemma rank_mset: "rank store fs = Inr rs \<Longrightarrow> mset rs = mset fs"
  by (auto simp: rank_eq split: if_splits)

lemma rank_set: "rank store fs = Inr rs \<Longrightarrow> set rs = set fs"
  using rank_mset mset_eq_setD by blast

lemma rank_Nil: "rank store fs = Inr [] \<longleftrightarrow> fs = []"
  by (auto simp: rank_eq)

lemma rank_ok: "list_all version_ok fs \<Longrightarrow> \<exists>rs. rank store fs = Inr rs"
  by (simp add: rank_eq)

lemma rank_error: "rank store fs = Inl e \<Longrightarrow> e = ValueError"
  by (auto simp: rank_eq split: if_splits)

lemma rank_descending:
  assumes "rank store fs = Inr rs"
  shows "sorted_wrt (\<lambda>f g. score store g \<le> score store f) rs"
proof -
  have "rs = sort_key (\<lambda>f. - score store f) (sort_key rkey fs)"
    using assms by (auto simp: rank_eq split: if_splits)
  then have "sorted_wrt (\<lambda>f g. - score store f \<le> - score store g) rs"
    by (metis sorted_map sorted_sort_key)
  then show ?thesis by simp
qed

lemma rank_ties:
  "rank store fs = Inr rs \<Longrightarrow>
   filter (\<lambda>f. score store f = c) rs = filter (\<lambda>f. score store f = c) (sort_key rkey fs)"
proof -
  assume "rank store fs = Inr rs"
  then have "rs = sort_key (\<lambda>f. - score store f) (sort_key rkey fs)"
    by (auto simp: rank_eq split: if_splits)
  then show ?thesis
    using sort_key_stable [of "\<lambda>f. - score store f" "- c" "sort_key rkey fs"] by simp
qed

lemma rank_top:
  assumes "rank store fs = Inr (f # rest)" and "g \<in> set fs"
  shows "score store g \<le> score store f"
  using rank_descending [OF assms(1)] rank_set [OF assms(1)] assms(2) by auto

end

lemma trust_prior_order:
  "trust_rank a \<le> trust_rank b \<Longrightarrow> trust_prior b \<le> trust_prior a"
proof -
  have "fl (5 / 100) \<le> fl (1 / 10)" "0 \<le> fl (5 / 100)" "0 \<le> fl (1 / 10)"
    by (auto intro: fl_mono fl_nonneg)
  then show "trust_rank a \<le> trust_rank b \<Longrightarrow> trust_prior b \<le> trust_prior a"
    by (cases a; cases b) auto
qed

lemma fst_rkey: "version_ok f \<Longrightarrow> fst (rkey f) = trust_rank (f_trust f)"
  by (auto simp: version_ok_iff rkey_eq)

lemma sort_by_prior_baseline:
  assumes "list_all version_ok fs" and "\<And>a b. trust_rank a \<le> trust_rank b \<Longrightarrow> s b \<le> (s a :: rat)"
  shows "sort_key (\<lambda>f. - s (f_trust f)) (sort_key rkey fs) = sort_key rkey fs"
proof (rule sort_key_id_if_sorted)
  have "sorted_wrt (\<lambda>f g. rkey f \<le> rkey g) (sort_key rkey fs)"
    using sorted_sort_key [of rkey fs] by (simp only: sorted_map)
  then have "sorted_wrt (\<lambda>f g. - s (f_trust f) \<le> - s (f_trust g)) (sort_key rkey fs)"
  proof (rule sorted_wrt_mono_rel [rotated])
    fix f g
    assume "f \<in> set (sort_key rkey fs)" "g \<in> set (sort_key rkey fs)" and le: "rkey f \<le> rkey g"
    then have "version_ok f" "version_ok g" using assms(1) by (auto simp: list_all_iff)
    with le have "trust_rank (f_trust f) \<le> trust_rank (f_trust g)"
      by (metis fst_rkey less_eq_prod_def less_le)
    then show "- s (f_trust f) \<le> - s (f_trust g)" by (simp add: assms(2))
  qed
  then show "sorted (map (\<lambda>f. - s (f_trust f)) (sort_key rkey fs))" by (simp only: sorted_map)
qed

interpretation baseline: ranking_policy baseline_score baseline_rank
  by unfold_locales
    (auto simp: baseline_rank_def baseline_score_def rank_features_eq sort_by_prior_baseline trust_prior_order)

interpretation metrics: ranking_policy "metrics_score p" "metrics_rank p" for p
  by unfold_locales (rule metrics_rank_eq)

interpretation active: ranking_policy "policy_score pol" "policy_rank pol" for pol
  by unfold_locales (cases pol, simp_all add: baseline.rank_eq metrics.rank_eq)

section \<open>Counters\<close>

definition metrics_ok :: "feature_metrics \<Rightarrow> bool" where
  "metrics_ok m \<longleftrightarrow> 0 < fm_invocations m \<and> fm_successes m \<le> fm_invocations m
     \<and> 0 \<le> fm_total_latency_ms m \<and> (fm_successes m = 0 \<longrightarrow> fm_total_latency_ms m = 0)"

definition store_ok :: "metrics_store \<Rightarrow> bool" where
  "store_ok store \<longleftrightarrow> (\<forall>fid m. store fid = Some m \<longrightarrow> metrics_ok m)"

type_synonym outcome = "pystr \<times> bool \<times> float64"

definition record_all :: "outcome list \<Rightarrow> metrics_store \<Rightarrow> metrics_store" where
  "record_all es store = fold (\<lambda>(fid, success, latency) st. record_outcome st fid success latency) es store"

lemma record_outcome_other: "g \<noteq> fid \<Longrightarrow> record_outcome store fid success l g = store g"
  by (simp add: record_outcome_def Let_def)

lemma record_outcome_same:
  "record_outcome store fid success l fid =
     (let m = (case store fid of None \<Rightarrow> new_metrics | Some m \<Rightarrow> m) in
      Some \<lparr>fm_invocations = fm_invocations m + 1,
            fm_successes = fm_successes m + (if success then 1 else 0),
            fm_total_latency_ms =
              (if success then fadd (fm_total_latency_ms m) l else fm_total_latency_ms m)\<rparr>)"
  by (simp add: record_outcome_def Let_def)

lemma store_ok_empty [simp]: "store_ok Map.empty"
  by (simp add: store_ok_def)

lemma store_ok_record:
  assumes "store_ok store" and "0 \<le> l"
  shows "store_ok (record_outcome store fid success l)"
proof -
  have "metrics_ok m" if m: "record_outcome store fid success l g = Some m" for g m
  proof (cases "g = fid")
    case True
    show ?thesis
    proof (cases "store fid")
      case None
      with m True assms(2) show ?thesis
        by (auto simp: record_outcome_same metrics_ok_def new_metrics_def fadd_def fl_nonneg Let_def)
    next
      case (Some m0)
      then have "metrics_ok m0" using assms(1) by (auto simp: store_ok_def)
      with m True Some assms(2) show ?thesis
        by (auto simp: record_outcome_same metrics_ok_def fadd_def fl_nonneg Let_def)
    qed
  next
    case False
    with m assms(1) show ?thesis by (auto simp: record_outcome_other store_ok_def)
  qed
  then show ?thesis by (simp add: store_ok_def)
qed

lemma record_all_Nil [simp]: "record_all [] store = store"
  by (simp add: record_all_def)

lemma record_all_Cons [simp]:
  "record_all ((fid, success, l) # es) store = record_all es (record_outcome store fid success l)"
  by (simp add: record_all_def)

lemma store_ok_record_all:
  "store_ok store \<Longrightarrow> (\<And>e. e \<in> set es \<Longrightarrow> 0 \<le> snd (snd e)) \<Longrightarrow> store_ok (record_all es store)"
proof (induction es arbitrary: store)
  case (Cons e es)
  obtain fid b l where e: "e = (fid, b, l)" by (cases e)
  have "0 \<le> l" using Cons.prems(2) [of e] e by simp
  then have "store_ok (record_outcome store fid b l)" using Cons.prems(1) by (intro store_ok_record)
  then show ?case using Cons.IH Cons.prems(2) e by auto
qed simp

definition counts :: "metrics_store \<Rightarrow> pystr \<Rightarrow> nat \<times> nat" where
  "counts store fid = (case store fid of None \<Rightarrow> (0, 0) | Some m \<Rightarrow> (fm_invocations m, fm_successes m))"

lemma counts_record:
  "counts (record_outcome store fid success l) g =
     (if g = fid then (fst (counts store g) + 1, snd (counts store g) + (if success then 1 else 0))
      else counts store g)"
  by (auto simp: counts_def record_outcome_def Let_def new_metrics_def split: option.splits)

lemma counts_record_all:
  "counts (record_all es store) fid =
     (fst (counts store fid) + length (filter (\<lambda>e. fst e = fid) es),
      snd (counts store fid) + length (filter (\<lambda>e. fst e = fid \<and> fst (snd e)) es))"
proof (induction es arbitrary: store)
  case (Cons e es)
  obtain f b l where "e = (f, b, l)" by (cases e)
  with Cons show ?case by (auto simp: counts_record)
qed simp

section \<open>Scores\<close>

lemma success_rate_range:
  "metrics_ok m \<Longrightarrow> \<exists>r. success_rate m = Some r \<and> 0 \<le> r \<and> r \<le> 1"
  by (auto simp: metrics_ok_def success_rate_def int_div_def intro!: fl_nonneg fl_le_1)

lemma avg_latency_nonneg: "metrics_ok m \<Longrightarrow> avg_latency_ms m = Some l \<Longrightarrow> 0 \<le> l"
  by (auto simp: metrics_ok_def avg_latency_ms_def fdiv_def intro!: fl_nonneg divide_nonneg_nonneg
      split: if_splits)

lemma latency_penalty_nonneg:
  "metrics_ok m \<Longrightarrow> 0 \<le> latency_weight p \<Longrightarrow> 0 \<le> latency_penalty p m"
  by (auto simp: latency_penalty_def fmul_def fdiv_def avg_latency_nonneg
      intro!: fl_nonneg mult_nonneg_nonneg divide_nonneg_nonneg split: option.splits)

lemma score_known:
  "store (feature_id f) = Some m \<Longrightarrow> success_rate m = Some r \<Longrightarrow>
   metrics_score p store f = fsub (fadd r (trust_prior (f_trust f))) (latency_penalty p m)"
  by (simp add: metrics_score_def)

lemma score_unknown:
  "store (feature_id f) = None \<Longrightarrow>
   metrics_score p store f = fsub (fadd (default_prior p) (trust_prior (f_trust f))) 0"
  by (simp add: metrics_score_def)

lemma fadd_mono: "a \<le> b \<Longrightarrow> fadd a c \<le> fadd b c"
  by (simp add: fadd_def fl_mono)

lemma fsub_mono: "a \<le> b \<Longrightarrow> d \<le> c \<Longrightarrow> fsub a c \<le> fsub b d"
  by (simp add: fsub_def fl_mono)

lemma trust_prior_bounds: "0 \<le> trust_prior t" "trust_prior t \<le> fl (1 / 10)"
  using trust_prior_order [of t COMMUNITY] trust_prior_order [of OFFICIAL t] by (cases t; simp)+

lemma int_div_mono_den: "0 < n \<Longrightarrow> int_div (int s) (int (n + 1)) \<le> int_div (int s) (int n)"
  unfolding int_div_def by (intro fl_mono) (simp add: divide_left_mono)

lemma record_failure_metrics:
  "store fid = Some m \<Longrightarrow>
   record_outcome store fid False l fid = Some (m\<lparr>fm_invocations := fm_invocations m + 1\<rparr>)"
  by (simp add: record_outcome_def)

lemma fl_near: "\<bar>x\<bar> < 2 \<Longrightarrow> x - 1 / 2 ^ 53 \<le> fl x \<and> fl x \<le> x + 1 / 2 ^ 53"
  using fl_error_abs [of x] by linarith

lemma fl_relative: "\<bar>fl x - x\<bar> \<le> (\<bar>x\<bar> + 1) / 2 ^ 53"
proof (cases "x = 0")
  case False
  have p: "2 powi ilog2 \<bar>x\<bar> \<le> \<bar>x\<bar>" using False ilog2_bounds by simp
  have e: "(2::rat) powi (- 52) = 1 / 2 ^ 52" by (simp only: power_int_minus_divide power_int_numeral)
  have "(2::rat) powi ulp_exp x \<le> (\<bar>x\<bar> + 1) / 2 ^ 52"
  proof (cases "- 1074 \<le> ilog2 \<bar>x\<bar> - 52")
    case True
    then have "ulp_exp x = ilog2 \<bar>x\<bar> + (- 52)" by (simp add: ulp_exp_def)
    then have "(2::rat) powi ulp_exp x = 2 powi ilog2 \<bar>x\<bar> * 2 powi (- 52)"
      using power_int_add [of "2::rat" "ilog2 \<bar>x\<bar>" "- 52"] by simp
    then show ?thesis using p unfolding e by (simp add: divide_right_mono)
  next
    case False
    then have "ulp_exp x \<le> - 52" by (simp add: ulp_exp_def)
    then have "(2::rat) powi ulp_exp x \<le> 2 powi (- 52)" by (rule powi_mono)
    moreover have "(1::rat) / 2 ^ 52 \<le> (\<bar>x\<bar> + 1) / 2 ^ 52" by (rule divide_right_mono) simp_all
    ultimately show ?thesis unfolding e by linarith
  qed
  with fl_error [of x] show ?thesis by simp
qed simp

text \<open>What the two roundings of a score cost, in terms of the latency penalty.\<close>

lemma score_error:
  assumes "0 \<le> r" "r \<le> 1" "0 \<le> t" "t \<le> 1 / 10 + 1 / 2 ^ 53" "0 \<le> (L::rat)"
  shows "\<bar>fsub (fadd r t) L - (r + t - L)\<bar> \<le> (7 + L) / 2 ^ 53"
proof -
  have eps: "(1::rat) / 2 ^ 53 \<le> 1 / 10" by simp
  have rt: "\<bar>r + t\<bar> + 1 \<le> 3" using assms eps by linarith
  have a: "\<bar>fadd r t - (r + t)\<bar> \<le> 3 / 2 ^ 53"
    unfolding fadd_def by (rule order_trans [OF fl_relative divide_right_mono [OF rt]]) simp
  have "\<bar>fadd r t - L\<bar> + 1 \<le> 4 + L" using a assms rt eps by linarith
  then have "\<bar>fsub (fadd r t) L - (fadd r t - L)\<bar> \<le> (4 + L) / 2 ^ 53"
    unfolding fsub_def by (rule order_trans [OF fl_relative divide_right_mono]) simp
  moreover have "(7 + L) / 2 ^ 53 = 3 / 2 ^ 53 + (4 + L) / 2 ^ 53" by (simp add: field_simps)
  ultimately show ?thesis using a by linarith
qed

lemma trust_prior_le: "trust_prior t \<le> 1 / 10 + 1 / 2 ^ 53"
  using trust_prior_bounds(2) [of t] fl_near [of "1 / 10"] by simp

text \<open>
  Cold start: before any outcome is recorded the metrics policy ranks exactly as the
  static order does, whatever its prior and its latency weight, on every input, raising
  included.
\<close>

lemma metrics_rank_cold_start: "metrics_rank p Map.empty fs = rank_features fs"
proof (cases "list_all version_ok fs")
  case True
  let ?s = "\<lambda>t. fsub (fadd (default_prior p) (trust_prior t)) 0"
  have "?s b \<le> ?s a" if "trust_rank a \<le> trust_rank b" for a b
    using trust_prior_order [OF that] by (simp add: fadd_def fsub_def fl_mono)
  with True have "sort_key (\<lambda>f. - ?s (f_trust f)) (sort_key rkey fs) = sort_key rkey fs"
    by (rule sort_by_prior_baseline)
  then show ?thesis using True by (simp add: metrics_rank_eq rank_features_eq score_unknown)
next
  case False
  then show ?thesis by (simp add: metrics_rank_eq rank_features_eq)
qed

section \<open>Properties\<close>

text \<open>
  C12. Whatever the policy and the recorded outcomes, ranking succeeds on parseable versions
  and returns a rearrangement of the providers in descending score, equal scores in the
  static order of \<open>rank_features\<close>; the only exception it can raise is \<open>ValueError\<close>.
\<close>

theorem policy_rank_correct:
  assumes "list_all version_ok fs"
  shows "\<exists>rs bs. policy_rank pol store fs = Inr rs \<and> rank_features fs = Inr bs \<and> mset rs = mset fs
    \<and> sorted_wrt (\<lambda>f g. policy_score pol store g \<le> policy_score pol store f) rs
    \<and> (\<forall>c. filter (\<lambda>f. policy_score pol store f = c) rs = filter (\<lambda>f. policy_score pol store f = c) bs)"
proof -
  obtain rs where r: "policy_rank pol store fs = Inr rs" using active.rank_ok [OF assms] by blast
  have "rank_features fs = Inr (sort_key rkey fs)" using assms by (simp add: rank_features_eq)
  with r active.rank_mset [OF r] active.rank_descending [OF r] active.rank_ties [OF r]
  show ?thesis by blast
qed

lemma sample_version_ok:
  "list_all version_ok [sample_feature ''g'' ''globex'' COMMUNITY ''1.2.0'',
      sample_feature ''a'' ''acme'' VERIFIED ''1.0.0'']"
  using sample_semver by (auto simp: sample_feature_def version_ok_iff)

theorem policy_rank_correct_witness:
  "\<exists>rs. policy_rank (MetricsPolicy metrics_policy_init) Map.empty
      [sample_feature ''g'' ''globex'' COMMUNITY ''1.2.0'', sample_feature ''a'' ''acme'' VERIFIED ''1.0.0''] = Inr rs
    \<and> sorted_wrt (\<lambda>f g. policy_score (MetricsPolicy metrics_policy_init) Map.empty g
        \<le> policy_score (MetricsPolicy metrics_policy_init) Map.empty f) rs"
  using policy_rank_correct [OF sample_version_ok, of "MetricsPolicy metrics_policy_init" Map.empty]
  by blast

text \<open>
  C18. The counters of the store are exact: after any sequence of recorded outcomes the
  invocations of a feature have grown by the number of its outcomes and its successes by the
  number of its successful ones, so they do not depend on the order in which the outcomes
  of concurrent requests arrive.
\<close>

theorem record_counts:
  "counts (record_all es store) fid =
     (fst (counts store fid) + size {#e \<in># mset es. fst e = fid#},
      snd (counts store fid) + size {#e \<in># mset es. fst e = fid \<and> fst (snd e)#})"
  unfolding counts_record_all by (simp flip: mset_filter)

text \<open>
  C19. Starting from the empty store, any sequence of outcomes with non-negative latencies
  leaves every recorded feature with an observed success rate between 0 and 1 and a
  non-negative mean latency, so that its score is at most the rate plus the trust prior.
\<close>

theorem recorded_rates_in_range:
  assumes "\<And>e. e \<in> set es \<Longrightarrow> 0 \<le> snd (snd e)" and "0 \<le> latency_weight p"
    and "record_all es Map.empty (feature_id f) = Some m"
  shows "\<exists>r. success_rate m = Some r \<and> 0 \<le> r \<and> r \<le> 1
    \<and> (\<forall>l. avg_latency_ms m = Some l \<longrightarrow> 0 \<le> l)
    \<and> metrics_score p (record_all es Map.empty) f \<le> fadd r (trust_prior (f_trust f))"
proof -
  have ok: "metrics_ok m"
    using store_ok_record_all [OF store_ok_empty assms(1)] assms(3) by (auto simp: store_ok_def)
  obtain r where r: "success_rate m = Some r" "0 \<le> r" "r \<le> 1" using success_rate_range [OF ok] by blast
  have "fsub (fadd r (trust_prior (f_trust f))) (latency_penalty p m)
      \<le> fsub (fadd r (trust_prior (f_trust f))) 0"
    using latency_penalty_nonneg [OF ok assms(2)] by (intro fsub_mono) simp_all
  then have "metrics_score p (record_all es Map.empty) f \<le> fadd r (trust_prior (f_trust f))"
    unfolding score_known [where store = "record_all es Map.empty" and f = f and m = m and r = r, OF assms(3) r(1)] by (simp add: fsub_def fadd_def)
  with r avg_latency_nonneg [OF ok] show ?thesis by blast
qed

definition sample_store :: metrics_store where
  "sample_store = record_all
     [(feature_id (sample_feature ''a'' ''acme'' VERIFIED ''1.0.0''), False, 0),
      (feature_id (sample_feature ''g'' ''globex'' COMMUNITY ''1.2.0''), True, 5)] Map.empty"

lemma sample_store_entries:
  "sample_store (feature_id (sample_feature ''a'' ''acme'' VERIFIED ''1.0.0'')) =
     Some \<lparr>fm_invocations = 1, fm_successes = 0, fm_total_latency_ms = 0\<rparr>"
  "sample_store (feature_id (sample_feature ''g'' ''globex'' COMMUNITY ''1.2.0'')) =
     Some \<lparr>fm_invocations = 1, fm_successes = 1, fm_total_latency_ms = 5\<rparr>"
  by code_simp+

theorem recorded_rates_in_range_witness:
  "\<exists>r. success_rate \<lparr>fm_invocations = 1, fm_successes = 1, fm_total_latency_ms = 5\<rparr> = Some r \<and> r \<le> 1
    \<and> metrics_score metrics_policy_init sample_store (sample_feature ''g'' ''globex'' COMMUNITY ''1.2.0'')
      \<le> fadd r (trust_prior COMMUNITY)"
proof -
  have "0 \<le> latency_weight metrics_policy_init" by (simp add: metrics_policy_init_def fl_nonneg)
  from recorded_rates_in_range [OF _ this, where f = "sample_feature ''g'' ''globex'' COMMUNITY ''1.2.0''",
      OF _ sample_store_entries(2) [unfolded sample_store_def]]
  obtain r where "success_rate \<lparr>fm_invocations = 1, fm_successes = 1, fm_total_latency_ms = 5\<rparr> = Some r"
      "r \<le> 1" "metrics_score metrics_policy_init sample_store (sample_feature ''g'' ''globex'' COMMUNITY ''1.2.0'')
      \<le> fadd r (trust_prior (f_trust (sample_feature ''g'' ''globex'' COMMUNITY ''1.2.0'')))"
    unfolding sample_store_def by force
  then show ?thesis by (auto simp: sample_feature_def)
qed

text \<open>
  Recording a failed invocation of a feature never raises its score and leaves the score
  of every feature with another id as it was.
\<close>

theorem failure_never_raises_score:
  assumes "store_ok store" and "0 \<le> default_prior p"
  shows "metrics_score p (record_outcome store (feature_id f) False l) f \<le> metrics_score p store f
    \<and> (\<forall>g. feature_id g \<noteq> feature_id f \<longrightarrow>
          metrics_score p (record_outcome store (feature_id f) False l) g = metrics_score p store g)"
proof
  let ?store' = "record_outcome store (feature_id f) False l"
  show "metrics_score p ?store' f \<le> metrics_score p store f"
  proof (cases "store (feature_id f)")
    case None
    then have "?store' (feature_id f) = Some (new_metrics\<lparr>fm_invocations := 1\<rparr>)"
      by (simp add: record_outcome_def new_metrics_def)
    then have "metrics_score p ?store' f = fsub (fadd 0 (trust_prior (f_trust f))) 0"
      by (simp add: metrics_score_def success_rate_def latency_penalty_def avg_latency_ms_def
          new_metrics_def int_div_def fdiv_def fmul_def)
    moreover have "\<dots> \<le> fsub (fadd (default_prior p) (trust_prior (f_trust f))) 0"
      using assms(2) by (intro fsub_mono fadd_mono) simp_all
    ultimately show ?thesis using None by (simp add: score_unknown)
  next
    case (Some m)
    let ?m' = "m\<lparr>fm_invocations := fm_invocations m + 1\<rparr>"
    have pos: "0 < fm_invocations m" using assms(1) Some by (auto simp: store_ok_def metrics_ok_def)
    let ?r = "int_div (int (fm_successes m)) (int (fm_invocations m))"
    let ?r' = "int_div (int (fm_successes m)) (int (fm_invocations m + 1))"
    have "latency_penalty p ?m' = latency_penalty p m" by (simp add: latency_penalty_def avg_latency_ms_def)
    moreover have "success_rate m = Some ?r" "success_rate ?m' = Some ?r'"
      using pos by (simp_all add: success_rate_def)
    moreover have "fsub (fadd ?r' t) c \<le> fsub (fadd ?r t) c" for t c
      using int_div_mono_den [OF pos] by (intro fsub_mono fadd_mono) simp_all
    ultimately show ?thesis
      using Some record_failure_metrics [where store = store and l = l and fid = "feature_id f", OF Some] by (simp add: score_known)
  qed
  show "\<forall>g. feature_id g \<noteq> feature_id f \<longrightarrow> metrics_score p ?store' g = metrics_score p store g"
    by (simp add: metrics_score_def record_outcome_other)
qed

theorem failure_never_raises_score_witness:
  "metrics_score metrics_policy_init
      (record_outcome Map.empty (feature_id (sample_feature ''a'' ''acme'' VERIFIED ''1.0.0'')) False 0)
      (sample_feature ''a'' ''acme'' VERIFIED ''1.0.0'')
    \<le> metrics_score metrics_policy_init Map.empty (sample_feature ''a'' ''acme'' VERIFIED ''1.0.0'')"
proof -
  have "0 \<le> default_prior metrics_policy_init" by (simp add: metrics_policy_init_def fl_nonneg)
  from failure_never_raises_score [OF store_ok_empty this] show ?thesis by blast
qed

text \<open>
  C17. Observed success beats trust: a provider whose success rate less its latency penalty
  is behind that of another one by a tenth and the slack of the rounding, which is less than
  \<open>2 ^ -49\<close> for each unit of penalty, is not ranked first, whatever the trust tiers and however
  large the penalties are. Both have recorded outcomes.
\<close>

theorem success_gap_beats_trust:
  assumes "store_ok store" and "0 \<le> latency_weight p"
    and "store (feature_id f) = Some mf" "store (feature_id g) = Some mg"
    and "success_rate mf = Some rf" "success_rate mg = Some rg"
    and "rf - latency_penalty p mf + 1 / 10 + (1 + latency_penalty p mf + latency_penalty p mg) / 2 ^ 49
      \<le> rg - latency_penalty p mg"
    and "f \<in> set fs" "g \<in> set fs" "metrics_rank p store fs = Inr rs"
  shows "hd rs \<noteq> f"
proof -
  let ?F = "latency_penalty p mf" and ?G = "latency_penalty p mg"
  have ok: "metrics_ok mf" "metrics_ok mg" using assms(1,3,4) by (auto simp: store_ok_def)
  have range: "0 \<le> rf" "rf \<le> 1" "0 \<le> rg" "rg \<le> 1"
    using success_rate_range [OF ok(1)] success_rate_range [OF ok(2)] assms(5,6) by auto
  have pen: "0 \<le> ?G" "0 \<le> ?F"
    using ok assms(2) by (simp_all add: latency_penalty_nonneg)
  have f: "\<bar>metrics_score p store f - (rf + trust_prior (f_trust f) - ?F)\<bar> \<le> (7 + ?F) / 2 ^ 53"
    unfolding score_known [where store = store and f = f and m = mf and r = rf, OF assms(3,5)]
    by (rule score_error [OF range(1,2) trust_prior_bounds(1) trust_prior_le pen(2)])
  have g: "\<bar>metrics_score p store g - (rg + trust_prior (f_trust g) - ?G)\<bar> \<le> (7 + ?G) / 2 ^ 53"
    unfolding score_known [where store = store and f = g and m = mg and r = rg, OF assms(4,6)]
    by (rule score_error [OF range(3,4) trust_prior_bounds(1) trust_prior_le pen(1)])
  have "(7 + ?F) / 2 ^ 53 + (7 + ?G) / 2 ^ 53 + 1 / 2 ^ 53 < (1 + ?F + ?G) / 2 ^ 49"
    using pen by (simp add: field_simps)
  then have "metrics_score p store f < metrics_score p store g"
    using f g assms(7) trust_prior_le [of "f_trust f"] trust_prior_bounds(1) [of "f_trust g"] by linarith
  moreover from assms(9) metrics.rank_set [OF assms(10)] obtain h t where "rs = h # t" by (cases rs) auto
  ultimately show ?thesis using metrics.rank_top [of p store fs h t g] assms(9,10) by auto
qed

theorem success_gap_beats_trust_witness:
  "\<exists>rs. metrics_rank metrics_policy_init sample_store
      [sample_feature ''a'' ''acme'' VERIFIED ''1.0.0'', sample_feature ''g'' ''globex'' COMMUNITY ''1.2.0''] = Inr rs
    \<and> hd rs \<noteq> sample_feature ''a'' ''acme'' VERIFIED ''1.0.0''"
proof -
  let ?a = "sample_feature ''a'' ''acme'' VERIFIED ''1.0.0''"
  let ?g = "sample_feature ''g'' ''globex'' COMMUNITY ''1.2.0''"
  let ?ma = "\<lparr>fm_invocations = 1, fm_successes = 0, fm_total_latency_ms = 0\<rparr>"
  let ?mg = "\<lparr>fm_invocations = 1, fm_successes = 1, fm_total_latency_ms = 5\<rparr>"
  have ok: "store_ok sample_store" unfolding sample_store_def by (rule store_ok_record_all) auto
  have w: "0 \<le> latency_weight metrics_policy_init" by (simp add: metrics_policy_init_def fl_nonneg)
  have r: "success_rate ?ma = Some 0" "success_rate ?mg = Some 1" by code_simp+
  have gap: "0 - latency_penalty metrics_policy_init ?ma + 1 / 10
        + (1 + latency_penalty metrics_policy_init ?ma + latency_penalty metrics_policy_init ?mg) / 2 ^ 49
      \<le> 1 - latency_penalty metrics_policy_init ?mg" by code_simp
  have "list_all version_ok [?a, ?g]" using sample_version_ok by simp
  then obtain rs where rs: "metrics_rank metrics_policy_init sample_store [?a, ?g] = Inr rs"
    using metrics.rank_ok by blast
  have "hd rs \<noteq> ?a"
    by (rule success_gap_beats_trust [OF ok w sample_store_entries r gap _ _ rs]) simp_all
  with rs show ?thesis by blast
qed

end
