(* ===== verification/Effects.thy ===== *)
theory Effects
  imports Models
begin

text \<open>
  Effects. A stateful operation maps a state to its result, an exception or a value, and the
  new state; an exception keeps the changes made before it, as in Python. The section on
  bounds gives the rules by which the components show what an operation can do to its state.
  The clock is the monotonic counter behind \<open>time.perf_counter\<close>.
\<close>

section \<open>State and exceptions\<close>

type_synonym ('s, 'a) io = "'s \<Rightarrow> (exn + 'a) \<times> 's"

definition returnM :: "'a \<Rightarrow> ('s, 'a) io" where
  "returnM x s = (Inr x, s)"

definition raiseM :: "exn \<Rightarrow> ('s, 'a) io" where
  "raiseM e s = (Inl e, s)"

definition bindM :: "('s, 'a) io \<Rightarrow> ('a \<Rightarrow> ('s, 'b) io) \<Rightarrow> ('s, 'b) io" where
  "bindM m k s = (case m s of (Inl e, s') \<Rightarrow> (Inl e, s') | (Inr x, s') \<Rightarrow> k x s')"

text \<open>\<open>try: m except e: h e\<close>, where \<open>h\<close> answers \<open>None\<close> to the exceptions it does not name.\<close>

definition tryM :: "('s, 'a) io \<Rightarrow> (exn \<Rightarrow> ('s, 'a) io option) \<Rightarrow> ('s, 'a) io" where
  "tryM m h s =
     (case m s of
        (Inl e, s') \<Rightarrow> (case h e of None \<Rightarrow> (Inl e, s') | Some k \<Rightarrow> k s')
      | (Inr x, s') \<Rightarrow> (Inr x, s'))"

text \<open>\<open>try: m finally: f\<close>: what \<open>f\<close> raises replaces the outcome of \<open>m\<close>.\<close>

definition finallyM :: "('s, 'a) io \<Rightarrow> ('s, unit) io \<Rightarrow> ('s, 'a) io" where
  "finallyM m f s =
     (case m s of (r, s') \<Rightarrow> (case f s' of (Inl e, s'') \<Rightarrow> (Inl e, s'') | (Inr _, s'') \<Rightarrow> (r, s'')))"

text \<open>A computation without effect on the state.\<close>

definition liftE :: "exn + 'a \<Rightarrow> ('s, 'a) io" where
  "liftE r s = (r, s)"

named_theorems io_simps \<open>running an operation on a state\<close>

lemma returnM_run [io_simps]: "returnM x s = (Inr x, s)"
  by (simp add: returnM_def)

lemma raiseM_run [io_simps]: "raiseM e s = (Inl e, s)"
  by (simp add: raiseM_def)

lemma liftE_run [io_simps]: "liftE r s = (r, s)"
  by (simp add: liftE_def)

lemma bindM_Inr: "m s = (Inr x, s') \<Longrightarrow> bindM m k s = k x s'"
  by (simp add: bindM_def)

lemma bindM_Inl: "m s = (Inl e, s') \<Longrightarrow> bindM m k s = (Inl e, s')"
  by (simp add: bindM_def)

lemma bindM_liftE [io_simps]:
  "bindM (liftE r) k s = (case r of Inl e \<Rightarrow> (Inl e, s) | Inr x \<Rightarrow> k x s)"
  by (simp add: bindM_def liftE_def split: sum.splits)

lemma bindM_eq_Inr:
  "bindM m k s = (Inr y, s'') \<longleftrightarrow> (\<exists>x s'. m s = (Inr x, s') \<and> k x s' = (Inr y, s''))"
  by (auto simp: bindM_def split: prod.splits sum.splits)

section \<open>Bounds on effects\<close>

text \<open>
  \<open>moves R m\<close>: whatever its result, \<open>m\<close> moves the state along \<open>R\<close>. For a reflexive and
  transitive \<open>R\<close> the bound passes through sequencing and exception handling.
\<close>

definition moves :: "('s \<Rightarrow> 's \<Rightarrow> bool) \<Rightarrow> ('s, 'a) io \<Rightarrow> bool" where
  "moves R m \<longleftrightarrow> (\<forall>s. R s (snd (m s)))"

lemma movesD: "moves R m \<Longrightarrow> m s = (r, s') \<Longrightarrow> R s s'"
  by (metis snd_conv moves_def)

locale effect_bound =
  fixes R :: "'s \<Rightarrow> 's \<Rightarrow> bool"
  assumes R_refl: "R s s"
    and R_trans: "R s t \<Longrightarrow> R t u \<Longrightarrow> R s u"
begin

lemma moves_return: "moves R (returnM x)"
  by (simp add: moves_def returnM_def R_refl)

lemma moves_raise: "moves R (raiseM e)"
  by (simp add: moves_def raiseM_def R_refl)

lemma moves_lift: "moves R (liftE r)"
  by (simp add: moves_def liftE_def R_refl)

lemma moves_bind: "moves R m \<Longrightarrow> (\<And>x. moves R (k x)) \<Longrightarrow> moves R (bindM m k)"
  unfolding moves_def bindM_def
  by (auto split: prod.splits sum.splits) (metis R_trans snd_conv)+

lemma moves_try:
  "moves R m \<Longrightarrow> (\<And>e k. h e = Some k \<Longrightarrow> moves R k) \<Longrightarrow> moves R (tryM m h)"
  unfolding moves_def tryM_def
  by (auto split: prod.splits sum.splits option.splits) (metis R_trans snd_conv)+

lemma moves_if: "(b \<Longrightarrow> moves R m) \<Longrightarrow> (\<not> b \<Longrightarrow> moves R n) \<Longrightarrow> moves R (if b then m else n)"
  by simp

lemma moves_option:
  "(x = None \<Longrightarrow> moves R m) \<Longrightarrow> (\<And>y. x = Some y \<Longrightarrow> moves R (k y)) \<Longrightarrow>
   moves R (case x of None \<Rightarrow> m | Some y \<Rightarrow> k y)"
  by (simp split: option.splits)

lemmas moves_intros = moves_return moves_raise moves_lift moves_bind moves_try moves_if moves_option

end

section \<open>The clock\<close>

text \<open>
  The world outside the gateway: the counter in nanoseconds, the time that passes before
  each further reading (any natural number, so the counter never runs backwards), and the
  state of everything else the gateway reaches.
\<close>

record 'e world =
  w_ns :: int
  w_delays :: "nat \<Rightarrow> nat"
  w_reads :: nat
  w_env :: 'e

definition perf_counter :: "('e world, float64) io" where
  "perf_counter w =
     (let t = w_ns w + int (w_delays w (w_reads w)) in
      (Inr (fdiv (fl (of_int t)) (10 ^ 9)), w\<lparr>w_ns := t, w_reads := w_reads w + 1\<rparr>))"

text \<open>An operation on the rest of the world.\<close>

definition on_env :: "('e, 'a) io \<Rightarrow> ('e world, 'a) io" where
  "on_env m w = (let (r, e) = m (w_env w) in (r, w\<lparr>w_env := e\<rparr>))"

lemma fdiv_mono: "a \<le> b \<Longrightarrow> 0 < c \<Longrightarrow> fdiv a c \<le> fdiv b c"
  by (simp add: fdiv_def fl_mono divide_right_mono)

lemma perf_counter_mono:
  assumes "perf_counter w = (Inr t0, w0)" "w_ns w0 \<le> w_ns w1" "perf_counter w1 = (Inr t1, w2)"
  shows "t0 \<le> t1"
proof -
  have "t0 = fdiv (fl (of_int (w_ns w0))) (10 ^ 9)" "t1 = fdiv (fl (of_int (w_ns w2))) (10 ^ 9)"
    "w_ns w1 \<le> w_ns w2"
    using assms(1,3) by (auto simp: perf_counter_def Let_def)
  with assms(2) show ?thesis by (auto intro!: fdiv_mono fl_mono)
qed

lemma on_env_ns: "on_env m w = (r, w') \<Longrightarrow> w_ns w' = w_ns w"
  by (auto simp: on_env_def split: prod.splits)

lemma round_half_even_nonneg: "0 \<le> x \<Longrightarrow> 0 \<le> round_half_even x"
  using round_half_even_mono [of 0 x] round_half_even_of_int [of 0] by simp

lemma py_round_nonneg: "0 \<le> x \<Longrightarrow> 0 \<le> py_round x n"
  by (simp add: py_round_def fl_nonneg round_half_even_nonneg)

end
