(* ===== verification/Composer.thy ===== *)
theory Composer
  imports Effects Versions
begin

text \<open>
  Composition, \<open>gateway/composer.py\<close> and \<open>gateway/composites.py\<close>: composites, references
  into the run context and the pipeline runner over an injected capability invoker, whose
  contract is the locale \<open>capability_invoker\<close>. The step relation \<open>executes\<close> says what a
  run means; the runner is shown to compute it.
\<close>

section \<open>Composites\<close>

record step =
  s_name :: pystr
  s_capability :: pystr
  s_vendor :: "pystr option"
  s_version :: "pystr option"
  s_inputs :: "(pystr, pystr) dict"

record composite =
  k_name :: pystr
  k_capability :: pystr
  k_description :: pystr
  k_input_schema :: json_obj
  k_steps :: "step list"
  k_output :: "(pystr, pystr) dict"

text \<open>\<open>model_post_init\<close>\<close>

definition post_init :: "composite \<Rightarrow> composite" where
  "post_init k = (if k_capability k = [] then k\<lparr>k_capability := k_name k\<rparr> else k)"

record composite_summary =
  q_name :: pystr
  q_capability :: pystr
  q_description :: pystr
  q_steps :: "(pystr \<times> pystr) list"

record trace_entry =
  t_step :: pystr
  t_capability :: pystr
  t_output :: json_obj

record composite_result =
  cr_composite :: pystr
  cr_output :: json_obj
  cr_trace :: "trace_entry list"
  cr_error :: "pystr option"

text \<open>A capability invoker answers with an output or a message, or raises.\<close>

type_synonym 's capability_invoke =
  "pystr \<Rightarrow> json_obj \<Rightarrow> pystr option \<Rightarrow> pystr option \<Rightarrow> ('s, json_obj option \<times> pystr option) io"

section \<open>References\<close>

fun walk :: "pystr list \<Rightarrow> json \<Rightarrow> json option" where
  "walk [] cur = Some cur"
| "walk (part # parts) (JObj d) = (case dict_get d part of None \<Rightarrow> None | Some v \<Rightarrow> walk parts v)"
| "walk (part # parts) cur = None"

text \<open>\<open>_resolve_ref\<close>, a value or an error message.\<close>

definition resolve_ref :: "pystr \<Rightarrow> json_obj \<Rightarrow> pystr + json" where
  "resolve_ref ref ctx =
     (case walk (split_on dot ref) (JObj ctx) of
        None \<Rightarrow> Inl (lit ''unresolved reference: '' @ quoted ref)
      | Some v \<Rightarrow> Inr v)"

text \<open>The loops \<open>for k, ref in refs.items(): ... acc[k] = val\<close>.\<close>

fun resolve_refs :: "(pystr \<times> pystr) list \<Rightarrow> json_obj \<Rightarrow> json_obj \<Rightarrow> pystr + json_obj" where
  "resolve_refs [] ctx acc = Inr acc"
| "resolve_refs ((k, ref) # refs) ctx acc =
     (case resolve_ref ref ctx of
        Inl err \<Rightarrow> Inl err
      | Inr v \<Rightarrow> resolve_refs refs ctx (dict_set k v acc))"

section \<open>Composer.run\<close>

definition fail_result :: "composite \<Rightarrow> trace_entry list \<Rightarrow> pystr \<Rightarrow> composite_result" where
  "fail_result k trace message =
     \<lparr>cr_composite = k_name k, cr_output = [], cr_trace = trace, cr_error = Some message\<rparr>"

definition step_message :: "step \<Rightarrow> pystr \<Rightarrow> pystr" where
  "step_message st err = lit ''step '' @ quoted (s_name st) @ lit '': '' @ err"

text \<open>The loop over the steps: a result when the run fails, else the context and the trace.\<close>

fun run_steps ::
  "'s capability_invoke \<Rightarrow> composite \<Rightarrow> step list \<Rightarrow> json_obj \<Rightarrow> trace_entry list \<Rightarrow>
   ('s, composite_result + json_obj \<times> trace_entry list) io" where
  "run_steps invoke k [] ctx trace = returnM (Inr (ctx, trace))"
| "run_steps invoke k (st # sts) ctx trace =
     (case resolve_refs (s_inputs st) ctx [] of
        Inl err \<Rightarrow> returnM (Inl (fail_result k trace (step_message st err)))
      | Inr step_input \<Rightarrow>
          bindM (invoke (s_capability st) step_input (s_vendor st) (s_version st)) (\<lambda>(output, err).
          let message = (case err of None \<Rightarrow> [] | Some m \<Rightarrow> m) in
          if message \<noteq> [] \<or> output = None
          then returnM (Inl (fail_result k trace (step_message st
                 (if message \<noteq> [] then message else lit ''no output''))))
          else run_steps invoke k sts (dict_set (s_name st) (JObj (the output)) ctx)
                 (trace @ [\<lparr>t_step = s_name st, t_capability = s_capability st, t_output = the output\<rparr>])))"

definition composer_run ::
  "'s capability_invoke \<Rightarrow> composite \<Rightarrow> json_obj \<Rightarrow> ('s, composite_result) io" where
  "composer_run invoke k caller_input =
     bindM (run_steps invoke k (k_steps k) [(lit ''input'', JObj caller_input)] []) (\<lambda>r.
     case r of
       Inl failure \<Rightarrow> returnM failure
     | Inr (ctx, trace) \<Rightarrow>
         (case resolve_refs (k_output k) ctx [] of
            Inl err \<Rightarrow> returnM (fail_result k trace err)
          | Inr result \<Rightarrow>
              returnM \<lparr>cr_composite = k_name k, cr_output = result, cr_trace = trace, cr_error = None\<rparr>))"

section \<open>build_dev_composites\<close>

definition build_dev_composites :: "composite list" where
  "build_dev_composites =
     [post_init
       \<lparr>k_name = lit ''greet-report'',
        k_capability = [],
        k_description = lit ''Greet someone, then report stats on the greeting.'',
        k_input_schema =
          [(lit ''type'', JStr (lit ''object'')),
           (lit ''properties'', JObj [(lit ''name'', JObj [(lit ''type'', JStr (lit ''string''))])]),
           (lit ''required'', JList [JStr (lit ''name'')])],
        k_steps =
          [\<lparr>s_name = lit ''greeting'', s_capability = lit ''greet'', s_vendor = None, s_version = None,
            s_inputs = [(lit ''name'', lit ''input.name'')]\<rparr>,
           \<lparr>s_name = lit ''stats'', s_capability = lit ''text_stats'', s_vendor = None, s_version = None,
            s_inputs = [(lit ''text'', lit ''greeting.greeting'')]\<rparr>],
        k_output =
          [(lit ''greeting'', lit ''greeting.greeting''),
           (lit ''characters'', lit ''stats.characters''),
           (lit ''words'', lit ''stats.words'')]\<rparr>]"

section \<open>What a run means\<close>

text \<open>A step that succeeds, and a sequence of them in a growing context.\<close>

definition step_ok ::
  "'s capability_invoke \<Rightarrow> json_obj \<Rightarrow> step \<Rightarrow> 's \<Rightarrow> json_obj \<Rightarrow> 's \<Rightarrow> bool" where
  "step_ok invoke ctx st s out s' \<longleftrightarrow>
     (\<exists>inp err. resolve_refs (s_inputs st) ctx [] = Inr inp
        \<and> invoke (s_capability st) inp (s_vendor st) (s_version st) s = (Inr (Some out, err), s')
        \<and> (err = None \<or> err = Some []))"

definition entry :: "step \<Rightarrow> json_obj \<Rightarrow> trace_entry" where
  "entry st out = \<lparr>t_step = s_name st, t_capability = s_capability st, t_output = out\<rparr>"

inductive executes ::
  "'s capability_invoke \<Rightarrow> json_obj \<Rightarrow> step list \<Rightarrow> 's \<Rightarrow> trace_entry list \<Rightarrow> json_obj \<Rightarrow> 's \<Rightarrow> bool"
  for invoke :: "'s capability_invoke" where
  done_steps: "executes invoke ctx [] s [] ctx s"
| more_steps: "step_ok invoke ctx st s out s1 \<Longrightarrow>
     executes invoke (dict_set (s_name st) (JObj out) ctx) sts s1 tr ctx' s2 \<Longrightarrow>
     executes invoke ctx (st # sts) s (entry st out # tr) ctx' s2"

inductive_simps executes_Nil: "executes invoke ctx [] s tr ctx' s'"
inductive_simps executes_Cons: "executes invoke ctx (st # sts) s tr ctx' s'"

lemma executes_append:
  "executes invoke ctx sts s tr ctx1 s1 \<Longrightarrow> executes invoke ctx1 sts' s1 tr' ctx2 s2 \<Longrightarrow>
   executes invoke ctx (sts @ sts') s (tr @ tr') ctx2 s2"
  by (induction rule: executes.induct) (auto intro: executes.intros)

lemma executes_trace:
  "executes invoke ctx sts s tr ctx' s' \<Longrightarrow>
   map t_step tr = map s_name sts \<and> map t_capability tr = map s_capability sts"
  by (induction rule: executes.induct) (auto simp: entry_def)

lemma executes_context:
  "executes invoke ctx sts s tr ctx' s' \<Longrightarrow>
   ctx' = fold (\<lambda>t. dict_set (t_step t) (JObj (t_output t))) tr ctx"
  by (induction rule: executes.induct) (auto simp: entry_def)

lemma executes_deterministic:
  "executes invoke ctx sts s tr ctx' s' \<Longrightarrow> executes invoke ctx sts s tr2 ctx2 s2 \<Longrightarrow>
   tr2 = tr \<and> ctx2 = ctx' \<and> s2 = s'"
proof (induction arbitrary: tr2 ctx2 s2 rule: executes.induct)
  case (more_steps ctx st s out s1 sts tr ctx' s')
  from more_steps.prems obtain out' s1' tr' where
    "step_ok invoke ctx st s out' s1'" "tr2 = entry st out' # tr'"
    "executes invoke (dict_set (s_name st) (JObj out') ctx) sts s1' tr' ctx2 s2"
    by (auto simp: executes_Cons)
  moreover from this more_steps.hyps(1) have "out' = out \<and> s1' = s1" by (auto simp: step_ok_def)
  ultimately show ?case using more_steps.IH by auto
qed (simp add: executes_Nil)

text \<open>A step that fails with a message: an unresolved reference, or the answer of the invoker.\<close>

definition step_fails ::
  "'s capability_invoke \<Rightarrow> json_obj \<Rightarrow> step \<Rightarrow> 's \<Rightarrow> pystr \<Rightarrow> 's \<Rightarrow> bool" where
  "step_fails invoke ctx st s msg s' \<longleftrightarrow>
     resolve_refs (s_inputs st) ctx [] = Inl msg \<and> s' = s \<or>
     (\<exists>inp out err. resolve_refs (s_inputs st) ctx [] = Inr inp
        \<and> invoke (s_capability st) inp (s_vendor st) (s_version st) s = (Inr (out, err), s')
        \<and> (err = Some msg \<and> msg \<noteq> [] \<or>
           out = None \<and> (err = None \<or> err = Some []) \<and> msg = lit ''no output''))"

lemma run_steps_ok:
  "step_ok invoke ctx st s out s1 \<Longrightarrow>
   run_steps invoke k (st # sts) ctx tr0 s =
     run_steps invoke k sts (dict_set (s_name st) (JObj out) ctx) (tr0 @ [entry st out]) s1"
  by (auto simp: step_ok_def bindM_Inr entry_def)

lemma run_steps_fails:
  "step_fails invoke ctx st s msg s' \<Longrightarrow>
   run_steps invoke k (st # sts) ctx tr0 s = (Inr (Inl (fail_result k tr0 (step_message st msg))), s')"
  by (auto simp: step_fails_def bindM_Inr returnM_run)

lemma run_steps_step_cases:
  assumes "run_steps invoke k (st # sts) ctx tr0 s = (Inr r, s')"
  shows "(\<exists>out s1. step_ok invoke ctx st s out s1) \<or> (\<exists>msg s1. step_fails invoke ctx st s msg s1)"
proof (cases "resolve_refs (s_inputs st) ctx []")
  case (Inl msg)
  then show ?thesis by (auto simp: step_fails_def)
next
  case (Inr inp)
  with assms obtain out err s1 where
    i: "invoke (s_capability st) inp (s_vendor st) (s_version st) s = (Inr (out, err), s1)"
    by (auto simp: bindM_eq_Inr)
  show ?thesis
  proof (cases "err = None \<or> err = Some []")
    case True
    with Inr i show ?thesis by (cases out) (auto simp: step_ok_def step_fails_def)
  next
    case False
    then obtain m where "err = Some m" "m \<noteq> []" by (cases err) auto
    with Inr i show ?thesis by (auto simp: step_fails_def)
  qed
qed

lemma run_steps_executes:
  "executes invoke ctx sts s tr ctx' s' \<Longrightarrow>
   run_steps invoke k (sts @ rest) ctx tr0 s = run_steps invoke k rest ctx' (tr0 @ tr) s'"
proof (induction arbitrary: tr0 rule: executes.induct)
  case (more_steps ctx st s out s1 sts tr ctx' s')
  show ?case unfolding append_Cons run_steps_ok [OF more_steps.hyps(1)] more_steps.IH by simp
qed simp

lemma run_steps_cases:
  assumes "run_steps invoke k sts ctx tr0 s = (Inr r, s')"
  shows "(\<exists>tr ctx'. executes invoke ctx sts s tr ctx' s' \<and> r = Inr (ctx', tr0 @ tr)) \<or>
    (\<exists>pre st post tr ctx1 s1 msg. sts = pre @ st # post \<and> executes invoke ctx pre s tr ctx1 s1
       \<and> step_fails invoke ctx1 st s1 msg s' \<and> r = Inl (fail_result k (tr0 @ tr) (step_message st msg)))"
  using assms
proof (induction sts arbitrary: ctx tr0 s)
  case Nil
  then show ?case by (auto simp: returnM_run executes_Nil)
next
  case (Cons st sts)
  from run_steps_step_cases [OF Cons.prems] show ?case
  proof (elim disjE exE)
    fix out s1 assume ok: "step_ok invoke ctx st s out s1"
    let ?ctx = "dict_set (s_name st) (JObj out) ctx"
    from Cons.IH [OF Cons.prems [unfolded run_steps_ok [OF ok]]]
    consider tr ctx' where "executes invoke ?ctx sts s1 tr ctx' s'" "r = Inr (ctx', (tr0 @ [entry st out]) @ tr)"
      | pre st' post tr ctx1 s2 msg where "sts = pre @ st' # post" "executes invoke ?ctx pre s1 tr ctx1 s2"
          "step_fails invoke ctx1 st' s2 msg s'"
          "r = Inl (fail_result k ((tr0 @ [entry st out]) @ tr) (step_message st' msg))"
      by blast
    then show ?thesis
    proof cases
      case (1 tr ctx')
      then show ?thesis using executes.more_steps [OF ok 1(1)] by auto
    next
      case (2 pre st' post tr ctx1 s2 msg)
      then show ?thesis using executes.more_steps [OF ok 2(2)]
        by (metis append.assoc append_Cons append_Nil)
    qed
  next
    fix msg s1 assume f: "step_fails invoke ctx st s msg s1"
    then have "r = Inl (fail_result k tr0 (step_message st msg))" "s' = s1"
      using Cons.prems run_steps_fails [OF f, of k sts tr0] by auto
    with f show ?thesis
      by (metis append_Nil append_Nil2 executes.done_steps)
  qed
qed

lemma resolve_refs_keys:
  "resolve_refs refs ctx acc = Inr res \<Longrightarrow> set (dict_keys res) = set (dict_keys acc) \<union> fst ` set refs"
proof (induction refs ctx acc rule: resolve_refs.induct)
  case (2 k ref refs ctx acc)
  then show ?case by (auto simp: set_dict_keys_set split: sum.splits)
qed simp

lemma resolve_refs_get:
  "resolve_refs refs ctx acc = Inr res \<Longrightarrow> distinct (map fst refs) \<Longrightarrow>
   dict_get res k = (case map_of refs k of None \<Rightarrow> dict_get acc k | Some ref \<Rightarrow> Some (projr (resolve_ref ref ctx)))"
proof (induction refs ctx acc rule: resolve_refs.induct)
  case (2 k' ref refs ctx acc)
  then obtain v where v: "resolve_ref ref ctx = Inr v" "resolve_refs refs ctx (dict_set k' v acc) = Inr res"
    by (auto split: sum.splits)
  have "map_of refs k' = None" using "2.prems"(2) by (simp add: map_of_eq_None_iff)
  with "2.IH" [OF v] "2.prems"(2) v(1) show ?case by (auto simp: dict_get_set split: option.splits)
qed simp

section \<open>The contract of a capability invoker\<close>

text \<open>As its type says in the source: exactly one of output and message is set.\<close>

locale capability_invoker =
  fixes invoke :: "'s capability_invoke"
  assumes exactly_one: "invoke c i v r s = (Inr (out, err), s') \<Longrightarrow>
    (\<exists>o'. out = Some o') \<and> err = None \<or> out = None \<and> (\<exists>m. err = Some m \<and> m \<noteq> [])"
begin

lemma step_ok_iff:
  "step_ok invoke ctx st s out s' \<longleftrightarrow>
     (\<exists>inp. resolve_refs (s_inputs st) ctx [] = Inr inp
        \<and> invoke (s_capability st) inp (s_vendor st) (s_version st) s = (Inr (Some out, None), s'))"
  unfolding step_ok_def using exactly_one by fastforce

lemma step_fails_iff:
  "step_fails invoke ctx st s msg s' \<longleftrightarrow>
     resolve_refs (s_inputs st) ctx [] = Inl msg \<and> s' = s \<or>
     (\<exists>inp. resolve_refs (s_inputs st) ctx [] = Inr inp
        \<and> invoke (s_capability st) inp (s_vendor st) (s_version st) s = (Inr (None, Some msg), s'))"
  unfolding step_fails_def using exactly_one by fastforce

end

context effect_bound
begin

lemma moves_run_steps:
  assumes "\<And>c i v r. moves R (invoke c i v r)"
  shows "moves R (run_steps invoke k sts ctx tr)"
proof (induction sts arbitrary: ctx tr)
  case Nil
  then show ?case by (simp add: moves_return)
next
  case (Cons st sts)
  show ?case
    by (auto simp: Let_def Cons.IH assms intro!: moves_return moves_bind split: sum.splits prod.splits)
qed

lemma moves_composer_run:
  assumes "\<And>c i v r. moves R (invoke c i v r)"
  shows "moves R (composer_run invoke k inp)"
  unfolding composer_run_def
  by (rule moves_bind [OF moves_run_steps [OF assms]])
    (auto intro!: moves_return split: sum.splits prod.splits)

end

section \<open>Properties\<close>

text \<open>The three ways a run can end, in terms of the step relation.\<close>

definition outcome ::
  "'s capability_invoke \<Rightarrow> composite \<Rightarrow> json_obj \<Rightarrow> 's \<Rightarrow> composite_result \<Rightarrow> 's \<Rightarrow> bool" where
  "outcome invoke k inp s res s' \<longleftrightarrow>
     (\<exists>tr ctx out. executes invoke [(lit ''input'', JObj inp)] (k_steps k) s tr ctx s'
        \<and> resolve_refs (k_output k) ctx [] = Inr out
        \<and> res = \<lparr>cr_composite = k_name k, cr_output = out, cr_trace = tr, cr_error = None\<rparr>) \<or>
     (\<exists>tr ctx msg. executes invoke [(lit ''input'', JObj inp)] (k_steps k) s tr ctx s'
        \<and> resolve_refs (k_output k) ctx [] = Inl msg \<and> res = fail_result k tr msg) \<or>
     (\<exists>pre st post tr ctx s1 msg. k_steps k = pre @ st # post
        \<and> executes invoke [(lit ''input'', JObj inp)] pre s tr ctx s1 \<and> step_fails invoke ctx st s1 msg s'
        \<and> res = fail_result k tr (step_message st msg))"

lemma run_outcome:
  "composer_run invoke k inp s = (Inr res, s') \<longleftrightarrow> outcome invoke k inp s res s'"
proof
  let ?ctx = "[(lit ''input'', JObj inp)]"
  assume "composer_run invoke k inp s = (Inr res, s')"
  then obtain r s1 where r: "run_steps invoke k (k_steps k) ?ctx [] s = (Inr r, s1)"
    and rest: "(case r of Inl failure \<Rightarrow> returnM failure | Inr (ctx, trace) \<Rightarrow>
         (case resolve_refs (k_output k) ctx [] of Inl err \<Rightarrow> returnM (fail_result k trace err)
          | Inr result \<Rightarrow> returnM \<lparr>cr_composite = k_name k, cr_output = result, cr_trace = trace, cr_error = None\<rparr>)) s1
       = (Inr res, s')"
    unfolding composer_run_def bindM_eq_Inr by blast
  from run_steps_cases [OF r] rest show "outcome invoke k inp s res s'"
    unfolding outcome_def by (auto simp: returnM_run split: sum.splits) blast+
next
  let ?ctx = "[(lit ''input'', JObj inp)]"
  assume "outcome invoke k inp s res s'"
  then consider tr ctx where "executes invoke ?ctx (k_steps k) s tr ctx s'"
      "(\<exists>out. resolve_refs (k_output k) ctx [] = Inr out
        \<and> res = \<lparr>cr_composite = k_name k, cr_output = out, cr_trace = tr, cr_error = None\<rparr>) \<or>
       (\<exists>msg. resolve_refs (k_output k) ctx [] = Inl msg \<and> res = fail_result k tr msg)"
    | pre st post tr ctx s1 msg where "k_steps k = pre @ st # post" "executes invoke ?ctx pre s tr ctx s1"
      "step_fails invoke ctx st s1 msg s'" "res = fail_result k tr (step_message st msg)"
    unfolding outcome_def by blast
  then show "composer_run invoke k inp s = (Inr res, s')"
  proof cases
    case 1
    then show ?thesis
      using run_steps_executes [OF 1(1), of k "[]" "[]"]
      by (auto simp: composer_run_def bindM_def returnM_run)
  next
    case 2
    then have "run_steps invoke k (k_steps k) ?ctx [] s = (Inr (Inl res), s')"
      using run_steps_executes [OF 2(2), of k "st # post" "[]"] run_steps_fails [OF 2(3), of k post tr] by simp
    then show ?thesis by (simp add: composer_run_def bindM_Inr returnM_run)
  qed
qed

text \<open>
  C10. The runner computes exactly the declared meaning of a pipeline: it returns a result if
  and only if either every step succeeds in turn, each fed from the caller's input and the
  outputs of the steps before it, and the output references resolve (or the first unresolved
  one is reported), or the steps before some step succeed and that step fails, in which case
  its message is reported, no output is given and no later step is invoked.
\<close>

theorem composer_run_correct:
  "composer_run invoke k inp s = (Inr res, s') \<longleftrightarrow> outcome invoke k inp s res s'"
  by (rule run_outcome)

lemma run_steps_raises:
  "run_steps invoke k sts ctx tr s = (Inl e, s') \<Longrightarrow> \<exists>c i v r s1. invoke c i v r s1 = (Inl e, s')"
proof (induction sts arbitrary: ctx tr s)
  case (Cons st sts)
  then obtain inp where inp: "resolve_refs (s_inputs st) ctx [] = Inr inp"
    by (auto simp: returnM_run split: sum.splits)
  show ?case
  proof (cases "invoke (s_capability st) inp (s_vendor st) (s_version st) s")
    case (Pair r s1)
    then show ?thesis
    proof (cases r)
      case (Inl x)
      then show ?thesis using Cons.prems inp Pair by (auto simp: bindM_Inl intro!: exI)
    next
      case (Inr oe)
      then show ?thesis
        using Cons.prems inp Pair Cons.IH
        by (auto simp: bindM_Inr returnM_run Let_def split: prod.splits if_splits)
    qed
  qed
qed (simp add: returnM_run)

text \<open>
  The runner raises nothing of its own: an exception that leaves it is one the capability
  invoker raised, and the state is the one that invocation left.
\<close>

theorem composer_run_raises:
  assumes "composer_run invoke k inp s = (Inl e, s')"
  shows "\<exists>c i v r s1. invoke c i v r s1 = (Inl e, s')"
proof (cases "run_steps invoke k (k_steps k) [(lit ''input'', JObj inp)] [] s")
  case (Pair r s1)
  then show ?thesis
  proof (cases r)
    case (Inl x)
    then show ?thesis
      using assms Pair run_steps_raises by (fastforce simp: composer_run_def bindM_Inl)
  next
    case (Inr y)
    then show ?thesis
      using assms Pair by (auto simp: composer_run_def bindM_Inr returnM_run split: sum.splits prod.splits)
  qed
qed

definition broken_step :: composite where
  "broken_step = \<lparr>k_name = lit ''b'', k_capability = lit ''b'', k_description = [], k_input_schema = [],
     k_steps = [\<lparr>s_name = lit ''one'', s_capability = lit ''x'', s_vendor = None, s_version = None, s_inputs = []\<rparr>],
     k_output = []\<rparr>"

theorem composer_run_raises_witness:
  "\<exists>c i v r s1. (\<lambda>c i v r s. (Inl KeyError, s + (1::int))) c i v r s1 = (Inl KeyError :: exn + json_obj option \<times> pystr option, 1)"
proof -
  let ?invoke = "\<lambda>c i v r s. (Inl KeyError :: exn + json_obj option \<times> pystr option, s + (1::int))"
  have "composer_run ?invoke broken_step [] 0 = (Inl KeyError, 1)"
    by (simp add: composer_run_def broken_step_def bindM_def)
  from composer_run_raises [OF this] show ?thesis by blast
qed

text \<open>
  Shape of a result: the trace holds a prefix of the steps, in order, under their names and
  capabilities; a result without error has the whole pipeline in its trace and exactly the
  declared output fields, each holding the value its reference has in the final context; a
  result with an error has no output.
\<close>

theorem composite_result_shape:
  assumes "composer_run invoke k inp s = (Inr res, s')" and "dict_ok (k_output k)"
  shows "cr_composite res = k_name k
    \<and> (\<exists>n. map t_step (cr_trace res) = map s_name (take n (k_steps k))
          \<and> map t_capability (cr_trace res) = map s_capability (take n (k_steps k)))
    \<and> (cr_error res \<noteq> None \<longrightarrow> cr_output res = [])
    \<and> (cr_error res = None \<longrightarrow> map t_step (cr_trace res) = map s_name (k_steps k)
          \<and> set (dict_keys (cr_output res)) = set (dict_keys (k_output k))
          \<and> (\<forall>field ref. dict_get (k_output k) field = Some ref \<longrightarrow>
               dict_get (cr_output res) field = Some (projr (resolve_ref ref
                 (fold (\<lambda>t. dict_set (t_step t) (JObj (t_output t))) (cr_trace res)
                   [(lit ''input'', JObj inp)])))))"
proof -
  from assms(1) have "outcome invoke k inp s res s'" by (simp add: run_outcome)
  then consider
      tr ctx out where "executes invoke [(lit ''input'', JObj inp)] (k_steps k) s tr ctx s'"
        "resolve_refs (k_output k) ctx [] = Inr out"
        "res = \<lparr>cr_composite = k_name k, cr_output = out, cr_trace = tr, cr_error = None\<rparr>"
    | pre post tr ctx s1 msg where "k_steps k = pre @ post"
        "executes invoke [(lit ''input'', JObj inp)] pre s tr ctx s1" "res = fail_result k tr msg"
    unfolding outcome_def by (metis append_Nil2)
  then show ?thesis
  proof cases
    case (1 tr ctx out)
    have "dict_get (k_output k) field = Some ref \<Longrightarrow> dict_get out field = Some (projr (resolve_ref ref ctx))" for field ref
      using resolve_refs_get [OF 1(2)] assms(2) by (simp add: dict_ok_def dict_keys_def dict_get_def)
    then show ?thesis
      using executes_trace [OF 1(1)] executes_context [OF 1(1)] resolve_refs_keys [OF 1(2)] 1(3)
      by (auto simp: dict_keys_def intro!: exI [of _ "length (k_steps k)"])
  next
    case (2 pre post tr ctx s1 msg)
    then show ?thesis
      using executes_trace [OF 2(2)] by (auto simp: fail_result_def intro!: exI [of _ "length pre"])
  qed
qed

text \<open>An invoker that greets and counts characters, for the composite the gateway ships.\<close>

definition sample_capability :: "int capability_invoke" where
  "sample_capability c i v r n =
     (if c = lit ''greet''
      then (case dict_get i (lit ''name'') of
              Some (JStr nm) \<Rightarrow> (Inr (Some [(lit ''greeting'', JStr (lit ''Hello, '' @ nm))], None), n + 1)
            | _ \<Rightarrow> (Inr (None, Some (lit ''invalid input'')), n))
      else (Inr (Some [(lit ''characters'', JInt 3), (lit ''words'', JInt 1)], None), n + 1))"

theorem composite_result_shape_witness:
  "\<exists>res s'. composer_run sample_capability (hd build_dev_composites) [(lit ''name'', JStr (lit ''Ada''))] 0 = (Inr res, s')
    \<and> cr_composite res = lit ''greet-report'' \<and> cr_error res = None
    \<and> map t_step (cr_trace res) = [lit ''greeting'', lit ''stats'']"
proof -
  let ?run = "composer_run sample_capability (hd build_dev_composites) [(lit ''name'', JStr (lit ''Ada''))] 0"
  have "\<not> isl (fst ?run)" "cr_error (projr (fst ?run)) = None" by code_simp+
  then obtain res s' where r: "?run = (Inr res, s')" "cr_error res = None"
    by (metis isl_def prod.collapse sum.collapse(2) sum.exhaust_sel sum.sel(2))
  have ok: "dict_ok (k_output (hd build_dev_composites))" by code_simp
  have "k_name (hd build_dev_composites) = lit ''greet-report''"
    "map s_name (k_steps (hd build_dev_composites)) = [lit ''greeting'', lit ''stats'']" by code_simp+
  with composite_result_shape [OF r(1) ok] r show ?thesis by simp
qed

end
