(* ===== verification/AgentDsl.thy ===== *)
theory AgentDsl
  imports Composer
begin

text \<open>
  The agent language, \<open>gateway/agentdsl.py\<close>: the regular expressions it uses with Python's
  backtracking order, the line-oriented parser, and its inverse, a printer of composites.
\<close>

section \<open>Regular expressions\<close>

text \<open>
  A pattern is a sequence of items: a character class, a greedy star of one, a greedy option
  and a capturing group. \<open>match\<close> gives all matches of a prefix in the order the backtracking
  engine tries them, each with its groups and the rest of the input.
\<close>

datatype re =
    Chr "uchar \<Rightarrow> bool"
  | Star "uchar \<Rightarrow> bool"
  | Opt "re list"
  | Grp nat "re list"

type_synonym captures = "(nat, pystr) dict"

function match :: "re list \<Rightarrow> pystr \<Rightarrow> (captures \<times> pystr) list" where
  "match [] s = [([], s)]"
| "match (Chr p # r) [] = []"
| "match (Chr p # r) (c # s) = (if p c then match r s else [])"
| "match (Star p # r) [] = match r []"
| "match (Star p # r) (c # s) = (if p c then match (Star p # r) s @ match r (c # s) else match r (c # s))"
| "match (Opt q # r) s = match (q @ r) s @ match r s"
| "match (Grp i q # r) s =
     concat (map (\<lambda>(cs, t). map (\<lambda>(ds, u). ((i, take (length s - length t) s) # cs @ ds, u)) (match r t))
       (match q s))"
  by pat_completeness auto

termination
  by (relation "measures [\<lambda>(r, s). size_list size r, \<lambda>(r, s). length s]") auto

text \<open>\<open>re.fullmatch\<close>\<close>

definition fullmatch :: "re list \<Rightarrow> pystr \<Rightarrow> captures option" where
  "fullmatch r s = map_option fst (List.find (\<lambda>(cs, t). t = []) (match r s))"

definition chr :: "char \<Rightarrow> re" where
  "chr c = Chr (\<lambda>d. d = Lat c)"

definition word :: "string \<Rightarrow> re list" where
  "word w = map chr w"

definition alpha_c :: "uchar \<Rightarrow> bool" where
  "alpha_c c = (let n = cp c in 65 \<le> n \<and> n \<le> 90 \<or> 97 \<le> n \<and> n \<le> 122)"

definition num_c :: "uchar \<Rightarrow> bool" where
  "num_c c = (let n = cp c in 48 \<le> n \<and> n \<le> 57)"

definition first_c :: "uchar \<Rightarrow> bool" where
  "first_c c \<longleftrightarrow> alpha_c c \<or> c = Lat (CHR ''_'')"

definition name_c :: "uchar \<Rightarrow> bool" where
  "name_c c \<longleftrightarrow> alpha_c c \<or> num_c c \<or> c = Lat (CHR ''_'') \<or> c = Lat (CHR ''-'')"

definition ref_c :: "uchar \<Rightarrow> bool" where
  "ref_c c \<longleftrightarrow> name_c c \<or> c = dot"

definition NAME :: "re list" where
  "NAME = [Chr first_c, Star name_c]"

definition REF :: "re list" where
  "REF = [Chr first_c, Star ref_c]"

definition spaces :: re where
  "spaces = Star isspace_c"

definition spaces1 :: "re list" where
  "spaces1 = [Chr isspace_c, Star isspace_c]"

definition ARG_RE :: "re list" where
  "ARG_RE = [Grp 1 NAME, spaces, chr CHR '':'', spaces, Grp 2 REF]"

definition INPUT_RE :: "re list" where
  "INPUT_RE = word ''input'' @ spaces1 @
     [Grp 1 NAME, Grp 2 [Opt [chr CHR ''?'']], spaces, chr CHR '':'', spaces, Grp 3 NAME]"

definition STEP_RE :: "re list" where
  "STEP_RE = word ''step'' @ spaces1 @
     [Grp 1 NAME, spaces, chr CHR ''='', spaces, Grp 2 NAME, Opt [chr CHR ''@'', Grp 3 NAME], spaces,
      chr CHR ''('', Grp 4 [Star (\<lambda>c. c \<noteq> Lat (CHR 0x0A))], chr CHR '')'']"

definition OUTPUT_RE :: "re list" where
  "OUTPUT_RE = word ''output'' @ spaces1 @ [Grp 1 NAME, spaces, chr CHR ''='', spaces, Grp 2 REF]"

lemma match_rest_le: "(cs, t) \<in> set (match r s) \<Longrightarrow> length t \<le> length s"
proof (induction r s arbitrary: cs t rule: match.induct)
  case (7 i q r s)
  then obtain cs' t' ds where "(cs', t') \<in> set (match q s)" "(ds, t) \<in> set (match r t')" by auto
  then show ?case using 7(1) 7(2) [of "(cs', t')" cs' t' ds t] by fastforce
qed (auto split: if_splits simp: le_SucI)

lemma match_Chr_less: "(cs, t) \<in> set (match (Chr p # r) s) \<Longrightarrow> length t < length s"
  by (cases s) (auto dest: match_rest_le split: if_splits)

lemma match_ARG_less: "(cs, t) \<in> set (match ARG_RE s) \<Longrightarrow> length t < length s"
proof -
  assume "(cs, t) \<in> set (match ARG_RE s)"
  then obtain cs' t' r where "(cs', t') \<in> set (match NAME s)" "(\<exists>ds. (ds, t) \<in> set (match r t'))"
    unfolding ARG_RE_def by auto
  then show ?thesis unfolding NAME_def by (auto dest!: match_rest_le match_Chr_less)
qed

text \<open>
  \<open>_ARG_RE.finditer\<close>: leftmost matches that do not overlap; a position where the pattern does
  not match is skipped. Every match consumes a character.
\<close>

function find_args :: "pystr \<Rightarrow> (pystr \<times> pystr) list" where
  "find_args s =
     (case match ARG_RE s of
        (cs, t) # _ \<Rightarrow> (the (dict_get cs 1), the (dict_get cs 2)) # find_args t
      | [] \<Rightarrow> (case s of [] \<Rightarrow> [] | c # t \<Rightarrow> find_args t))"
  by pat_completeness auto

termination
  by (relation "measure length") (auto intro: match_ARG_less)

declare find_args.simps [simp del]

section \<open>The parser\<close>

definition types_table :: "(pystr, pystr) dict" where
  "types_table =
     [(lit ''string'', lit ''string''), (lit ''str'', lit ''string''), (lit ''text'', lit ''string''),
      (lit ''number'', lit ''number''), (lit ''float'', lit ''number''),
      (lit ''integer'', lit ''integer''), (lit ''int'', lit ''integer''),
      (lit ''bool'', lit ''boolean''), (lit ''boolean'', lit ''boolean'')]"

record dsl_state =
  d_name :: pystr
  d_description :: pystr
  d_props :: json_obj
  d_required :: "pystr list"
  d_steps :: "step list"
  d_output :: "(pystr, pystr) dict"
  d_errors :: "pystr list"

definition dsl_init :: dsl_state where
  "dsl_init = \<lparr>d_name = [], d_description = [], d_props = [], d_required = [], d_steps = [],
     d_output = [], d_errors = []\<rparr>"

definition line_error :: "nat \<Rightarrow> pystr \<Rightarrow> dsl_state \<Rightarrow> dsl_state" where
  "line_error i msg d = d\<lparr>d_errors := d_errors d @ [lit ''line '' @ str_of_nat i @ lit '': '' @ msg]\<rparr>"

definition agent_line :: "nat \<Rightarrow> pystr \<Rightarrow> dsl_state \<Rightarrow> dsl_state" where
  "agent_line i line d =
     (let name = strip (drop (length (lit ''agent '')) line); d' = d\<lparr>d_name := name\<rparr> in
      if fullmatch NAME name = None then line_error i (lit ''invalid agent name '' @ quoted name) d' else d')"

definition description_line :: "pystr \<Rightarrow> dsl_state \<Rightarrow> dsl_state" where
  "description_line line d =
     d\<lparr>d_description :=
        strip_by (\<lambda>c. c = Lat (CHR 0x22)) (strip (drop (length (lit ''description'')) line))\<rparr>"

definition input_line :: "nat \<Rightarrow> pystr \<Rightarrow> dsl_state \<Rightarrow> dsl_state" where
  "input_line i line d =
     (case fullmatch INPUT_RE line of
        None \<Rightarrow> line_error i (lit ''bad input (want `input <name>: <type>`): '' @ quoted line) d
      | Some m \<Rightarrow>
          (let field = the (dict_get m 1); optional = the (dict_get m 2); typ = the (dict_get m 3) in
           case dict_get types_table typ of
             None \<Rightarrow> line_error i (lit ''unknown type '' @ quoted typ @ lit '' (string|number|integer|boolean)'') d
           | Some ty \<Rightarrow>
               d\<lparr>d_props := dict_set field (JObj [(lit ''type'', JStr ty)]) (d_props d),
                 d_required := d_required d @ (if optional \<noteq> lit ''?'' then [field] else [])\<rparr>))"

definition step_line :: "nat \<Rightarrow> pystr \<Rightarrow> dsl_state \<Rightarrow> dsl_state" where
  "step_line i line d =
     (case fullmatch STEP_RE line of
        None \<Rightarrow> line_error i (lit ''bad step (want `step <name> = <capability>(<k>: <ref>, '' @
                  Ellipsis # lit '')`): '' @ quoted line) d
      | Some m \<Rightarrow>
          d\<lparr>d_steps := d_steps d @
             [\<lparr>s_name = the (dict_get m 1), s_capability = the (dict_get m 2), s_vendor = dict_get m 3,
               s_version = None, s_inputs = dict_of (find_args (the (dict_get m 4)))\<rparr>]\<rparr>)"

definition output_line :: "nat \<Rightarrow> pystr \<Rightarrow> dsl_state \<Rightarrow> dsl_state" where
  "output_line i line d =
     (case fullmatch OUTPUT_RE line of
        None \<Rightarrow> line_error i (lit ''bad output (want `output <name> = <ref>`): '' @ quoted line) d
      | Some m \<Rightarrow> d\<lparr>d_output := dict_set (the (dict_get m 1)) (the (dict_get m 2)) (d_output d)\<rparr>)"

definition parse_line :: "nat \<Rightarrow> pystr \<Rightarrow> dsl_state \<Rightarrow> dsl_state" where
  "parse_line i raw d =
     (let line = strip (takeWhile (\<lambda>c. c \<noteq> Lat (CHR ''#'')) raw) in
      if line = [] then d
      else if startswith line (lit ''agent '') then agent_line i line d
      else if startswith line (lit ''description'') then description_line line d
      else if startswith line (lit ''input '') then input_line i line d
      else if startswith line (lit ''step '') then step_line i line d
      else if startswith line (lit ''output '') then output_line i line d
      else line_error i (lit ''unrecognized statement: '' @ quoted line) d)"

fun parse_lines :: "nat \<Rightarrow> pystr list \<Rightarrow> dsl_state \<Rightarrow> dsl_state" where
  "parse_lines i [] d = d"
| "parse_lines i (raw # raws) d = parse_lines (i + 1) raws (parse_line i raw d)"

definition final_errors :: "dsl_state \<Rightarrow> pystr list" where
  "final_errors d =
     (let e1 = d_errors d @ (if d_name d = [] then [lit ''missing `agent <name>` declaration''] else []) in
      e1 @ (if d_steps d = [] \<and> e1 = [] then [lit ''an agent needs at least one `step`''] else []))"

definition agent_composite :: "dsl_state \<Rightarrow> composite" where
  "agent_composite d =
     post_init
       \<lparr>k_name = d_name d, k_capability = [], k_description = d_description d,
        k_input_schema =
          [(lit ''type'', JStr (lit ''object'')), (lit ''properties'', JObj (d_props d))] @
          (if d_required d \<noteq> [] then [(lit ''required'', JList (map JStr (d_required d)))] else []),
        k_steps = d_steps d, k_output = d_output d\<rparr>"

definition parse :: "pystr \<Rightarrow> composite option \<times> pystr list" where
  "parse text =
     (let d = parse_lines 1 (splitlines text) dsl_init; errors = final_errors d in
      if errors \<noteq> [] then (None, errors) else (Some (agent_composite d), []))"

end
