(* ===== verification/AgentPrint.thy ===== *)
theory AgentPrint
  imports AgentDsl
begin

text \<open>
  A printer for agents, the inverse of the parser of \<open>AgentDsl\<close>, with the lemmas that
  determine what the regular expressions match on printed text.
\<close>

section \<open>Agents\<close>

record agent =
  a_name :: pystr
  a_description :: pystr
  a_inputs :: "(pystr \<times> pystr \<times> bool) list"
  a_steps :: "(pystr \<times> pystr \<times> pystr option \<times> (pystr \<times> pystr) list) list"
  a_outputs :: "(pystr \<times> pystr) list"

definition valid_name :: "pystr \<Rightarrow> bool" where
  "valid_name s \<longleftrightarrow> s \<noteq> [] \<and> first_c (hd s) \<and> list_all name_c (tl s)"

definition valid_ref :: "pystr \<Rightarrow> bool" where
  "valid_ref s \<longleftrightarrow> s \<noteq> [] \<and> first_c (hd s) \<and> list_all ref_c (tl s)"

definition valid_description :: "pystr \<Rightarrow> bool" where
  "valid_description s \<longleftrightarrow>
     list_all (\<lambda>c. \<not> line_break c \<and> c \<noteq> Lat (CHR ''#'')) s
     \<and> (s \<noteq> [] \<longrightarrow> hd s \<noteq> Lat (CHR 0x22) \<and> last s \<noteq> Lat (CHR 0x22))"

definition agent_ok :: "agent \<Rightarrow> bool" where
  "agent_ok a \<longleftrightarrow>
     valid_name (a_name a) \<and> valid_description (a_description a)
     \<and> distinct (map fst (a_inputs a)) \<and> distinct (map fst (a_outputs a)) \<and> a_steps a \<noteq> []
     \<and> list_all (\<lambda>(f, ty, opt). valid_name f
          \<and> ty \<in> {lit ''string'', lit ''number'', lit ''integer'', lit ''boolean''}) (a_inputs a)
     \<and> list_all (\<lambda>(n, c, v, args). valid_name n \<and> valid_name c \<and> (case v of None \<Rightarrow> True | Some w \<Rightarrow> valid_name w)
          \<and> distinct (map fst args) \<and> list_all (\<lambda>(k, ref). valid_name k \<and> valid_ref ref) args) (a_steps a)
     \<and> list_all (\<lambda>(f, ref). valid_name f \<and> valid_ref ref) (a_outputs a)"

definition composite_of :: "agent \<Rightarrow> composite" where
  "composite_of a =
     (let required = map fst (filter (\<lambda>(f, ty, opt). \<not> opt) (a_inputs a)) in
      \<lparr>k_name = a_name a, k_capability = a_name a, k_description = a_description a,
       k_input_schema =
         [(lit ''type'', JStr (lit ''object'')),
          (lit ''properties'', JObj (map (\<lambda>(f, ty, opt). (f, JObj [(lit ''type'', JStr ty)])) (a_inputs a)))] @
         (if required \<noteq> [] then [(lit ''required'', JList (map JStr required))] else []),
       k_steps = map (\<lambda>(n, c, v, args).
         \<lparr>s_name = n, s_capability = c, s_vendor = v, s_version = None, s_inputs = args\<rparr>) (a_steps a),
       k_output = a_outputs a\<rparr>)"

definition show_args :: "(pystr \<times> pystr) list \<Rightarrow> pystr" where
  "show_args args = join (lit '', '') (map (\<lambda>(k, ref). k @ lit '': '' @ ref) args)"

fun show_input :: "pystr \<times> pystr \<times> bool \<Rightarrow> pystr" where
  "show_input (f, ty, opt) = lit ''input '' @ f @ (if opt then lit ''?'' else []) @ lit '': '' @ ty"

fun show_step :: "pystr \<times> pystr \<times> pystr option \<times> (pystr \<times> pystr) list \<Rightarrow> pystr" where
  "show_step (n, c, v, args) =
     lit ''step '' @ n @ lit '' = '' @ c @ (case v of None \<Rightarrow> [] | Some w \<Rightarrow> lit ''@'' @ w) @
     lit ''('' @ show_args args @ lit '')''"

fun show_output :: "pystr \<times> pystr \<Rightarrow> pystr" where
  "show_output (f, ref) = lit ''output '' @ f @ lit '' = '' @ ref"

definition show_agent :: "agent \<Rightarrow> pystr" where
  "show_agent a =
     join [Lat (CHR 0x0A)]
       ([lit ''agent '' @ a_name a,
         lit ''description '' @ Lat (CHR 0x22) # a_description a @ [Lat (CHR 0x22)]] @
        map show_input (a_inputs a) @ map show_step (a_steps a) @ map show_output (a_outputs a))"

section \<open>Character classes\<close>

lemma cp_lit_simps [simp]:
  "cp (Lat CHR '':'') = 58" "cp (Lat CHR '' '') = 32" "cp (Lat CHR ''='') = 61" "cp (Lat CHR ''@'') = 64"
  "cp (Lat CHR ''('') = 40" "cp (Lat CHR '')'') = 41" "cp (Lat CHR ''?'') = 63" "cp (Lat CHR '','') = 44"
  "cp (Lat CHR ''-'') = 45" "cp (Lat CHR ''_'') = 95" "cp (Lat CHR ''#'') = 35" "cp (Lat CHR 0x22) = 34"
  "cp (Lat CHR ''.'') = 46" "cp (Lat CHR 0x0A) = 10"
  by code_simp+

lemma first_name: "first_c c \<Longrightarrow> name_c c"
  by (auto simp: first_c_def name_c_def)

lemma name_ref: "name_c c \<Longrightarrow> ref_c c"
  by (simp add: ref_c_def)

lemma ref_c_cp:
  "ref_c c \<Longrightarrow> 65 \<le> cp c \<and> cp c \<le> 90 \<or> 97 \<le> cp c \<and> cp c \<le> 122 \<or> 48 \<le> cp c \<and> cp c \<le> 57
     \<or> cp c \<in> {95, 45, 46}"
  by (auto simp: ref_c_def name_c_def alpha_c_def num_c_def Let_def dot_def)

lemma ref_c_not:
  assumes "ref_c c"
  shows "\<not> isspace_c c" "\<not> line_break c" "c \<noteq> Lat (CHR ''#'')" "c \<noteq> Lat (CHR '':'')" "c \<noteq> Lat (CHR ''='')"
    "c \<noteq> Lat (CHR ''@'')" "c \<noteq> Lat (CHR ''('')" "c \<noteq> Lat (CHR '')'')" "c \<noteq> Lat (CHR ''?'')"
    "c \<noteq> Lat (CHR '','')" "c \<noteq> Lat (CHR '' '')" "c \<noteq> Lat (CHR 0x22)" "c \<noteq> Lat (CHR 0x0A)"
  using ref_c_cp [OF assms] by (auto simp: isspace_c_def line_break_def Let_def)

lemma punct_not_ref [simp]:
  "\<not> ref_c (Lat (CHR '':''))" "\<not> ref_c (Lat (CHR ''=''))" "\<not> ref_c (Lat (CHR ''@''))" "\<not> ref_c (Lat (CHR ''(''))"
  "\<not> ref_c (Lat (CHR '')''))" "\<not> ref_c (Lat (CHR ''?''))" "\<not> ref_c (Lat (CHR '',''))" "\<not> ref_c (Lat (CHR '' ''))"
  using ref_c_not by blast+

lemma punct_not_name [simp]:
  "\<not> name_c (Lat (CHR '':''))" "\<not> name_c (Lat (CHR ''=''))" "\<not> name_c (Lat (CHR ''@''))"
  "\<not> name_c (Lat (CHR ''(''))" "\<not> name_c (Lat (CHR '')''))" "\<not> name_c (Lat (CHR ''?''))"
  "\<not> name_c (Lat (CHR '',''))" "\<not> name_c (Lat (CHR '' ''))"
  using name_ref punct_not_ref by blast+

lemma punct_not_first [simp]:
  "\<not> first_c (Lat (CHR '':''))" "\<not> first_c (Lat (CHR ''=''))" "\<not> first_c (Lat (CHR ''@''))"
  "\<not> first_c (Lat (CHR ''(''))" "\<not> first_c (Lat (CHR '')''))" "\<not> first_c (Lat (CHR ''?''))"
  "\<not> first_c (Lat (CHR '',''))" "\<not> first_c (Lat (CHR '' ''))"
  using first_name punct_not_name by blast+

lemma space_is_space [simp]: "isspace_c (Lat (CHR '' ''))"
  by code_simp

lemma punct_not_space [simp]:
  "\<not> isspace_c (Lat (CHR '':''))" "\<not> isspace_c (Lat (CHR ''=''))" "\<not> isspace_c (Lat (CHR ''@''))"
  "\<not> isspace_c (Lat (CHR ''(''))" "\<not> isspace_c (Lat (CHR '')''))" "\<not> isspace_c (Lat (CHR ''?''))"
  "\<not> isspace_c (Lat (CHR '',''))"
  by code_simp+

lemma valid_name_all: "valid_name s \<Longrightarrow> list_all name_c s"
  by (cases s) (auto simp: valid_name_def first_name)

lemma valid_ref_all: "valid_ref s \<Longrightarrow> list_all ref_c s"
  by (cases s) (auto simp: valid_ref_def first_name name_ref)

lemma valid_name_ref: "valid_name s \<Longrightarrow> valid_ref s"
  by (auto simp: valid_name_def valid_ref_def list_all_iff name_ref)

section \<open>What the patterns match\<close>

text \<open>A greedy star at the end of a group: the longest span first, then shorter ones.\<close>

lemma match_star_alts:
  assumes "list_all p xs" "ys = [] \<or> \<not> p (hd ys)"
  shows "\<exists>others. match [Star p] (xs @ ys) = ([], ys) # others
    \<and> (\<forall>m \<in> set others. fst m = [] \<and> snd m \<noteq> [] \<and> p (hd (snd m)))"
  using assms
proof (induction xs)
  case Nil
  then show ?case by (cases ys) auto
next
  case (Cons c xs)
  then obtain others where "match [Star p] (xs @ ys) = ([], ys) # others"
    "\<forall>m \<in> set others. fst m = [] \<and> snd m \<noteq> [] \<and> p (hd (snd m))" by auto
  with Cons.prems show ?case by auto
qed

text \<open>A star before something that cannot start with a character of its class.\<close>

lemma match_star_span:
  assumes "list_all p xs" "ys = [] \<or> \<not> p (hd ys)" "\<And>c t. p c \<Longrightarrow> match r (c # t) = []"
  shows "match (Star p # r) (xs @ ys) = match r ys"
  using assms(1,2)
proof (induction xs)
  case Nil
  then show ?case by (cases ys) auto
next
  case (Cons c xs)
  then show ?case using assms(3) by auto
qed

lemma match_class_group:
  assumes "xs \<noteq> []" "f (hd xs)" "list_all p (tl xs)" "ys = [] \<or> \<not> p (hd ys)"
    and "\<And>c t. p c \<Longrightarrow> match r (c # t) = []"
  shows "match (Grp i [Chr f, Star p] # r) (xs @ ys) = map (\<lambda>(ds, u). ((i, xs) # ds, u)) (match r ys)"
proof -
  obtain c cs where xs: "xs = c # cs" using assms(1) by (cases xs) auto
  obtain others where o: "match [Star p] (cs @ ys) = ([], ys) # others"
    "\<forall>m \<in> set others. fst m = [] \<and> snd m \<noteq> [] \<and> p (hd (snd m))"
    using match_star_alts [of p cs ys] assms(3,4) xs by auto
  have "match r (snd m) = []" if "m \<in> set others" for m
    using o(2) that assms(5) by (metis list.collapse)
  then have "concat (map (\<lambda>(cs', t). map (\<lambda>(ds, u).
      ((i, take (length (xs @ ys) - length t) (xs @ ys)) # cs' @ ds, u)) (match r t)) others) = []"
    by auto
  then show ?thesis using o(1) assms(2) xs by (simp add: case_prod_beta)
qed

lemma match_class_group_end:
  assumes "xs \<noteq> []" "f (hd xs)" "list_all p (tl xs)" "ys = [] \<or> \<not> p (hd ys)"
  shows "\<exists>others. match [Grp i [Chr f, Star p]] (xs @ ys) = ([(i, xs)], ys) # others"
proof -
  obtain c cs where xs: "xs = c # cs" using assms(1) by (cases xs) auto
  obtain others where "match [Star p] (cs @ ys) = ([], ys) # others"
    using match_star_alts [of p cs ys] assms(3,4) xs by auto
  then show ?thesis using assms(2) xs by simp
qed

lemma match_name_group:
  assumes "valid_name xs" "ys = [] \<or> \<not> name_c (hd ys)" "\<And>c t. name_c c \<Longrightarrow> match r (c # t) = []"
  shows "match (Grp i NAME # r) (xs @ ys) = map (\<lambda>(ds, u). ((i, xs) # ds, u)) (match r ys)"
  unfolding NAME_def using assms by (intro match_class_group) (auto simp: valid_name_def)

lemma match_name_end:
  assumes "valid_name xs" "ys = [] \<or> \<not> name_c (hd ys)"
  shows "\<exists>others. match [Grp i NAME] (xs @ ys) = ([(i, xs)], ys) # others"
  unfolding NAME_def using assms by (intro match_class_group_end) (auto simp: valid_name_def)

lemma match_ref_end:
  assumes "valid_ref xs" "ys = [] \<or> \<not> ref_c (hd ys)"
  shows "\<exists>others. match [Grp i REF] (xs @ ys) = ([(i, xs)], ys) # others"
  unfolding REF_def using assms by (intro match_class_group_end) (auto simp: valid_ref_def)

lemma match_group_fails: "\<not> f c \<Longrightarrow> match (Grp i (Chr f # q) # r) (c # t) = []"
  by simp

lemma match_spaces:
  assumes "list_all isspace_c xs" "ys = [] \<or> \<not> isspace_c (hd ys)" "\<And>c t. isspace_c c \<Longrightarrow> match r (c # t) = []"
  shows "match (spaces # r) (xs @ ys) = match r ys"
  unfolding spaces_def by (rule match_star_span [OF assms])

lemma match_spaces_none:
  "\<not> isspace_c c \<Longrightarrow> match (spaces # r) (c # t) = match r (c # t)"
  by (simp add: spaces_def)

lemma match_chr [simp]:
  "match (chr c # r) (d # t) = (if d = Lat c then match r t else [])" "match (chr c # r) [] = []"
  by (simp_all add: chr_def)

lemma lit_append_space:
  "lit ''input '' = lit ''input'' @ [Lat (CHR '' '')]" "lit ''step '' = lit ''step'' @ [Lat (CHR '' '')]"
  "lit ''output '' = lit ''output'' @ [Lat (CHR '' '')]"
  by (simp_all add: lit_def)

lemma match_word: "match (word w @ r) (lit w @ s) = match r s"
  by (induction w) (simp_all add: word_def lit_Cons)

lemma fullmatch_first: "match r s = (cs, []) # others \<Longrightarrow> fullmatch r s = Some cs"
  by (simp add: fullmatch_def)

lemma space_not_first: "isspace_c c \<Longrightarrow> \<not> first_c c"
  using ref_c_not(1) first_name name_ref by blast

lemma match_group_space: "isspace_c c \<Longrightarrow> match (Grp i NAME # r) (c # t) = []" "isspace_c c \<Longrightarrow> match (Grp i REF # r) (c # t) = []"
  by (simp_all add: NAME_def REF_def space_not_first)

declare match.simps(7) [simp del]

lemma match_sep_fails:
  "name_c c \<Longrightarrow> \<not> ref_c (Lat x) \<Longrightarrow> match (spaces # chr x # r) (c # t) = []"
  using name_ref [of c] ref_c_not(1) [of c] by (auto simp: match_spaces_none)

lemma match_sep:
  assumes "s \<noteq> []" "\<not> isspace_c (hd s)" "\<not> isspace_c (Lat x)" "list_all isspace_c a" "list_all isspace_c b"
    and "\<And>c t. isspace_c c \<Longrightarrow> match r (c # t) = []"
  shows "match (spaces # chr x # spaces # r) (a @ Lat x # b @ s) = match r s"
proof -
  have "match (spaces # chr x # spaces # r) (a @ Lat x # b @ s) = match (chr x # spaces # r) (Lat x # b @ s)"
    by (rule match_spaces) (use assms in auto)
  also have "\<dots> = match (spaces # r) (b @ s)" by simp
  also have "\<dots> = match r s" by (rule match_spaces) (use assms in auto)
  finally show ?thesis .
qed

lemma valid_name_hd: "valid_name s \<Longrightarrow> s \<noteq> [] \<and> \<not> isspace_c (hd s)"
  using ref_c_not(1) first_name name_ref by (auto simp: valid_name_def)

lemma valid_ref_hd: "valid_ref s \<Longrightarrow> s \<noteq> [] \<and> \<not> isspace_c (hd s)"
  using ref_c_not(1) first_name name_ref by (auto simp: valid_ref_def)

lemma match_spaces1:
  assumes "s \<noteq> []" "\<not> isspace_c (hd s)" "\<And>c t. isspace_c c \<Longrightarrow> match r (c # t) = []"
  shows "match (spaces1 @ r) (Lat (CHR '' '') # s) = match r s"
  using match_star_span [of isspace_c "[]" s r] assms by (simp add: spaces1_def)

lemma match_keyword:
  assumes "s \<noteq> []" "\<not> isspace_c (hd s)" "\<And>c t. isspace_c c \<Longrightarrow> match r (c # t) = []"
  shows "match (word w @ spaces1 @ r) (lit w @ Lat (CHR '' '') # s) = match r s"
  by (simp only: match_word match_spaces1 [OF assms])

lemma match_colon:
  "s \<noteq> [] \<Longrightarrow> \<not> isspace_c (hd s) \<Longrightarrow> (\<And>c t. isspace_c c \<Longrightarrow> match r (c # t) = []) \<Longrightarrow>
   match (spaces # chr CHR '':'' # spaces # r) (lit '': '' @ s) = match r s"
  using match_sep [of s "CHR '':''" "[]" "[Lat (CHR '' '')]" r] by (simp add: lit_Cons)

lemma match_equals:
  "s \<noteq> [] \<Longrightarrow> \<not> isspace_c (hd s) \<Longrightarrow> (\<And>c t. isspace_c c \<Longrightarrow> match r (c # t) = []) \<Longrightarrow>
   match (spaces # chr CHR ''='' # spaces # r) (lit '' = '' @ s) = match r s"
  using match_sep [of s "CHR ''=''" "[Lat (CHR '' '')]" "[Lat (CHR '' '')]" r] by (simp add: lit_Cons)

lemma match_name_colon:
  assumes "valid_name n" "s \<noteq> []" "\<not> isspace_c (hd s)" "\<And>c t. isspace_c c \<Longrightarrow> match r (c # t) = []"
  shows "match (Grp i NAME # spaces # chr CHR '':'' # spaces # r) (n @ lit '': '' @ s) =
    map (\<lambda>(ds, u). ((i, n) # ds, u)) (match r s)"
proof -
  have "match (Grp i NAME # spaces # chr CHR '':'' # spaces # r) (n @ lit '': '' @ s) =
      map (\<lambda>(ds, u). ((i, n) # ds, u)) (match (spaces # chr CHR '':'' # spaces # r) (lit '': '' @ s))"
    using assms(1) by (intro match_name_group) (auto simp: lit_Cons match_sep_fails)
  then show ?thesis by (simp only: match_colon [OF assms(2,3,4)])
qed

lemma match_name_equals:
  assumes "valid_name n" "s \<noteq> []" "\<not> isspace_c (hd s)" "\<And>c t. isspace_c c \<Longrightarrow> match r (c # t) = []"
  shows "match (Grp i NAME # spaces # chr CHR ''='' # spaces # r) (n @ lit '' = '' @ s) =
    map (\<lambda>(ds, u). ((i, n) # ds, u)) (match r s)"
proof -
  have "match (Grp i NAME # spaces # chr CHR ''='' # spaces # r) (n @ lit '' = '' @ s) =
      map (\<lambda>(ds, u). ((i, n) # ds, u)) (match (spaces # chr CHR ''='' # spaces # r) (lit '' = '' @ s))"
    using assms(1) by (intro match_name_group) (auto simp: lit_Cons match_sep_fails)
  then show ?thesis by (simp only: match_equals [OF assms(2,3,4)])
qed

lemma fullmatch_NAME: "valid_name n \<Longrightarrow> fullmatch NAME n \<noteq> None"
proof -
  assume n: "valid_name n"
  obtain others where "match [Star name_c] (tl n @ []) = ([], []) # others"
    using match_star_alts [of name_c "tl n" "[]"] n by (auto simp: valid_name_def)
  then have "match NAME n = ([], []) # others"
    using n by (cases n) (auto simp: NAME_def valid_name_def)
  then show ?thesis by (simp add: fullmatch_first)
qed

lemma fullmatch_output:
  assumes "valid_name f" "valid_ref ref"
  shows "fullmatch OUTPUT_RE (show_output (f, ref)) = Some [(1, f), (2, ref)]"
proof -
  obtain others where o: "match [Grp 2 REF] ref = ([(2, ref)], []) # others"
    using match_ref_end [OF assms(2), of "[]"] by auto
  have "match OUTPUT_RE (show_output (f, ref)) =
      match (Grp 1 NAME # spaces # chr CHR ''='' # spaces # [Grp 2 REF]) (f @ lit '' = '' @ ref)"
    using match_keyword [of "f @ lit '' = '' @ ref" "Grp 1 NAME # spaces # chr CHR ''='' # spaces # [Grp 2 REF]" "''output''"]
      valid_name_hd [OF assms(1)]
    by (simp add: OUTPUT_RE_def lit_append_space match_group_space)
  also have "\<dots> = map (\<lambda>(ds, u). ((1, f) # ds, u)) (match [Grp 2 REF] ref)"
    using match_name_equals [OF assms(1), of ref "[Grp 2 REF]" 1] valid_ref_hd [OF assms(2)]
    by (simp add: match_group_space)
  finally show ?thesis using o by (simp add: fullmatch_first)
qed

lemma match_optional_mark:
  fixes r :: "re list"
  defines "S \<equiv> spaces # chr CHR '':'' # r"
  shows "match (Grp 2 [Opt [chr CHR ''?'']] # S) (Lat (CHR ''?'') # t) =
      map (\<lambda>(ds, u). ((2, lit ''?'') # ds, u)) (match S t)"
    and "match (Grp 2 [Opt [chr CHR ''?'']] # S) (Lat (CHR '':'') # t) =
      map (\<lambda>(ds, u). ((2, []) # ds, u)) (match S (Lat (CHR '':'') # t))"
    and "name_c c \<Longrightarrow> match (Grp 2 [Opt [chr CHR ''?'']] # S) (c # t) = []"
proof -
  have "match S (Lat (CHR ''?'') # t) = []" by (simp add: S_def match_spaces_none)
  then show "match (Grp 2 [Opt [chr CHR ''?'']] # S) (Lat (CHR ''?'') # t) =
      map (\<lambda>(ds, u). ((2, lit ''?'') # ds, u)) (match S t)"
    by (simp add: match.simps(7) lit_Cons)
  show "match (Grp 2 [Opt [chr CHR ''?'']] # S) (Lat (CHR '':'') # t) =
      map (\<lambda>(ds, u). ((2, []) # ds, u)) (match S (Lat (CHR '':'') # t))"
    by (simp add: match.simps(7))
  assume c: "name_c c"
  then have "match S (c # t) = []" by (simp add: S_def match_sep_fails)
  then show "match (Grp 2 [Opt [chr CHR ''?'']] # S) (c # t) = []"
    using c by (auto simp: match.simps(7))
qed

lemma fullmatch_input:
  assumes "valid_name f" "valid_name ty"
  shows "fullmatch INPUT_RE (show_input (f, ty, opt)) =
    Some [(1, f), (2, if opt then lit ''?'' else []), (3, ty)]"
proof -
  let ?S = "spaces # chr CHR '':'' # spaces # [Grp 3 NAME]"
  let ?R = "Grp 1 NAME # Grp 2 [Opt [chr CHR ''?'']] # ?S"
  let ?t = "(if opt then lit ''?'' else []) @ lit '': '' @ ty"
  obtain others where o: "match [Grp 3 NAME] ty = ([(3, ty)], []) # others"
    using match_name_end [OF assms(2), of "[]"] by auto
  have colon: "match ?S (lit '': '' @ ty) = match [Grp 3 NAME] ty"
    using valid_name_hd [OF assms(2)] by (intro match_colon) (auto simp: match_group_space)
  have "match INPUT_RE (show_input (f, ty, opt)) = match ?R (f @ ?t)"
    using match_keyword [of "f @ ?t" ?R "''input''"] valid_name_hd [OF assms(1)]
    by (simp add: INPUT_RE_def lit_append_space match_group_space)
  also have "\<dots> = map (\<lambda>(ds, u). ((1, f) # ds, u)) (match (Grp 2 [Opt [chr CHR ''?'']] # ?S) ?t)"
    using assms(1) by (intro match_name_group) (auto simp: lit_Cons match_optional_mark(3))
  also have "match (Grp 2 [Opt [chr CHR ''?'']] # ?S) ?t =
      map (\<lambda>(ds, u). ((2, if opt then lit ''?'' else []) # ds, u)) (match ?S (lit '': '' @ ty))"
    using match_optional_mark(1,2) [where r = "spaces # [Grp 3 NAME]"] by (simp add: lit_Cons)
  finally show ?thesis using o unfolding colon by (simp add: fullmatch_first)
qed

lemma match_star_last:
  "list_all p xs \<Longrightarrow> p c \<Longrightarrow> \<exists>others. match [Star p] (xs @ [c]) = ([], []) # ([], [c]) # others"
  by (induction xs) auto

text \<open>The argument list between parentheses at the end of a step.\<close>

lemma match_arguments:
  fixes r :: "re list"
  defines "S \<equiv> [spaces, chr CHR ''('', Grp 4 [Star (\<lambda>c. c \<noteq> Lat (CHR 0x0A))], chr CHR '')'']"
  assumes "list_all (\<lambda>c. c \<noteq> Lat (CHR 0x0A)) args"
  shows "\<exists>others. match S (lit ''('' @ args @ lit '')'') = ([(4, args)], []) # others"
proof -
  obtain others where o: "match [Star (\<lambda>c. c \<noteq> Lat (CHR 0x0A))] (args @ [Lat (CHR '')'')]) =
      ([], []) # ([], [Lat (CHR '')'')]) # others"
    using match_star_last [OF assms(2), of "Lat (CHR '')'')"] by auto
  then show ?thesis by (simp add: S_def lit_Cons match_spaces_none match.simps(7))
qed

lemma fullmatch_step:
  assumes "valid_name n" "valid_name c" "\<And>w. v = Some w \<Longrightarrow> valid_name w"
    and "list_all (\<lambda>c. c \<noteq> Lat (CHR 0x0A)) (show_args args)"
  shows "\<exists>m. fullmatch STEP_RE (show_step (n, c, v, args)) = Some m \<and> dict_get m 1 = Some n
    \<and> dict_get m 2 = Some c \<and> dict_get m 3 = v \<and> dict_get m 4 = Some (show_args args)"
proof -
  let ?S = "[spaces, chr CHR ''('', Grp 4 [Star (\<lambda>c. c \<noteq> Lat (CHR 0x0A))], chr CHR '')'']"
  let ?O = "Opt [chr CHR ''@'', Grp 3 NAME] # ?S"
  let ?R = "Grp 1 NAME # spaces # chr CHR ''='' # spaces # Grp 2 NAME # ?O"
  let ?p = "lit ''('' @ show_args args @ lit '')''"
  let ?v = "case v of None \<Rightarrow> [] | Some w \<Rightarrow> lit ''@'' @ w"
  obtain others where o: "match ?S ?p = ([(4, show_args args)], []) # others"
    using match_arguments [OF assms(4)] by blast
  have fails: "name_c d \<Longrightarrow> match ?S (d # t) = []" for d t by (simp add: match_sep_fails)
  have vend: "match ?O (?v @ ?p) =
      map (\<lambda>(ds, u). ((case v of None \<Rightarrow> [] | Some w \<Rightarrow> [(3, w)]) @ ds, u)) (match ?S ?p)"
  proof (cases v)
    case None
    then show ?thesis by (simp add: lit_Cons)
  next
    case (Some w)
    have "match (Grp 3 NAME # ?S) (w @ ?p) = map (\<lambda>(ds, u). ((3, w) # ds, u)) (match ?S ?p)"
      using assms(3) [OF Some] fails by (intro match_name_group) (auto simp: lit_Cons)
    moreover have "match ?S (Lat (CHR ''@'') # t) = []" for t by (simp add: match_spaces_none)
    ultimately show ?thesis using Some by (simp add: lit_Cons)
  qed
  have "match STEP_RE (show_step (n, c, v, args)) = match ?R (n @ lit '' = '' @ c @ ?v @ ?p)"
    using match_keyword [of "n @ lit '' = '' @ c @ ?v @ ?p" ?R "''step''"] valid_name_hd [OF assms(1)]
    by (simp add: STEP_RE_def lit_append_space match_group_space)
  also have "\<dots> = map (\<lambda>(ds, u). ((1, n) # ds, u)) (match (Grp 2 NAME # ?O) (c @ ?v @ ?p))"
    using assms(1) valid_name_hd [OF assms(2)] by (intro match_name_equals) (auto simp: match_group_space)
  also have "match (Grp 2 NAME # ?O) (c @ ?v @ ?p) = map (\<lambda>(ds, u). ((2, c) # ds, u)) (match ?O (?v @ ?p))"
  proof (rule match_name_group [OF assms(2)])
    show "?v @ ?p = [] \<or> \<not> name_c (hd (?v @ ?p))" by (cases v) (auto simp: lit_Cons)
    show "match ?O (d # t) = []" if "name_c d" for d t
      using that fails by auto
  qed
  finally have "fullmatch STEP_RE (show_step (n, c, v, args)) =
      Some ((1, n) # (2, c) # (case v of None \<Rightarrow> [] | Some w \<Rightarrow> [(3, w)]) @ [(4, show_args args)])"
    unfolding vend o by (simp add: fullmatch_first)
  then show ?thesis by (cases v) (auto simp: dict_get_def)
qed

lemma match_ARG:
  assumes "valid_name k" "valid_ref ref" "rest = [] \<or> \<not> ref_c (hd rest)"
  shows "\<exists>others. match ARG_RE (k @ lit '': '' @ ref @ rest) = ([(1, k), (2, ref)], rest) # others"
proof -
  obtain others where "match [Grp 2 REF] (ref @ rest) = ([(2, ref)], rest) # others"
    using match_ref_end [OF assms(2,3)] by blast
  moreover have "match ARG_RE (k @ lit '': '' @ ref @ rest) =
      map (\<lambda>(ds, u). ((1, k) # ds, u)) (match [Grp 2 REF] (ref @ rest))"
    unfolding ARG_RE_def using assms(1) valid_ref_hd [OF assms(2)]
    by (intro match_name_colon) (auto simp: match_group_space)
  ultimately show ?thesis by simp
qed

lemma find_args_one:
  "valid_name k \<Longrightarrow> valid_ref ref \<Longrightarrow> rest = [] \<or> \<not> ref_c (hd rest) \<Longrightarrow>
   find_args (k @ lit '': '' @ ref @ rest) = (k, ref) # find_args rest"
  using match_ARG [of k ref rest] by (auto simp: find_args.simps [of "k @ lit '': '' @ ref @ rest"] dict_get_def)

lemma find_args_skip: "\<not> first_c c \<Longrightarrow> find_args (c # t) = find_args t"
  by (simp add: find_args.simps [of "c # t"] ARG_RE_def NAME_def match.simps(7))

lemma find_args_Nil: "find_args [] = []"
  by (simp add: find_args.simps [of "[]"] ARG_RE_def NAME_def match.simps(7))

lemma find_args_show:
  "list_all (\<lambda>(k, ref). valid_name k \<and> valid_ref ref) args \<Longrightarrow> find_args (show_args args) = args"
proof (induction args)
  case Nil
  then show ?case by (simp add: show_args_def find_args_Nil)
next
  case (Cons kr args)
  obtain k ref where kr: "kr = (k, ref)" by (cases kr)
  show ?case
  proof (cases args)
    case Nil
    then show ?thesis using Cons.prems kr find_args_one [of k ref "[]"]
      by (simp add: show_args_def find_args_Nil)
  next
    case (Cons kr' args')
    then have "show_args (kr # args) = k @ lit '': '' @ ref @ lit '', '' @ show_args args"
      by (simp add: show_args_def kr)
    moreover have "find_args (lit '', '' @ show_args args) = args"
      using Cons.IH Cons.prems by (simp add: lit_Cons find_args_skip)
    ultimately show ?thesis
      using Cons.prems kr find_args_one [of k ref "lit '', '' @ show_args args"] by (simp add: lit_Cons)
  qed
qed

section \<open>Lines\<close>

definition plain_line :: "pystr \<Rightarrow> bool" where
  "plain_line s \<longleftrightarrow> s \<noteq> [] \<and> list_all (\<lambda>c. \<not> line_break c \<and> c \<noteq> Lat (CHR ''#'')) s
     \<and> \<not> isspace_c (hd s) \<and> \<not> isspace_c (last s)"

lemma strip_by_id: "s \<noteq> [] \<Longrightarrow> \<not> p (hd s) \<Longrightarrow> \<not> p (last s) \<Longrightarrow> strip_by p s = s"
proof -
  assume a: "s \<noteq> []" "\<not> p (hd s)" "\<not> p (last s)"
  then have "dropWhile p s = s" by (cases s) auto
  moreover have "dropWhile p (rev s) = rev s" using a by (cases "rev s") (auto simp: hd_rev [symmetric])
  ultimately show ?thesis by (simp add: strip_by_def)
qed

lemma plain_line_text: "plain_line s \<Longrightarrow> strip (takeWhile (\<lambda>c. c \<noteq> Lat (CHR ''#'')) s) = s"
proof -
  assume s: "plain_line s"
  then have tw: "takeWhile (\<lambda>c. c \<noteq> Lat (CHR ''#'')) s = s"
    by (intro takeWhile_eq_all_conv [THEN iffD2]) (auto simp: plain_line_def list_all_iff)
  show ?thesis unfolding tw strip_def using s by (intro strip_by_id) (auto simp: plain_line_def)
qed

lemma splitlines_acc_line:
  "list_all (\<lambda>c. \<not> line_break c) l \<Longrightarrow>
   splitlines_acc acc (l @ Lat (CHR 0x0A) # rest) = (rev acc @ l) # splitlines_acc [] rest"
proof (induction l arbitrary: acc)
  case Nil
  then show ?case by (simp add: line_break_def)
next
  case (Cons c l)
  then have "\<not> line_break c" "cp c \<noteq> 13" by (auto simp: line_break_def)
  with Cons show ?case by simp
qed

lemma splitlines_acc_last:
  "list_all (\<lambda>c. \<not> line_break c) l \<Longrightarrow> acc @ l \<noteq> [] \<Longrightarrow> splitlines_acc acc l = [rev acc @ l]"
proof (induction l arbitrary: acc)
  case (Cons c l)
  then have "\<not> line_break c" "cp c \<noteq> 13" by (auto simp: line_break_def)
  with Cons show ?case by simp
qed simp

lemma splitlines_join:
  "list_all plain_line ls \<Longrightarrow> splitlines (join [Lat (CHR 0x0A)] ls) = ls"
proof (induction ls)
  case (Cons s ls)
  then have s: "s \<noteq> []" "list_all (\<lambda>c. \<not> line_break c) s" by (auto simp: plain_line_def list_all_iff)
  show ?case
  proof (cases ls)
    case Nil
    then show ?thesis using splitlines_acc_last [of s "[]"] s by (simp add: splitlines_def)
  next
    case (Cons t ss)
    with s(2) Cons.IH Cons.prems show ?thesis by (simp add: splitlines_def splitlines_acc_line)
  qed
qed (simp add: splitlines_def)

lemma plain_line_intro:
  assumes "list_all (\<lambda>c. \<not> line_break c \<and> c \<noteq> Lat (CHR ''#'')) (a # b @ [c])" "\<not> isspace_c a" "\<not> isspace_c c"
  shows "plain_line (a # b @ [c])"
  using assms by (simp add: plain_line_def)

lemma ref_plain: "list_all ref_c s \<Longrightarrow> list_all (\<lambda>c. \<not> line_break c \<and> c \<noteq> Lat (CHR ''#'')) s"
  using ref_c_not by (auto simp: list_all_iff)

lemma name_plain: "valid_name s \<Longrightarrow> list_all (\<lambda>c. \<not> line_break c \<and> c \<noteq> Lat (CHR ''#'')) s"
  by (intro ref_plain valid_ref_all valid_name_ref)

lemma valid_ref_last: "valid_ref s \<Longrightarrow> \<not> isspace_c (last s)"
  using valid_ref_all [of s] ref_c_not(1) by (auto simp: valid_ref_def list_all_iff)

lemma lit_plain:
  "list_all (\<lambda>c. \<not> line_break c \<and> c \<noteq> Lat (CHR ''#'')) (lit ''agent '')"
  "list_all (\<lambda>c. \<not> line_break c \<and> c \<noteq> Lat (CHR ''#'')) (lit ''description '')"
  "list_all (\<lambda>c. \<not> line_break c \<and> c \<noteq> Lat (CHR ''#'')) (lit ''input '')"
  "list_all (\<lambda>c. \<not> line_break c \<and> c \<noteq> Lat (CHR ''#'')) (lit ''step '')"
  "list_all (\<lambda>c. \<not> line_break c \<and> c \<noteq> Lat (CHR ''#'')) (lit ''output '')"
  "list_all (\<lambda>c. \<not> line_break c \<and> c \<noteq> Lat (CHR ''#'')) (lit '' = '')"
  "list_all (\<lambda>c. \<not> line_break c \<and> c \<noteq> Lat (CHR ''#'')) (lit '': '')"
  "list_all (\<lambda>c. \<not> line_break c \<and> c \<noteq> Lat (CHR ''#'')) (lit '', '')"
  "list_all (\<lambda>c. \<not> line_break c \<and> c \<noteq> Lat (CHR ''#'')) (lit ''('')"
  "list_all (\<lambda>c. \<not> line_break c \<and> c \<noteq> Lat (CHR ''#'')) (lit '')'')"
  "list_all (\<lambda>c. \<not> line_break c \<and> c \<noteq> Lat (CHR ''#'')) (lit ''@'')"
  "list_all (\<lambda>c. \<not> line_break c \<and> c \<noteq> Lat (CHR ''#'')) (lit ''?'')"
  "\<not> line_break (Lat (CHR 0x22))"
  by code_simp+

lemma lit_hd_not_space:
  "\<not> isspace_c (hd (lit ''agent ''))" "\<not> isspace_c (hd (lit ''description ''))"
  "\<not> isspace_c (hd (lit ''input ''))" "\<not> isspace_c (hd (lit ''step ''))" "\<not> isspace_c (hd (lit ''output ''))"
  "\<not> isspace_c (last (lit '')''))"
  by code_simp+

lemma show_args_plain:
  "list_all (\<lambda>(k, ref). valid_name k \<and> valid_ref ref) args \<Longrightarrow>
   list_all (\<lambda>c. \<not> line_break c \<and> c \<noteq> Lat (CHR ''#'')) (show_args args)"
proof (induction args)
  case (Cons kr args)
  obtain k ref where "kr = (k, ref)" by (cases kr)
  with Cons show ?case
    by (cases args) (auto simp: show_args_def lit_plain name_plain ref_plain valid_ref_all)
qed (simp add: show_args_def)

lemmas line_plain = lit_plain lit_hd_not_space name_plain ref_plain valid_ref_all valid_ref_last

lemma plain_agent: "valid_name n \<Longrightarrow> plain_line (lit ''agent '' @ n)"
  using valid_ref_last [OF valid_name_ref] valid_name_hd by (simp add: plain_line_def line_plain)

lemma plain_description:
  "valid_description d \<Longrightarrow> plain_line (lit ''description '' @ Lat (CHR 0x22) # d @ [Lat (CHR 0x22)])"
  by (simp add: plain_line_def line_plain valid_description_def) code_simp

lemma plain_input: "valid_name f \<Longrightarrow> valid_name ty \<Longrightarrow> plain_line (show_input (f, ty, opt))"
  using valid_ref_last [OF valid_name_ref] valid_name_hd by (simp add: plain_line_def line_plain)

lemma plain_output: "valid_name f \<Longrightarrow> valid_ref ref \<Longrightarrow> plain_line (show_output (f, ref))"
  using valid_ref_hd by (simp add: plain_line_def line_plain)

lemma plain_step:
  "valid_name n \<Longrightarrow> valid_name c \<Longrightarrow> (\<And>w. v = Some w \<Longrightarrow> valid_name w) \<Longrightarrow>
   list_all (\<lambda>(k, ref). valid_name k \<and> valid_ref ref) args \<Longrightarrow> plain_line (show_step (n, c, v, args))"
  by (auto simp: plain_line_def line_plain show_args_plain split: option.splits)

section \<open>Parsing printed lines\<close>

lemma dispatch:
  "startswith (lit ''agent '' @ s) (lit ''agent '')"
  "\<not> startswith (lit ''description '' @ s) (lit ''agent '')" "startswith (lit ''description '' @ s) (lit ''description'')"
  "\<not> startswith (lit ''input '' @ s) (lit ''agent '')" "\<not> startswith (lit ''input '' @ s) (lit ''description'')"
  "startswith (lit ''input '' @ s) (lit ''input '')"
  "\<not> startswith (lit ''step '' @ s) (lit ''agent '')" "\<not> startswith (lit ''step '' @ s) (lit ''description'')"
  "\<not> startswith (lit ''step '' @ s) (lit ''input '')" "startswith (lit ''step '' @ s) (lit ''step '')"
  "\<not> startswith (lit ''output '' @ s) (lit ''agent '')" "\<not> startswith (lit ''output '' @ s) (lit ''description'')"
  "\<not> startswith (lit ''output '' @ s) (lit ''input '')" "\<not> startswith (lit ''output '' @ s) (lit ''step '')"
  "startswith (lit ''output '' @ s) (lit ''output '')"
  by (simp_all add: startswith_def lit_def)

lemma strip_quotes:
  "valid_description d \<Longrightarrow> strip_by (\<lambda>c. c = Lat (CHR 0x22)) (Lat (CHR 0x22) # d @ [Lat (CHR 0x22)]) = d"
proof (cases "d = []")
  case False
  assume d: "valid_description d"
  let ?p = "\<lambda>c. c = Lat (CHR 0x22)"
  have "dropWhile ?p (d @ [Lat (CHR 0x22)]) = d @ [Lat (CHR 0x22)]"
    using d False by (cases d) (auto simp: valid_description_def)
  moreover have "dropWhile ?p (rev d) = rev d"
    using d False by (cases "rev d") (auto simp: valid_description_def hd_rev [symmetric])
  ultimately show ?thesis by (simp add: strip_by_def)
qed (simp add: strip_by_def)

lemma strip_name: "valid_name n \<Longrightarrow> strip n = n"
  using valid_name_hd valid_ref_last [OF valid_name_ref] by (auto simp: strip_def intro!: strip_by_id)

lemma parse_agent: "valid_name n \<Longrightarrow> parse_line i (lit ''agent '' @ n) d = d\<lparr>d_name := n\<rparr>"
proof -
  assume n: "valid_name n"
  have "drop (length (lit ''agent '')) (lit ''agent '' @ n) = n" by simp
  with n show ?thesis
    by (simp add: parse_line_def plain_line_text [OF plain_agent] dispatch agent_line_def strip_name
        fullmatch_NAME Let_def del: length_lit)
qed

lemma parse_description:
  assumes "valid_description t"
  shows "parse_line i (lit ''description '' @ Lat (CHR 0x22) # t @ [Lat (CHR 0x22)]) d = d\<lparr>d_description := t\<rparr>"
proof -
  let ?q = "Lat (CHR 0x22) # t @ [Lat (CHR 0x22)]"
  have "drop (length (lit ''description'')) (lit ''description '' @ ?q) = Lat (CHR '' '') # ?q"
    by (simp add: lit_def)
  moreover have "strip (Lat (CHR '' '') # ?q) = ?q"
  proof -
    have "\<not> isspace_c (Lat (CHR 0x22))" by code_simp
    then show ?thesis by (simp add: strip_def strip_by_def)
  qed
  ultimately have "description_line (lit ''description '' @ ?q) d = d\<lparr>d_description := t\<rparr>"
    using strip_quotes [OF assms] by (simp add: description_line_def del: length_lit)
  then show ?thesis
    unfolding parse_line_def Let_def plain_line_text [OF plain_description [OF assms]] by (simp add: dispatch)
qed

fun add_input :: "pystr \<times> pystr \<times> bool \<Rightarrow> dsl_state \<Rightarrow> dsl_state" where
  "add_input (f, ty, opt) d =
     d\<lparr>d_props := dict_set f (JObj [(lit ''type'', JStr ty)]) (d_props d),
       d_required := d_required d @ (if opt then [] else [f])\<rparr>"

fun add_step :: "pystr \<times> pystr \<times> pystr option \<times> (pystr \<times> pystr) list \<Rightarrow> dsl_state \<Rightarrow> dsl_state" where
  "add_step (n, c, v, args) d =
     d\<lparr>d_steps := d_steps d @
        [\<lparr>s_name = n, s_capability = c, s_vendor = v, s_version = None, s_inputs = args\<rparr>]\<rparr>"

fun add_output :: "pystr \<times> pystr \<Rightarrow> dsl_state \<Rightarrow> dsl_state" where
  "add_output (f, ref) d = d\<lparr>d_output := dict_set f ref (d_output d)\<rparr>"

lemma base_types:
  "ty \<in> {lit ''string'', lit ''number'', lit ''integer'', lit ''boolean''} \<Longrightarrow>
   valid_name ty \<and> dict_get types_table ty = Some ty"
proof -
  have "valid_name (lit ''string'') \<and> dict_get types_table (lit ''string'') = Some (lit ''string'')"
    "valid_name (lit ''number'') \<and> dict_get types_table (lit ''number'') = Some (lit ''number'')"
    "valid_name (lit ''integer'') \<and> dict_get types_table (lit ''integer'') = Some (lit ''integer'')"
    "valid_name (lit ''boolean'') \<and> dict_get types_table (lit ''boolean'') = Some (lit ''boolean'')"
    by code_simp+
  then show "ty \<in> {lit ''string'', lit ''number'', lit ''integer'', lit ''boolean''} \<Longrightarrow> ?thesis" by auto
qed

lemma parse_input:
  assumes "valid_name f" "ty \<in> {lit ''string'', lit ''number'', lit ''integer'', lit ''boolean''}"
  shows "parse_line i (show_input (f, ty, opt)) d = add_input (f, ty, opt) d"
proof -
  have ty: "valid_name ty" "dict_get types_table ty = Some ty" using base_types [OF assms(2)] by auto
  have "input_line i (show_input (f, ty, opt)) d = add_input (f, ty, opt) d"
    unfolding input_line_def fullmatch_input [OF assms(1) ty(1)]
    by (simp add: dict_get_def Let_def ty(2) [unfolded dict_get_def])
  then show ?thesis
    unfolding parse_line_def Let_def plain_line_text [OF plain_input [OF assms(1) ty(1)]]
    by (simp add: dispatch)
qed

lemma parse_output:
  assumes "valid_name f" "valid_ref ref"
  shows "parse_line i (show_output (f, ref)) d = add_output (f, ref) d"
proof -
  have "output_line i (show_output (f, ref)) d = add_output (f, ref) d"
    unfolding output_line_def fullmatch_output [OF assms] by (simp add: dict_get_def)
  then show ?thesis
    unfolding parse_line_def Let_def plain_line_text [OF plain_output [OF assms]]
    by (simp add: dispatch)
qed

lemma parse_step:
  assumes "valid_name n" "valid_name c" "\<And>w. v = Some w \<Longrightarrow> valid_name w" "distinct (map fst args)"
    and "list_all (\<lambda>(k, ref). valid_name k \<and> valid_ref ref) args"
  shows "parse_line i (show_step (n, c, v, args)) d = add_step (n, c, v, args) d"
proof -
  have plain: "plain_line (show_step (n, c, v, args))" using assms by (intro plain_step)
  have "list_all (\<lambda>c. c \<noteq> Lat (CHR 0x0A)) (show_args args)"
    using show_args_plain [OF assms(5)] by (auto simp: list_all_iff line_break_def)
  then obtain m where "fullmatch STEP_RE (show_step (n, c, v, args)) = Some m" "dict_get m 1 = Some n"
      "dict_get m 2 = Some c" "dict_get m 3 = v" "dict_get m 4 = Some (show_args args)"
    using fullmatch_step [OF assms(1-3)] by blast
  then have "step_line i (show_step (n, c, v, args)) d = add_step (n, c, v, args) d"
    using find_args_show [OF assms(5)] dict_of_distinct [OF assms(4)]
    by (simp add: step_line_def del: One_nat_def)
  then show ?thesis
    unfolding parse_line_def Let_def plain_line_text [OF plain]
    by (simp add: dispatch)
qed

lemma parse_lines_fold:
  "(\<And>x i d. x \<in> set xs \<Longrightarrow> parse_line i (sh x) d = g x d) \<Longrightarrow>
   parse_lines i (map sh xs @ rest) d = parse_lines (i + length xs) rest (fold g xs d)"
  by (induction xs arbitrary: i d) auto

lemma fold_add_inputs:
  "fold add_input xs d = d\<lparr>d_props := fold (\<lambda>(k, v). dict_set k v) (map (\<lambda>(f, ty, opt). (f, JObj [(lit ''type'', JStr ty)])) xs) (d_props d),
     d_required := d_required d @ map fst (filter (\<lambda>(f, ty, opt). \<not> opt) xs)\<rparr>"
proof (induction xs arbitrary: d)
  case (Cons x xs)
  obtain f ty opt where "x = (f, ty, opt)" by (cases x)
  then show ?case by (simp add: Cons.IH)
qed simp

lemma fold_add_steps:
  "fold add_step xs d = d\<lparr>d_steps := d_steps d @ map (\<lambda>(n, c, v, args).
     \<lparr>s_name = n, s_capability = c, s_vendor = v, s_version = None, s_inputs = args\<rparr>) xs\<rparr>"
proof (induction xs arbitrary: d)
  case (Cons x xs)
  obtain n c v args where "x = (n, c, v, args)" by (cases x)
  then show ?case by (simp add: Cons.IH)
qed simp

lemma fold_add_outputs:
  "fold add_output xs d = d\<lparr>d_output := fold (\<lambda>(k, v). dict_set k v) xs (d_output d)\<rparr>"
proof (induction xs arbitrary: d)
  case (Cons x xs)
  obtain f ref where "x = (f, ref)" by (cases x)
  then show ?case by (simp add: Cons.IH)
qed simp

lemma agent_lines_plain:
  assumes "agent_ok a"
  shows "list_all plain_line
    ([lit ''agent '' @ a_name a, lit ''description '' @ Lat (CHR 0x22) # a_description a @ [Lat (CHR 0x22)]] @
     map show_input (a_inputs a) @ map show_step (a_steps a) @ map show_output (a_outputs a))"
proof -
  have "plain_line (show_input x)" if "x \<in> set (a_inputs a)" for x
    using assms that base_types by (cases x) (fastforce simp: agent_ok_def list_all_iff intro!: plain_input)
  moreover have "plain_line (show_step x)" if "x \<in> set (a_steps a)" for x
    using assms that by (cases x) (fastforce simp: agent_ok_def list_all_iff intro!: plain_step)
  moreover have "plain_line (show_output x)" if "x \<in> set (a_outputs a)" for x
    using assms that by (cases x) (fastforce simp: agent_ok_def list_all_iff intro!: plain_output)
  ultimately show ?thesis
    using assms plain_agent plain_description by (auto simp: list_all_iff agent_ok_def)
qed

section \<open>Properties\<close>

lemma parse_show:
  assumes "agent_ok a"
  shows "parse (show_agent a) = (Some (composite_of a), [])"
proof -
  let ?d = "dsl_init\<lparr>d_name := a_name a, d_description := a_description a\<rparr>"
  have i: "parse_line n (show_input x) d = add_input x d" if "x \<in> set (a_inputs a)" for n x d
    using assms that by (cases x) (fastforce simp: agent_ok_def list_all_iff simp del: show_input.simps
        add_input.simps intro!: parse_input)
  have st: "parse_line n (show_step x) d = add_step x d" if "x \<in> set (a_steps a)" for n x d
    using assms that by (cases x) (fastforce simp: agent_ok_def list_all_iff simp del: show_step.simps
        add_step.simps intro!: parse_step)
  have o: "parse_line n (show_output x) d = add_output x d" if "x \<in> set (a_outputs a)" for n x d
    using assms that by (cases x) (fastforce simp: agent_ok_def list_all_iff simp del: show_output.simps
        add_output.simps intro!: parse_output)
  have "parse_lines 1 (splitlines (show_agent a)) dsl_init =
      fold add_output (a_outputs a) (fold add_step (a_steps a) (fold add_input (a_inputs a) ?d))"
    unfolding show_agent_def splitlines_join [OF agent_lines_plain [OF assms]]
    using assms parse_lines_fold [of "a_outputs a" show_output add_output _ "[]", OF o]
    by (simp add: parse_agent parse_description agent_ok_def parse_lines_fold [OF i] parse_lines_fold [OF st])
  then have d: "parse_lines 1 (splitlines (show_agent a)) dsl_init =
      \<lparr>d_name = a_name a, d_description = a_description a,
       d_props = map (\<lambda>(f, ty, opt). (f, JObj [(lit ''type'', JStr ty)])) (a_inputs a),
       d_required = map fst (filter (\<lambda>(f, ty, opt). \<not> opt) (a_inputs a)),
       d_steps = map (\<lambda>(n, c, v, args).
         \<lparr>s_name = n, s_capability = c, s_vendor = v, s_version = None, s_inputs = args\<rparr>) (a_steps a),
       d_output = a_outputs a, d_errors = []\<rparr>"
    using assms dict_of_distinct [of "map (\<lambda>(f, ty, opt). (f, JObj [(lit ''type'', JStr ty)])) (a_inputs a)"]
      dict_of_distinct [of "a_outputs a"]
    by (simp add: fold_add_inputs fold_add_steps fold_add_outputs dsl_init_def agent_ok_def comp_def
        case_prod_beta dict_of_def)
  have "a_name a \<noteq> []" "a_steps a \<noteq> []" using assms by (auto simp: agent_ok_def valid_name_def)
  then show ?thesis
    unfolding parse_def d by (simp add: final_errors_def agent_composite_def post_init_def composite_of_def Let_def)
qed

text \<open>
  C13. Round trip: parsing the text of an agent gives back exactly its composite, without
  errors: name, description, typed inputs with the required ones, every step with its vendor
  pin and its arguments in order, and the outputs.
\<close>

theorem parse_show_agent:
  assumes "agent_ok a"
  shows "parse (show_agent a) = (Some (composite_of a), [])"
  using assms by (rule parse_show)

definition sample_agent :: agent where
  "sample_agent = \<lparr>a_name = lit ''greet-report'', a_description = lit ''Greet someone.'',
     a_inputs = [(lit ''name'', lit ''string'', False), (lit ''loud'', lit ''boolean'', True)],
     a_steps = [(lit ''greeting'', lit ''greet'', Some (lit ''acme''), [(lit ''name'', lit ''input.name'')]),
                (lit ''stats'', lit ''text_stats'', None, [(lit ''text'', lit ''greeting.greeting'')])],
     a_outputs = [(lit ''words'', lit ''stats.words'')]\<rparr>"

theorem parse_show_agent_witness:
  "parse (show_agent sample_agent) = (Some (composite_of sample_agent), [])"
proof -
  have "agent_ok sample_agent" by code_simp
  then show ?thesis by (rule parse_show_agent)
qed

end
