(* ===== verification/AgentSound.thy ===== *)
theory AgentSound
  imports AgentPrint
begin

text \<open>
  Soundness of the agent parser: what a capturing group captures is matched by the group's
  own pattern, and the composite the parser returns is well-formed whatever the text was.
\<close>

section \<open>Captures\<close>

declare match.simps(7) [simp]

lemma match_extend: "(cs, t) \<in> set (match r s) \<Longrightarrow> (cs, t @ y) \<in> set (match r (s @ y))"
proof (induction r s arbitrary: cs t rule: match.induct)
  case (4 p r)
  then have "(cs, t @ y) \<in> set (match r y)" by simp
  moreover have "set (match r y) \<subseteq> set (match (Star p # r) y)" by (cases y) auto
  ultimately show ?case by auto
next
  case (7 i q r s)
  then obtain cq u ds where m: "(cq, u) \<in> set (match q s)" "(ds, t) \<in> set (match r u)"
    "cs = (i, take (length s - length u) s) # cq @ ds" by auto
  have "length u \<le> length s" using match_rest_le [OF m(1)] .
  then have "take (length (s @ y) - length (u @ y)) (s @ y) = take (length s - length u) s" by simp
  moreover have "(cq, u @ y) \<in> set (match q (s @ y))" "(ds, t @ y) \<in> set (match r (u @ y))"
    using 7(1) [OF m(1)] 7(2) [OF m(1) refl m(2)] by auto
  ultimately show ?case using m(3) by force
qed (auto split: if_splits)

lemma match_prefix:
  "(cs, t) \<in> set (match r s) \<Longrightarrow> \<exists>x. s = x @ t \<and> (cs, []) \<in> set (match r x)"
proof (induction r s arbitrary: cs t rule: match.induct)
  case (3 p r c s)
  then obtain x where "s = x @ t" "(cs, []) \<in> set (match r x)" "p c" by (auto split: if_splits)
  then show ?case by (intro exI [of _ "c # x"]) auto
next
  case (5 p r c s)
  have star: "set (match r x) \<subseteq> set (match (Star p # r) x)" for x by (cases x) auto
  from 5(4) consider "p c" "(cs, t) \<in> set (match (Star p # r) s)" | "(cs, t) \<in> set (match r (c # s))"
    by (auto split: if_splits)
  then show ?case
  proof cases
    case 1
    then obtain x where "s = x @ t" "(cs, []) \<in> set (match (Star p # r) x)" using 5(1) by blast
    with 1 show ?thesis by (intro exI [of _ "c # x"]) auto
  next
    case 2
    then have "\<exists>x. c # s = x @ t \<and> (cs, []) \<in> set (match r x)" using 5(2,3) by blast
    with star show ?thesis by blast
  qed
next
  case (6 q r s)
  then consider "(cs, t) \<in> set (match (q @ r) s)" | "(cs, t) \<in> set (match r s)" by auto
  then show ?case by cases (use 6(1,2) in fastforce)+
next
  case (7 i q r s)
  then obtain cq u ds where m: "(cq, u) \<in> set (match q s)" "(ds, t) \<in> set (match r u)"
    "cs = (i, take (length s - length u) s) # cq @ ds" by auto
  obtain x where x: "s = x @ u" "(cq, []) \<in> set (match q x)" using 7(1) [OF m(1)] by blast
  obtain z where z: "u = z @ t" "(ds, []) \<in> set (match r z)" using 7(2) [OF m(1) refl m(2)] by blast
  have "(cq, z) \<in> set (match q (x @ z))" using match_extend [OF x(2), of z] by simp
  then have "((i, x) # cq @ ds, []) \<in> set (match (Grp i q # r) (x @ z))" using z(2) by force
  then show ?case using m(3) x(1) z(1) by auto
qed (auto intro: exI [of _ "[]"])

fun groups :: "re list \<Rightarrow> (nat \<times> re list) list" where
  "groups [] = []"
| "groups (Chr p # r) = groups r"
| "groups (Star p # r) = groups r"
| "groups (Opt q # r) = groups q @ groups r"
| "groups (Grp i q # r) = (i, q) # groups q @ groups r"

text \<open>Groups that take part in every match: those outside options.\<close>

fun always :: "re list \<Rightarrow> nat list" where
  "always [] = []"
| "always (Chr p # r) = always r"
| "always (Star p # r) = always r"
| "always (Opt q # r) = always r"
| "always (Grp i q # r) = i # always r"

lemma groups_append: "groups (q @ r) = groups q @ groups r"
  by (induction q rule: groups.induct) auto

lemma always_append: "set (always r) \<subseteq> set (always (q @ r))"
  by (induction q rule: always.induct) auto

lemma captures_sound:
  "(cs, t) \<in> set (match r s) \<Longrightarrow> (i, x) \<in> set cs \<Longrightarrow>
   \<exists>q c. (i, q) \<in> set (groups r) \<and> (c, []) \<in> set (match q x)"
proof (induction r s arbitrary: cs t rule: match.induct)
  case (6 q r s)
  then consider "(cs, t) \<in> set (match (q @ r) s)" | "(cs, t) \<in> set (match r s)" by auto
  then show ?case by cases (use 6(1,2,4) in \<open>fastforce simp: groups_append\<close>)+
next
  case (7 j q r s)
  then obtain cq u ds where m: "(cq, u) \<in> set (match q s)" "(ds, t) \<in> set (match r u)"
    "cs = (j, take (length s - length u) s) # cq @ ds" by auto
  obtain z where z: "s = z @ u" "(cq, []) \<in> set (match q z)" using match_prefix [OF m(1)] by blast
  from 7(4) m(3) consider "i = j" "x = z" | "(i, x) \<in> set cq" | "(i, x) \<in> set ds" using z(1) by auto
  then show ?case
  proof cases
    case 1
    then show ?thesis using z(2) by auto
  next
    case 2
    then show ?thesis using 7(1) [OF m(1)] by auto
  next
    case 3
    then show ?thesis using 7(2) [OF m(1) refl m(2)] by auto
  qed
qed (auto split: if_splits)

lemma captures_always: "(cs, t) \<in> set (match r s) \<Longrightarrow> set (always r) \<subseteq> fst ` set cs"
proof (induction r s arbitrary: cs t rule: match.induct)
  case (6 q r s)
  then consider "(cs, t) \<in> set (match (q @ r) s)" | "(cs, t) \<in> set (match r s)" by auto
  then show ?case by cases (use 6(1,2) always_append [of r q] in fastforce)+
next
  case (7 j q r s)
  then obtain cq u ds where m: "(cq, u) \<in> set (match q s)" "(ds, t) \<in> set (match r u)"
    "cs = (j, take (length s - length u) s) # cq @ ds" by auto
  then show ?case using 7(2) [OF m(1) refl m(2)] by auto
qed (fastforce split: if_splits)+

declare match.simps(7) [simp del]

lemma fullmatch_in: "fullmatch r s = Some m \<Longrightarrow> (m, []) \<in> set (match r s)"
  by (auto simp: fullmatch_def find_Some_iff) (metis nth_mem)

lemma captured:
  assumes "(m, t) \<in> set (match r s)" "dict_get m i = Some x" "\<And>q. (i, q) \<in> set (groups r) \<Longrightarrow> q = q0"
  shows "\<exists>c. (c, []) \<in> set (match q0 x)"
  using captures_sound [OF assms(1) dict_get_Some_in [OF assms(2)]] assms(3) by blast

lemma captured_always:
  assumes "(m, t) \<in> set (match r s)" "i \<in> set (always r)"
  shows "\<exists>x. dict_get m i = Some x"
proof -
  have "i \<in> set (dict_keys m)" using captures_always [OF assms(1)] assms(2) by (auto simp: dict_keys_def)
  then show ?thesis using dict_get_None_iff [of m i] by auto
qed

lemma match_star_all: "(c, []) \<in> set (match [Star p] x) \<Longrightarrow> list_all p x"
  by (induction x) (auto split: if_splits)

lemma match_NAME_valid: "(c, []) \<in> set (match NAME x) \<Longrightarrow> valid_name x"
  by (cases x) (auto simp: NAME_def valid_name_def match_star_all split: if_splits)

lemma match_REF_valid: "(c, []) \<in> set (match REF x) \<Longrightarrow> valid_ref x"
  by (cases x) (auto simp: REF_def valid_ref_def match_star_all split: if_splits)

section \<open>Lines and arguments\<close>

lemma input_groups:
  "groups INPUT_RE = [(1, NAME), (2, [Opt [chr CHR ''?'']]), (3, NAME)]" "always INPUT_RE = [1, 2, 3]"
  "groups STEP_RE = [(1, NAME), (2, NAME), (3, NAME), (4, [Star (\<lambda>c. c \<noteq> Lat (CHR 0x0A))])]"
  "always STEP_RE = [1, 2, 4]"
  "groups OUTPUT_RE = [(1, NAME), (2, REF)]" "always OUTPUT_RE = [1, 2]"
  "groups ARG_RE = [(1, NAME), (2, REF)]" "always ARG_RE = [1, 2]"
  by (simp_all add: INPUT_RE_def STEP_RE_def OUTPUT_RE_def ARG_RE_def word_def chr_def spaces1_def spaces_def
      NAME_def REF_def)

lemma find_args_sound: "(k, ref) \<in> set (find_args s) \<Longrightarrow> valid_name k \<and> valid_ref ref"
proof (induction s rule: find_args.induct)
  case (1 s)
  show ?case
  proof (cases "match ARG_RE s")
    case Nil
    then have "find_args s = (case s of [] \<Rightarrow> [] | c # t \<Rightarrow> find_args t)" by (simp add: find_args.simps [of s])
    then show ?thesis using 1 Nil by (cases s) auto
  next
    case (Cons m ms)
    obtain cs t where m: "m = (cs, t)" by (cases m)
    then have in_m: "(cs, t) \<in> set (match ARG_RE s)" using Cons by simp
    obtain k' where k: "dict_get cs 1 = Some k'"
      using captured_always [OF in_m, of 1] by (auto simp: input_groups)
    obtain r' where r: "dict_get cs 2 = Some r'"
      using captured_always [OF in_m, of 2] by (auto simp: input_groups)
    have "valid_name k'" using captured [OF in_m k, of NAME] match_NAME_valid by (auto simp: input_groups)
    moreover have "valid_ref r'" using captured [OF in_m r, of REF] match_REF_valid by (auto simp: input_groups)
    ultimately show ?thesis
      using 1 Cons m k r by (auto simp: find_args.simps [of s])
  qed
qed

lemma input_line_captures:
  assumes "fullmatch INPUT_RE line = Some m"
  shows "valid_name (the (dict_get m 1))"
proof -
  have in_m: "(m, []) \<in> set (match INPUT_RE line)" using assms by (rule fullmatch_in)
  obtain f where f: "dict_get m 1 = Some f" using captured_always [OF in_m, of 1] by (auto simp: input_groups)
  show ?thesis using captured [OF in_m f, of NAME] match_NAME_valid f by (auto simp: input_groups)
qed

lemma output_line_captures:
  assumes "fullmatch OUTPUT_RE line = Some m"
  shows "valid_name (the (dict_get m 1)) \<and> valid_ref (the (dict_get m 2))"
proof -
  have in_m: "(m, []) \<in> set (match OUTPUT_RE line)" using assms by (rule fullmatch_in)
  obtain f where f: "dict_get m 1 = Some f" using captured_always [OF in_m, of 1] by (auto simp: input_groups)
  obtain r where r: "dict_get m 2 = Some r" using captured_always [OF in_m, of 2] by (auto simp: input_groups)
  show ?thesis
    using captured [OF in_m f, of NAME] captured [OF in_m r, of REF] match_NAME_valid match_REF_valid f r
    by (auto simp: input_groups)
qed

lemma step_line_captures:
  assumes "fullmatch STEP_RE line = Some m"
  shows "valid_name (the (dict_get m 1)) \<and> valid_name (the (dict_get m 2)) \<and>
    (\<forall>v. dict_get m 3 = Some v \<longrightarrow> valid_name v)"
proof -
  have in_m: "(m, []) \<in> set (match STEP_RE line)" using assms by (rule fullmatch_in)
  obtain f where f: "dict_get m 1 = Some f" using captured_always [OF in_m, of 1] by (auto simp: input_groups)
  obtain r where r: "dict_get m 2 = Some r" using captured_always [OF in_m, of 2] by (auto simp: input_groups)
  have v: "valid_name v" if "dict_get m 3 = Some v" for v
    using captured [OF in_m that, of NAME] match_NAME_valid by (auto simp: input_groups)
  show ?thesis
    using captured [OF in_m f, of NAME] captured [OF in_m r, of NAME] match_NAME_valid f r v
    by (auto simp: input_groups)
qed

lemma types_table_values:
  "dict_get types_table t = Some ty \<Longrightarrow> ty \<in> {lit ''string'', lit ''number'', lit ''integer'', lit ''boolean''}"
  by (auto dest!: dict_get_Some_in simp: types_table_def)

section \<open>Well-formed composites\<close>

definition step_wf :: "step \<Rightarrow> bool" where
  "step_wf st \<longleftrightarrow> valid_name (s_name st) \<and> valid_name (s_capability st)
     \<and> (\<forall>v. s_vendor st = Some v \<longrightarrow> valid_name v) \<and> s_version st = None
     \<and> dict_ok (s_inputs st) \<and> (\<forall>(k, ref) \<in> set (s_inputs st). valid_name k \<and> valid_ref ref)"

definition props_wf :: "json_obj \<Rightarrow> bool" where
  "props_wf props \<longleftrightarrow> dict_ok props \<and> (\<forall>(f, v) \<in> set props. valid_name f \<and>
     (\<exists>ty \<in> {lit ''string'', lit ''number'', lit ''integer'', lit ''boolean''}.
        v = JObj [(lit ''type'', JStr ty)]))"

definition output_wf :: "(pystr, pystr) dict \<Rightarrow> bool" where
  "output_wf out \<longleftrightarrow> dict_ok out \<and> (\<forall>(f, ref) \<in> set out. valid_name f \<and> valid_ref ref)"

definition dsl_wf :: "dsl_state \<Rightarrow> bool" where
  "dsl_wf d \<longleftrightarrow>
     (d_errors d = [] \<longrightarrow> d_name d = [] \<or> valid_name (d_name d))
     \<and> props_wf (d_props d) \<and> set (d_required d) \<subseteq> set (dict_keys (d_props d))
     \<and> (\<forall>st \<in> set (d_steps d). step_wf st) \<and> output_wf (d_output d)"

lemma set_dict_set: "set (dict_set k v d) \<subseteq> insert (k, v) (set d)"
proof
  fix x assume "x \<in> set (dict_set k v d)"
  then show "x \<in> insert (k, v) (set d)"
    by (induction d) (auto simp: dict_set_def split: if_splits)
qed

lemma line_error_wf: "dsl_wf d \<Longrightarrow> dsl_wf (line_error i msg d)"
  by (simp add: dsl_wf_def line_error_def)

lemma agent_line_wf: "dsl_wf d \<Longrightarrow> dsl_wf (agent_line i line d)"
proof -
  assume d: "dsl_wf d"
  let ?n = "strip (drop (length (lit ''agent '')) line)"
  show ?thesis
  proof (cases "fullmatch NAME ?n")
    case None
    then show ?thesis using d by (simp add: agent_line_def dsl_wf_def line_error_def Let_def)
  next
    case (Some m)
    then have "valid_name ?n" using fullmatch_in match_NAME_valid by blast
    with Some d show ?thesis by (simp add: agent_line_def dsl_wf_def Let_def)
  qed
qed

lemma input_line_wf: "dsl_wf d \<Longrightarrow> dsl_wf (input_line i line d)"
proof -
  assume d: "dsl_wf d"
  have add: "dsl_wf (d\<lparr>d_props := dict_set f (JObj [(lit ''type'', JStr ty)]) (d_props d),
      d_required := d_required d @ (if b then [f] else [])\<rparr>)"
    if "valid_name f" "ty \<in> {lit ''string'', lit ''number'', lit ''integer'', lit ''boolean''}" for f ty b
    using d that set_dict_set [of f "JObj [(lit ''type'', JStr ty)]" "d_props d"]
    by (auto simp: dsl_wf_def props_wf_def dict_ok_set set_dict_keys_set)
  have "dsl_wf (input_line i line d)" if m: "fullmatch INPUT_RE line = Some m" for m
  proof (cases "dict_get types_table (the (dict_get m 3))")
    case None
    then show ?thesis using d m by (simp add: input_line_def line_error_wf Let_def)
  next
    case (Some ty)
    from add [OF input_line_captures [OF m] types_table_values [OF Some]]
    show ?thesis using m Some by (simp only: input_line_def option.case Let_def)
  qed
  moreover have "dsl_wf (input_line i line d)" if "fullmatch INPUT_RE line = None"
    using d that by (simp add: input_line_def line_error_wf)
  ultimately show ?thesis by blast
qed

lemma step_line_wf: "dsl_wf d \<Longrightarrow> dsl_wf (step_line i line d)"
proof -
  assume d: "dsl_wf d"
  have "\<forall>(k, ref) \<in> set (dict_of (find_args a)). valid_name k \<and> valid_ref ref" for a
    using dict_of_image [of "find_args a"] find_args_sound by blast
  then have "dsl_wf (step_line i line d)" if "fullmatch STEP_RE line = Some m" for m
    using d that step_line_captures [OF that]
    by (auto simp: step_line_def dsl_wf_def step_wf_def dict_of_ok)
  moreover have "dsl_wf (step_line i line d)" if "fullmatch STEP_RE line = None"
    using d that by (simp add: step_line_def line_error_wf)
  ultimately show ?thesis by blast
qed

lemma output_line_wf: "dsl_wf d \<Longrightarrow> dsl_wf (output_line i line d)"
proof -
  assume d: "dsl_wf d"
  have "output_wf (dict_set f r (d_output d))" if "valid_name f" "valid_ref r" for f r
    using d that set_dict_set [of f r "d_output d"] by (auto simp: dsl_wf_def output_wf_def dict_ok_set)
  then have "dsl_wf (output_line i line d)" if "fullmatch OUTPUT_RE line = Some m" for m
    using d that output_line_captures [OF that] by (auto simp: output_line_def dsl_wf_def)
  moreover have "dsl_wf (output_line i line d)" if "fullmatch OUTPUT_RE line = None"
    using d that by (simp add: output_line_def line_error_wf)
  ultimately show ?thesis by blast
qed

lemma parse_line_wf: "dsl_wf d \<Longrightarrow> dsl_wf (parse_line i raw d)"
proof -
  assume d: "dsl_wf d"
  then have "dsl_wf (description_line line d)" for line by (simp add: description_line_def dsl_wf_def)
  then show ?thesis
    using d by (simp add: parse_line_def Let_def line_error_wf agent_line_wf input_line_wf step_line_wf
        output_line_wf)
qed

lemma parse_lines_wf: "dsl_wf d \<Longrightarrow> dsl_wf (parse_lines i raws d)"
  by (induction raws arbitrary: i d) (auto simp: parse_line_wf)

section \<open>Properties\<close>

lemma parse_result_wf:
  "case parse text of
     (None, errors) \<Rightarrow> errors \<noteq> []
   | (Some k, errors) \<Rightarrow> errors = [] \<and> valid_name (k_name k) \<and> k_capability k = k_name k
       \<and> k_steps k \<noteq> [] \<and> (\<forall>st \<in> set (k_steps k). step_wf st) \<and> output_wf (k_output k)
       \<and> (\<exists>props required. props_wf props \<and> set required \<subseteq> set (dict_keys props)
           \<and> k_input_schema k = [(lit ''type'', JStr (lit ''object'')), (lit ''properties'', JObj props)] @
             (if required \<noteq> [] then [(lit ''required'', JList (map JStr required))] else []))"
proof -
  let ?d = "parse_lines 1 (splitlines text) dsl_init"
  have "dsl_wf dsl_init" by (simp add: dsl_wf_def dsl_init_def props_wf_def output_wf_def)
  then have wf: "dsl_wf ?d" by (rule parse_lines_wf)
  show ?thesis
  proof (cases "final_errors ?d = []")
    case False
    then show ?thesis by (simp add: parse_def Let_def)
  next
    case True
    then have "d_errors ?d = []" "d_name ?d \<noteq> []" "d_steps ?d \<noteq> []"
      by (auto simp: final_errors_def Let_def split: if_splits)
    with wf True show ?thesis
      by (auto simp: parse_def Let_def agent_composite_def post_init_def dsl_wf_def)
  qed
qed

text \<open>
  C14. Whatever the text, the parser returns either a composite and no error or no composite
  and at least one error, and a composite it returns is well-formed: a valid name that is also
  its capability, at least one step, valid step, capability, vendor and argument names,
  references in every argument and output, input fields of the four types, and only declared
  fields required.
\<close>

theorem parse_well_formed:
  "case parse text of
     (None, errors) \<Rightarrow> errors \<noteq> []
   | (Some k, errors) \<Rightarrow> errors = [] \<and> valid_name (k_name k) \<and> k_capability k = k_name k
       \<and> k_steps k \<noteq> [] \<and> (\<forall>st \<in> set (k_steps k). step_wf st) \<and> output_wf (k_output k)
       \<and> (\<exists>props required. props_wf props \<and> set required \<subseteq> set (dict_keys props)
           \<and> k_input_schema k = [(lit ''type'', JStr (lit ''object'')), (lit ''properties'', JObj props)] @
             (if required \<noteq> [] then [(lit ''required'', JList (map JStr required))] else []))"
  by (rule parse_result_wf)

theorem parse_well_formed_witness:
  "\<exists>k. parse (show_agent sample_agent) = (Some k, []) \<and> (\<forall>st \<in> set (k_steps k). step_wf st) \<and> k_steps k \<noteq> []"
proof -
  have "agent_ok sample_agent" by code_simp
  then have p: "parse (show_agent sample_agent) = (Some (composite_of sample_agent), [])" by (rule parse_show)
  from parse_well_formed [of "show_agent sample_agent"] p show ?thesis by auto
qed

end
