(* ===== verification/Codegen.thy ===== *)
theory Codegen
  imports AgentSound
begin

text \<open>
  Client stubs, the code generation of \<open>gateway/agentdsl.py\<close>: the naming helpers, the six
  templates, and \<open>codegen\<close>, which substitutes the placeholders one after another.
\<close>

section \<open>Names\<close>

text \<open>\<open>_parts\<close>: the non-empty pieces between hyphens and underscores.\<close>

definition parts :: "pystr \<Rightarrow> pystr list" where
  "parts name =
     filter (\<lambda>p. p \<noteq> []) (concat (map (split_on (Lat (CHR ''_''))) (split_on (Lat (CHR ''-'')) name)))"

definition camel :: "pystr \<Rightarrow> pystr" where
  "camel name =
     (case parts name of [] \<Rightarrow> name | p # ps \<Rightarrow> lower p @ concat (map capitalize ps))"

definition or_else :: "pystr \<Rightarrow> pystr \<Rightarrow> pystr" where
  "or_else s t = (if s = [] then t else s)"

definition pascal :: "pystr \<Rightarrow> pystr" where
  "pascal name = or_else (concat (map capitalize (parts name))) name"

definition snake :: "pystr \<Rightarrow> pystr" where
  "snake name = or_else (join (lit ''_'') (parts name)) name"

section \<open>Tables\<close>

definition go_types :: "(pystr, pystr) dict" where
  "go_types = [(lit ''string'', lit ''string''), (lit ''number'', lit ''float64''),
     (lit ''integer'', lit ''int''), (lit ''boolean'', lit ''bool'')]"

definition ts_types :: "(pystr, pystr) dict" where
  "ts_types = [(lit ''string'', lit ''string''), (lit ''number'', lit ''number''),
     (lit ''integer'', lit ''number''), (lit ''boolean'', lit ''boolean'')]"

definition proto_types :: "(pystr, pystr) dict" where
  "proto_types = [(lit ''string'', lit ''string''), (lit ''number'', lit ''double''),
     (lit ''integer'', lit ''int64''), (lit ''boolean'', lit ''bool'')]"

definition LANGUAGES :: "pystr list" where
  "LANGUAGES = [lit ''js'', lit ''ts'', lit ''go'', lit ''rust'', lit ''java'', lit ''proto'']"

definition aliases :: "(pystr, pystr) dict" where
  "aliases = [(lit ''javascript'', lit ''js''), (lit ''typescript'', lit ''ts''), (lit ''golang'', lit ''go''),
     (lit ''rs'', lit ''rust''), (lit ''protobuf'', lit ''proto'')]"

section \<open>Templates\<close>

definition tabs :: "nat \<Rightarrow> pystr" where
  "tabs n = replicate n (Lat (CHR 0x09))"

definition text_lines :: "pystr list \<Rightarrow> pystr" where
  "text_lines ls = concat (map (\<lambda>l. l @ [Lat (CHR 0x0A)]) ls)"

definition template_js :: pystr where
  \<open>template_js = text_lines
    [lit ''// Generated from __NAME__.agent.next '' @ [EmDash] @ lit '' do not edit by hand.'',
     lit ''// Agent __NAME__ '' @ [EmDash] @ lit '' __DESC__'',
     lit ''export async function __CAMEL__(input, { baseUrl = "http://localhost:8000" } = {}) {'',
     lit ''  // input fields: __FIELDS__'',
     lit ''  const res = await fetch(`${baseUrl}/composites/__NAME__/invoke`, {'',
     lit ''    method: "POST",'',
     lit ''    headers: { "content-type": "application/json" },'',
     lit ''    body: JSON.stringify({ input }),'',
     lit ''  });'',
     lit ''  if (!res.ok) throw new Error(`agent __NAME__ failed: ${res.status}`);'',
     lit ''  const data = await res.json();'',
     lit ''  if (data.error) throw new Error(data.error);'',
     lit ''  return data.output; // __OUTS__'',
     lit ''}'']\<close>

definition template_go :: pystr where
  \<open>template_go = text_lines
    [lit ''// Generated from __NAME__.agent.next '' @ [EmDash] @ lit '' do not edit by hand.'',
     lit ''// Agent __NAME__ '' @ [EmDash] @ lit '' __DESC__'',
     lit ''package agents'',
     [],
     lit ''import ('',
     tabs 1 @ lit ''"bytes"'',
     tabs 1 @ lit ''"encoding/json"'',
     tabs 1 @ lit ''"fmt"'',
     tabs 1 @ lit ''"net/http"'',
     lit '')'',
     [],
     lit ''// __PASCAL__Input is the input for the __NAME__ agent.'',
     lit ''type __PASCAL__Input struct {'',
     lit ''__GOFIELDS__'',
     lit ''}'',
     [],
     lit ''// __PASCAL__ invokes the __NAME__ agent on the gateway at baseURL.'',
     lit ''// Returns the agent output (__OUTS__).'',
     lit ''func __PASCAL__(baseURL string, in __PASCAL__Input) (map[string]any, error) {'',
     tabs 1 @ lit ''body, err := json.Marshal(map[string]any{"input": in})'',
     tabs 1 @ lit ''if err != nil {'',
     tabs 2 @ lit ''return nil, err'',
     tabs 1 @ lit ''}'',
     tabs 1 @ lit ''resp, err := http.Post(baseURL+"/composites/__NAME__/invoke", "application/json", bytes.NewReader(body))'',
     tabs 1 @ lit ''if err != nil {'',
     tabs 2 @ lit ''return nil, err'',
     tabs 1 @ lit ''}'',
     tabs 1 @ lit ''defer resp.Body.Close()'',
     tabs 1 @ lit ''var out struct {'',
     tabs 2 @ lit ''Output map[string]any `json:"output"`'',
     tabs 2 @ lit ''Error  string         `json:"error"`'',
     tabs 1 @ lit ''}'',
     tabs 1 @ lit ''if err := json.NewDecoder(resp.Body).Decode(&out); err != nil {'',
     tabs 2 @ lit ''return nil, err'',
     tabs 1 @ lit ''}'',
     tabs 1 @ lit ''if out.Error != "" {'',
     tabs 2 @ lit ''return nil, fmt.Errorf("agent __NAME__: %s", out.Error)'',
     tabs 1 @ lit ''}'',
     tabs 1 @ lit ''return out.Output, nil'',
     lit ''}'']\<close>

definition template_rust :: pystr where
  \<open>template_rust = text_lines
    [lit ''// Generated from __NAME__.agent.next '' @ [EmDash] @ lit '' do not edit by hand.'',
     lit ''// Agent __NAME__ '' @ [EmDash] @ lit '' __DESC__'',
     lit ''// Requires: reqwest (blocking feature), serde_json.'',
     lit ''use serde_json::{json, Value};'',
     [],
     lit ''/// Invoke the __NAME__ agent on the gateway at `base_url`.'',
     lit ''/// Input fields: __RSFIELDS__ '' @ [EmDash] @ lit '' returns the agent output (__OUTS__).'',
     lit ''pub fn __SNAKE__(base_url: &str, input: Value) -> Result<Value, Box<dyn std::error::Error>> {'',
     lit ''    let client = reqwest::blocking::Client::new();'',
     lit ''    let resp: Value = client'',
     lit ''        .post(format!("{base_url}/composites/__NAME__/invoke"))'',
     lit ''        .json(&json!({ "input": input }))'',
     lit ''        .send()?'',
     lit ''        .json()?;'',
     lit ''    if let Some(err) = resp.get("error").and_then(Value::as_str) {'',
     lit ''        return Err(err.into());'',
     lit ''    }'',
     lit ''    Ok(resp.get("output").cloned().unwrap_or(Value::Null))'',
     lit ''}'']\<close>

definition template_ts :: pystr where
  \<open>template_ts = text_lines
    [lit ''// Generated from __NAME__.agent.next '' @ [EmDash] @ lit '' do not edit by hand.'',
     lit ''// Agent __NAME__ '' @ [EmDash] @ lit '' __DESC__'',
     lit ''export interface __PASCAL__Input { __TSFIELDS__ }'',
     [],
     lit ''export async function __CAMEL__('',
     lit ''  input: __PASCAL__Input,'',
     lit ''  baseUrl = "http://localhost:8000",'',
     lit ''): Promise<Record<string, unknown>> {'',
     lit ''  const res = await fetch(`${baseUrl}/composites/__NAME__/invoke`, {'',
     lit ''    method: "POST",'',
     lit ''    headers: { "content-type": "application/json" },'',
     lit ''    body: JSON.stringify({ input }),'',
     lit ''  });'',
     lit ''  if (!res.ok) throw new Error(`agent __NAME__ failed: ${res.status}`);'',
     lit ''  const data = await res.json();'',
     lit ''  if (data.error) throw new Error(data.error);'',
     lit ''  return data.output; // __OUTS__'',
     lit ''}'']\<close>

definition template_java :: pystr where
  \<open>template_java = text_lines
    [lit ''// Generated from __NAME__.agent.next '' @ [EmDash] @ lit '' do not edit by hand.'',
     lit ''// Agent __NAME__ '' @ [EmDash] @ lit '' __DESC__'',
     lit ''// Requires: com.fasterxml.jackson.databind (ObjectMapper), Java 11+ (java.net.http).'',
     lit ''package agents;'',
     [],
     lit ''import com.fasterxml.jackson.databind.JsonNode;'',
     lit ''import com.fasterxml.jackson.databind.ObjectMapper;'',
     lit ''import java.net.URI;'',
     lit ''import java.net.http.HttpClient;'',
     lit ''import java.net.http.HttpRequest;'',
     lit ''import java.net.http.HttpResponse;'',
     lit ''import java.util.Map;'',
     [],
     lit ''public final class __PASCAL__ {'',
     lit ''    private static final ObjectMapper MAPPER = new ObjectMapper();'',
     [],
     lit ''    // Invoke the __NAME__ agent on the gateway at baseUrl. Input fields: __FIELDS__'',
     lit ''    // Returns the agent output (__OUTS__).'',
     lit ''    public static JsonNode invoke(String baseUrl, Map<String, Object> input) throws Exception {'',
     lit ''        byte[] body = MAPPER.writeValueAsBytes(Map.of("input", input));'',
     lit ''        HttpRequest req = HttpRequest.newBuilder()'',
     lit ''                .uri(URI.create(baseUrl + "/composites/__NAME__/invoke"))'',
     lit ''                .header("content-type", "application/json")'',
     lit ''                .POST(HttpRequest.BodyPublishers.ofByteArray(body))'',
     lit ''                .build();'',
     lit ''        HttpResponse<String> resp = HttpClient.newHttpClient()'',
     lit ''                .send(req, HttpResponse.BodyHandlers.ofString());'',
     lit ''        JsonNode data = MAPPER.readTree(resp.body());'',
     lit ''        if (data.hasNonNull("error")) {'',
     lit ''            throw new RuntimeException("agent __NAME__: " + data.get("error").asText());'',
     lit ''        }'',
     lit ''        return data.get("output");'',
     lit ''    }'',
     lit ''}'']\<close>

definition template_proto :: pystr where
  \<open>template_proto = text_lines
    [lit ''// Generated from __NAME__.agent.next '' @ [EmDash] @ lit '' do not edit by hand.'',
     lit ''// Agent __NAME__ '' @ [EmDash] @ lit '' __DESC__'',
     lit ''syntax = "proto3";'',
     [],
     lit ''package agents.__SNAKE__;'',
     [],
     lit ''import "google/protobuf/struct.proto";'',
     [],
     lit ''service __PASCAL__ {'',
     lit ''  // Invoke the __NAME__ agent.'',
     lit ''  rpc Invoke(__PASCAL__Input) returns (__PASCAL__Output);'',
     lit ''}'',
     [],
     lit ''message __PASCAL__Input {'',
     lit ''__PROTOIN__'',
     lit ''}'',
     [],
     lit ''message __PASCAL__Output {'',
     lit ''  google.protobuf.Struct output = 1;  // __OUTS__'',
     lit ''}'']\<close>

section \<open>codegen\<close>

type_synonym substitutions = "(pystr \<times> pystr) list"

definition base_subs :: "composite \<Rightarrow> json_obj \<Rightarrow> substitutions" where
  "base_subs k props =
     [(lit ''__NAME__'', k_name k),
      (lit ''__DESC__'', or_else (k_description k) (lit ''(no description)'')),
      (lit ''__CAMEL__'', camel (k_name k)),
      (lit ''__PASCAL__'', pascal (k_name k)),
      (lit ''__SNAKE__'', snake (k_name k)),
      (lit ''__FIELDS__'', or_else (join (lit '', '') (dict_keys props)) (lit ''(no inputs)'')),
      (lit ''__OUTS__'', or_else (join (lit '', '') (dict_keys (k_output k))) (lit ''(none)''))]"

text \<open>\<open>v.get('type')\<close> of a property, with the default of the call.\<close>

definition prop_type :: "json \<Rightarrow> json \<Rightarrow> exn + json" where
  "prop_type v dflt = bindE (as_dict v) (\<lambda>d. Inr (get_or d (lit ''type'') dflt))"

definition ts_field :: "pystr \<times> json \<Rightarrow> exn + pystr" where
  "ts_field kv =
     bindE (prop_type (snd kv) JNull) (\<lambda>t.
     bindE (table_get ts_types t (lit ''unknown'')) (\<lambda>ty. Inr (fst kv @ lit '': '' @ ty)))"

definition go_field :: "pystr \<times> json \<Rightarrow> exn + pystr" where
  \<open>go_field kv =
     bindE (prop_type (snd kv) JNull) (\<lambda>t.
     bindE (table_get go_types t (lit ''any'')) (\<lambda>ty.
     Inr (tabs 1 @ pascal (fst kv) @ lit '' '' @ ty @ lit '' `json:"'' @ fst kv @ lit ''"`'')))\<close>

definition rust_field :: "pystr \<times> json \<Rightarrow> exn + pystr" where
  "rust_field kv =
     bindE (prop_type (snd kv) (JStr (lit ''string''))) (\<lambda>t. Inr (fst kv @ lit '': '' @ py_str t))"

definition proto_field :: "nat \<times> pystr \<times> json \<Rightarrow> exn + pystr" where
  "proto_field ikv =
     (let (i, kv) = ikv in
      bindE (prop_type (snd kv) JNull) (\<lambda>t.
      bindE (table_get proto_types t (lit ''string'')) (\<lambda>ty.
      Inr (lit ''  '' @ ty @ lit '' '' @ fst kv @ lit '' = '' @ str_of_nat i @ lit '';''))))"

text \<open>The template of a language and the substitution it adds, \<open>None\<close> for an unknown one.\<close>

definition target :: "pystr \<Rightarrow> json_obj \<Rightarrow> exn + (pystr \<times> substitutions) option" where
  "target lang props =
     (if lang = lit ''js'' then Inr (Some (template_js, []))
      else if lang = lit ''ts'' then
        bindE (mapE ts_field props) (\<lambda>fs.
        Inr (Some (template_ts, [(lit ''__TSFIELDS__'', or_else (join (lit ''; '') fs) (lit ''/* no inputs */''))])))
      else if lang = lit ''go'' then
        bindE (mapE go_field props) (\<lambda>fs.
        Inr (Some (template_go,
          [(lit ''__GOFIELDS__'', or_else (join [Lat (CHR 0x0A)] fs) (tabs 1 @ lit ''// (no inputs)''))])))
      else if lang = lit ''rust'' then
        bindE (mapE rust_field props) (\<lambda>fs.
        Inr (Some (template_rust, [(lit ''__RSFIELDS__'', or_else (join (lit '', '') fs) (lit ''(no inputs)''))])))
      else if lang = lit ''java'' then Inr (Some (template_java, []))
      else if lang = lit ''proto'' then
        bindE (mapE proto_field (zip [1..<length props + 1] props)) (\<lambda>fs.
        Inr (Some (template_proto,
          [(lit ''__PROTOIN__'', or_else (join [Lat (CHR 0x0A)] fs) (lit ''  // (no inputs)''))])))
      else Inr None)"

definition substitute :: "substitutions \<Rightarrow> pystr \<Rightarrow> pystr" where
  "substitute subs template = fold (\<lambda>(token, value) out. replace token value out) subs template"

definition codegen :: "composite \<Rightarrow> pystr \<Rightarrow> exn + pystr" where
  "codegen k lang0 =
     (let lang = (case dict_get aliases lang0 of None \<Rightarrow> lang0 | Some l \<Rightarrow> l) in
      bindE (as_dict (get_or (k_input_schema k) (lit ''properties'') (JObj []))) (\<lambda>props.
      bindE (target lang props) (\<lambda>t.
      case t of
        None \<Rightarrow> Inr (lit ''// unsupported language: '' @ lang)
      | Some (template, extra) \<Rightarrow> Inr (substitute (base_subs k props @ extra) template))))"

section \<open>Replacing between separators\<close>

lemma startswith_append_sep:
  "c \<notin> set tok \<Longrightarrow> startswith (x @ c # y) tok \<longleftrightarrow> startswith x tok"
proof (induction tok arbitrary: x)
  case (Cons t tok)
  then show ?case by (cases x) (auto simp: startswith_Cons)
qed simp

lemma replace_here: "tok \<noteq> [] \<Longrightarrow> replace tok v (tok @ z) = v @ replace tok v z"
  by (cases tok) (simp_all add: startswith_def)

lemma replace_sep:
  assumes "c \<notin> set tok"
  shows "replace tok v (x @ c # y) = replace tok v x @ c # replace tok v y"
proof (induction "length x" arbitrary: x rule: less_induct)
  case less
  show ?case
  proof (cases x)
    case Nil
    have "\<not> startswith (c # y) tok \<or> tok = []" using assms by (cases tok) (auto simp: startswith_Cons)
    then show ?thesis using Nil by auto
  next
    case (Cons a xs)
    show ?thesis
    proof (cases "tok \<noteq> [] \<and> startswith x tok")
      case True
      then obtain z where z: "x = tok @ z" unfolding startswith_def by (metis append_take_drop_id)
      then have "replace tok v (z @ c # y) = replace tok v z @ c # replace tok v y"
        using True by (intro less) auto
      then show ?thesis using True replace_here [of tok v] z by simp
    next
      case False
      then have "\<not> (tok \<noteq> [] \<and> startswith (x @ c # y) tok)" using assms by (simp add: startswith_append_sep)
      moreover have "replace tok v (xs @ c # y) = replace tok v xs @ c # replace tok v y"
        using Cons by (intro less) simp
      ultimately show ?thesis using False Cons by auto
    qed
  qed
qed

lemma replace_absent: "\<not> str_in tok s \<Longrightarrow> replace tok v s = s"
  by (induction s) auto

lemma str_in_infix: "str_in (b @ q @ d) s \<Longrightarrow> str_in q s"
  unfolding str_in_iff by (metis append.assoc)

lemma str_in_prefix: "str_in (q @ d) s \<Longrightarrow> str_in q s"
  using str_in_infix [of "[]" q d] by simp

definition placeholder :: "pystr \<Rightarrow> bool" where
  "placeholder tok \<longleftrightarrow> startswith tok (lit ''__'') \<and>
     list_all (\<lambda>c. c \<noteq> Lat (CHR ''/'') \<and> c \<noteq> Lat (CHR 0x60) \<and> c \<noteq> Lat (CHR 0x22)) tok"

text \<open>The text of the endpoint, between a slash and a closing quote.\<close>

definition endpoint :: "pystr \<Rightarrow> pystr" where
  "endpoint name = lit ''composites'' @ Lat (CHR ''/'') # name @ Lat (CHR ''/'') # lit ''invoke''"

lemma replace_endpoint:
  assumes "placeholder tok" "\<not> str_in (lit ''__'') name"
  shows "replace tok v (endpoint name) = endpoint name"
proof -
  obtain rest where tok: "tok = lit ''__'' @ rest"
    using assms(1) unfolding placeholder_def startswith_def by (metis append_take_drop_id)
  have sep: "Lat (CHR ''/'') \<notin> set tok" using assms(1) by (auto simp: placeholder_def list_all_iff)
  have absent: "replace tok v s = s" if "\<not> str_in (lit ''__'') s" for s
    using that str_in_prefix [of "lit ''__''" rest s] tok by (auto intro: replace_absent)
  have "\<not> str_in (lit ''__'') (lit ''composites'')" "\<not> str_in (lit ''__'') (lit ''invoke'')" by code_simp+
  then show ?thesis using assms(2) by (simp add: endpoint_def replace_sep [OF sep] absent)
qed

definition calls :: "pystr \<Rightarrow> pystr \<Rightarrow> bool" where
  "calls m body \<longleftrightarrow> (\<exists>a b q. (q = Lat (CHR 0x60) \<or> q = Lat (CHR 0x22)) \<and> body = a @ Lat (CHR ''/'') # m @ q # b)"

lemma calls_replace:
  assumes "placeholder tok" "calls m body"
  shows "calls (replace tok v m) (replace tok v body)"
proof -
  obtain a b q where t: "q = Lat (CHR 0x60) \<or> q = Lat (CHR 0x22)" "body = a @ Lat (CHR ''/'') # m @ q # b"
    using assms(2) unfolding calls_def by blast
  have "Lat (CHR ''/'') \<notin> set tok" "q \<notin> set tok"
    using assms(1) t(1) by (auto simp: placeholder_def list_all_iff)
  then have "replace tok v body = replace tok v a @ Lat (CHR ''/'') # replace tok v m @ q # replace tok v b"
    using t(2) by (simp add: replace_sep)
  with t(1) show ?thesis unfolding calls_def by blast
qed

lemma calls_substitute:
  "(\<And>tok v. (tok, v) \<in> set subs \<Longrightarrow> placeholder tok) \<Longrightarrow> \<not> str_in (lit ''__'') name \<Longrightarrow>
   calls (endpoint name) body \<Longrightarrow> calls (endpoint name) (substitute subs body)"
proof (induction subs arbitrary: body)
  case (Cons tv subs)
  obtain tok v where tv: "tv = (tok, v)" by (cases tv)
  then have "placeholder tok" using Cons.prems(1) by auto
  then have "calls (endpoint name) (replace tok v body)"
    using calls_replace [of tok "endpoint name" body v] replace_endpoint Cons.prems(2,3) by simp
  then have "calls (endpoint name) (substitute subs (replace tok v body))"
    using Cons.prems by (intro Cons.IH) auto
  then show ?case by (simp add: substitute_def tv)
qed (simp add: substitute_def)

lemma calls_iff:
  "calls m body \<longleftrightarrow> str_in (Lat (CHR ''/'') # m @ [Lat (CHR 0x60)]) body \<or> str_in (Lat (CHR ''/'') # m @ [Lat (CHR 0x22)]) body"
  unfolding calls_def str_in_iff by auto

lemma text_lines_calls: "calls m l \<Longrightarrow> l \<in> set ls \<Longrightarrow> calls m (text_lines ls)"
proof -
  assume a: "calls m l" "l \<in> set ls"
  then obtain pre post where "ls = pre @ l # post" by (auto dest: split_list)
  then have "text_lines ls = text_lines pre @ l @ Lat (CHR 0x0A) # text_lines post" by (simp add: text_lines_def)
  with a(1) show ?thesis unfolding calls_def by (metis append.assoc append_Cons)
qed

lemma templates_call:
  "calls (endpoint (lit ''__NAME__'')) template_js" "calls (endpoint (lit ''__NAME__'')) template_ts"
  "calls (endpoint (lit ''__NAME__'')) template_go" "calls (endpoint (lit ''__NAME__'')) template_rust"
  "calls (endpoint (lit ''__NAME__'')) template_java"
proof -
  have \<open>calls (endpoint (lit ''__NAME__'')) (lit ''  const res = await fetch(`${baseUrl}/composites/__NAME__/invoke`, {'')\<close> unfolding calls_iff by code_simp
  then show "calls (endpoint (lit ''__NAME__'')) template_js"
    unfolding template_js_def by (rule text_lines_calls) simp
  have \<open>calls (endpoint (lit ''__NAME__'')) (lit ''  const res = await fetch(`${baseUrl}/composites/__NAME__/invoke`, {'')\<close> unfolding calls_iff by code_simp
  then show "calls (endpoint (lit ''__NAME__'')) template_ts"
    unfolding template_ts_def by (rule text_lines_calls) simp
  have \<open>calls (endpoint (lit ''__NAME__'')) (tabs 1 @ lit ''resp, err := http.Post(baseURL+"/composites/__NAME__/invoke", "application/json", bytes.NewReader(body))'')\<close> unfolding calls_iff by code_simp
  then show "calls (endpoint (lit ''__NAME__'')) template_go"
    unfolding template_go_def by (rule text_lines_calls) simp
  have \<open>calls (endpoint (lit ''__NAME__'')) (lit ''        .post(format!("{base_url}/composites/__NAME__/invoke"))'')\<close> unfolding calls_iff by code_simp
  then show "calls (endpoint (lit ''__NAME__'')) template_rust"
    unfolding template_rust_def by (rule text_lines_calls) simp
  have \<open>calls (endpoint (lit ''__NAME__'')) (lit ''                .uri(URI.create(baseUrl + "/composites/__NAME__/invoke"))'')\<close> unfolding calls_iff by code_simp
  then show "calls (endpoint (lit ''__NAME__'')) template_java"
    unfolding template_java_def by (rule text_lines_calls) simp
qed

lemma base_placeholders:
  "(tok, v) \<in> set (base_subs k props) \<Longrightarrow> placeholder tok"
proof -
  have "placeholder (lit ''__NAME__'')" "placeholder (lit ''__DESC__'')" "placeholder (lit ''__CAMEL__'')"
    "placeholder (lit ''__PASCAL__'')" "placeholder (lit ''__SNAKE__'')" "placeholder (lit ''__FIELDS__'')"
    "placeholder (lit ''__OUTS__'')" by code_simp+
  then show "(tok, v) \<in> set (base_subs k props) \<Longrightarrow> placeholder tok" by (auto simp: base_subs_def)
qed

lemma extra_placeholders:
  "target lang props = Inr (Some (template, extra)) \<Longrightarrow> (tok, v) \<in> set extra \<Longrightarrow> placeholder tok"
proof -
  have "placeholder (lit ''__TSFIELDS__'')" "placeholder (lit ''__GOFIELDS__'')" "placeholder (lit ''__RSFIELDS__'')"
    "placeholder (lit ''__PROTOIN__'')" by code_simp+
  then show "target lang props = Inr (Some (template, extra)) \<Longrightarrow> (tok, v) \<in> set extra \<Longrightarrow> placeholder tok"
    by (auto simp: target_def exn_simps split: if_splits)
qed

lemma replace_NAME: "replace (lit ''__NAME__'') name (endpoint (lit ''__NAME__'')) = endpoint name"
proof -
  have "\<not> str_in (lit ''__NAME__'') (lit ''composites'')" "\<not> str_in (lit ''__NAME__'') (lit ''invoke'')"
    "Lat (CHR ''/'') \<notin> set (lit ''__NAME__'')" by code_simp+
  then show ?thesis
    using replace_here [of "lit ''__NAME__''" name "[]"] by (simp add: endpoint_def replace_sep replace_absent)
qed

lemma substitute_calls:
  assumes "\<not> str_in (lit ''__'') (k_name k)" "calls (endpoint (lit ''__NAME__'')) template"
    and "\<And>tok v. (tok, v) \<in> set extra \<Longrightarrow> placeholder tok"
  shows "calls (endpoint (k_name k)) (substitute (base_subs k props @ extra) template)"
proof -
  obtain rest where rest: "base_subs k props = (lit ''__NAME__'', k_name k) # rest" by (simp add: base_subs_def)
  have ph: "placeholder (lit ''__NAME__'')" by code_simp
  from calls_replace [OF ph assms(2)]
  have "calls (endpoint (k_name k)) (replace (lit ''__NAME__'') (k_name k) template)"
    by (simp add: replace_NAME)
  then have "calls (endpoint (k_name k)) (substitute (rest @ extra) (replace (lit ''__NAME__'') (k_name k) template))"
    using assms(1,3) base_placeholders [of _ _ k props] rest by (intro calls_substitute) auto
  then show ?thesis by (simp add: substitute_def rest)
qed

section \<open>Properties\<close>

text \<open>
  C35. A stub calls its own agent: for a name without a double underscore the JavaScript,
  TypeScript, Go, Rust and Java stubs contain the path \<open>/composites/<name>/invoke\<close> of the
  gateway's composite endpoint, whatever description, fields and outputs are substituted
  after it.
\<close>

theorem codegen_calls_own_endpoint:
  assumes "codegen k lang = Inr code" and "\<not> str_in (lit ''__'') (k_name k)"
    and "lang \<in> {lit ''js'', lit ''ts'', lit ''go'', lit ''rust'', lit ''java''}"
  shows "str_in (lit ''/composites/'' @ k_name k @ lit ''/invoke'') code"
proof -
  have "dict_get aliases lang = None" using assms(3) by (auto simp: aliases_def dict_get_def)
  with assms(1) obtain props t where t: "target lang props = Inr t"
    "(case t of None \<Rightarrow> Inr (lit ''// unsupported language: '' @ lang)
      | Some (template, extra) \<Rightarrow> Inr (substitute (base_subs k props @ extra) template)) = (Inr code :: exn + pystr)"
    by (auto simp: codegen_def exn_simps Let_def)
  obtain template extra where te: "t = Some (template, extra)"
      "template \<in> {template_js, template_ts, template_go, template_rust, template_java}"
    using assms(3) t(1) by (auto simp: target_def exn_simps split: if_splits)
  then have "calls (endpoint (lit ''__NAME__'')) template" using templates_call by auto
  then have "calls (endpoint (k_name k)) code"
    using substitute_calls [OF assms(2), of template extra props] extra_placeholders [of lang props template extra]
      t te(1) by auto
  then obtain a b where "code = a @ Lat (CHR ''/'') # endpoint (k_name k) @ b" unfolding calls_def by auto
  moreover have "Lat (CHR ''/'') # endpoint (k_name k) = lit ''/composites/'' @ k_name k @ lit ''/invoke''"
    by (simp add: endpoint_def lit_def)
  ultimately show ?thesis unfolding str_in_iff by (metis append.assoc append_Cons)
qed

theorem codegen_calls_own_endpoint_witness:
  "\<exists>code. codegen (composite_of sample_agent) (lit ''go'') = Inr code \<and>
     str_in (lit ''/composites/greet-report/invoke'') code"
proof -
  obtain code where c: "codegen (composite_of sample_agent) (lit ''go'') = Inr code"
    using that unfolding codegen_def target_def
    by (simp add: composite_of_def sample_agent_def Let_def aliases_def dict_get_def get_or_def go_field_def
        prop_type_def go_types_def)
  have n: "\<not> str_in (lit ''__'') (k_name (composite_of sample_agent))" by code_simp
  have k: "lit ''/composites/'' @ k_name (composite_of sample_agent) @ lit ''/invoke'' =
      lit ''/composites/greet-report/invoke''" by code_simp
  have "str_in (lit ''/composites/greet-report/invoke'') code"
    using codegen_calls_own_endpoint [OF c n] unfolding k by simp
  with c show ?thesis by blast
qed

lemma mapE_total: "(\<And>x. x \<in> set xs \<Longrightarrow> \<exists>y. f x = Inr y) \<Longrightarrow> \<exists>ys. mapE f xs = Inr ys"
  using mapE_Inl_source [of f xs] by (cases "mapE f xs") fastforce+

lemma prop_type_wf:
  "props_wf props \<Longrightarrow> kv \<in> set props \<Longrightarrow> \<exists>ty. prop_type (snd kv) d = Inr (JStr ty)"
  by (cases kv) (auto simp: props_wf_def prop_type_def get_or_def dict_get_def)

text \<open>
  The generator never raises on an agent that parsed: for every supported language it
  returns a stub.
\<close>

lemma codegen_total:
  assumes "parse src = (Some k, errors)" and "lang \<in> set LANGUAGES"
  shows "\<exists>code. codegen k lang = Inr code"
proof -
  from parse_result_wf [of src] assms(1) obtain props rest where wf: "props_wf props"
    and schema: "k_input_schema k = [(lit ''type'', JStr (lit ''object'')), (lit ''properties'', JObj props)] @ rest"
    by auto
  have fields: "\<exists>y. ts_field kv = Inr y" "\<exists>y. go_field kv = Inr y" "\<exists>y. rust_field kv = Inr y"
      "\<exists>y. proto_field (i, kv) = Inr y" if kv: "kv \<in> set props" for kv i
  proof -
    obtain ty ty' where "prop_type (snd kv) JNull = Inr (JStr ty)" "prop_type (snd kv) (JStr (lit ''string'')) = Inr (JStr ty')"
      using prop_type_wf [OF wf kv] by blast
    then show "\<exists>y. ts_field kv = Inr y" "\<exists>y. go_field kv = Inr y" "\<exists>y. rust_field kv = Inr y"
      "\<exists>y. proto_field (i, kv) = Inr y"
      by (simp_all add: ts_field_def go_field_def rust_field_def proto_field_def)
  qed
  have "\<exists>ys. mapE ts_field props = Inr ys" "\<exists>ys. mapE go_field props = Inr ys" "\<exists>ys. mapE rust_field props = Inr ys"
      "\<exists>ys. mapE proto_field (zip [1..<length props + 1] props) = Inr ys"
    using fields by (auto intro!: mapE_total dest: set_zip_rightD)
  then have "\<exists>t. target lang props = Inr t" by (auto simp: target_def)
  moreover have "dict_get aliases lang = None"
    using assms(2) by (auto simp: LANGUAGES_def aliases_def dict_get_def)
  moreover have "get_or (k_input_schema k) (lit ''properties'') (JObj []) = JObj props"
    by (simp add: schema get_or_def dict_get_def)
  ultimately show ?thesis by (auto simp: codegen_def Let_def split: option.splits)
qed

section \<open>Identifiers\<close>

definition alnum_c :: "uchar \<Rightarrow> bool" where
  "alnum_c c \<longleftrightarrow> alpha_c c \<or> num_c c"

definition is_identifier :: "pystr \<Rightarrow> bool" where
  "is_identifier s \<longleftrightarrow> s \<noteq> [] \<and> alpha_c (hd s) \<and> list_all (\<lambda>c. alnum_c c \<or> c = Lat (CHR ''_'')) s"

lemma split_on_subset: "p \<in> set (split_on c s) \<Longrightarrow> set p \<subseteq> set s"
proof (induction s arbitrary: p)
  case (Cons x s)
  then show ?case by (cases "split_on c s") (fastforce split: if_splits)+
qed simp

lemma split_on_first: "x \<noteq> c \<Longrightarrow> \<exists>p ps. split_on c (x # xs) = (x # p) # ps"
  by (auto split: list.splits)

lemma parts_alnum: "list_all name_c s \<Longrightarrow> p \<in> set (parts s) \<Longrightarrow> p \<noteq> [] \<and> list_all alnum_c p"
proof -
  assume a: "list_all name_c s" "p \<in> set (parts s)"
  then obtain q where q: "q \<in> set (split_on (Lat (CHR ''-'')) s)" "p \<in> set (split_on (Lat (CHR ''_'')) q)" "p \<noteq> []"
    by (auto simp: parts_def)
  have "c \<noteq> Lat (CHR ''-'')" "c \<noteq> Lat (CHR ''_'')" "name_c c" if "c \<in> set p" for c
    using that split_on_no_sep [OF q(2)] split_on_no_sep [OF q(1)] split_on_subset [OF q(2)]
      split_on_subset [OF q(1)] a(1) by (auto simp: list_all_iff)
  with q(3) show ?thesis by (auto simp: list_all_iff alnum_c_def name_c_def)
qed

lemma parts_first:
  assumes "alpha_c x"
  shows "\<exists>p ps. parts (x # s) = (x # p) # ps"
proof -
  have x: "x \<noteq> Lat (CHR ''-'')" "x \<noteq> Lat (CHR ''_'')" using assms by (auto simp: alpha_c_def)
  obtain q qs where q: "split_on (Lat (CHR ''-'')) (x # s) = (x # q) # qs" using split_on_first [OF x(1)] by blast
  obtain p ps where "split_on (Lat (CHR ''_'')) (x # q) = (x # p) # ps" using split_on_first [OF x(2)] by blast
  with q show ?thesis by (simp add: parts_def del: split_on.simps)
qed

lemma alpha_c_Lat: "alpha_c c \<Longrightarrow> \<exists>d. c = Lat d"
  by (cases c) (auto simp: alpha_c_def)

lemma lower_alpha: "alpha_c c \<Longrightarrow> alpha_c (lower_c c)"
  by (cases c) (auto simp: alpha_c_def Let_def)

lemma upper_alpha: "alpha_c c \<Longrightarrow> alpha_c (upper_c c)"
  by (cases c) (auto simp: alpha_c_def Let_def)

lemma lower_alnum: "alnum_c c \<Longrightarrow> alnum_c (lower_c c)"
proof -
  have "num_c c \<Longrightarrow> lower_c c = c" by (cases c) (auto simp: num_c_def Let_def)
  then show "alnum_c c \<Longrightarrow> alnum_c (lower_c c)" using lower_alpha by (auto simp: alnum_c_def)
qed

lemma upper_alnum: "alnum_c c \<Longrightarrow> alnum_c (upper_c c)"
proof -
  have "num_c c \<Longrightarrow> upper_c c = c" by (cases c) (auto simp: num_c_def Let_def)
  then show "alnum_c c \<Longrightarrow> alnum_c (upper_c c)" using upper_alpha by (auto simp: alnum_c_def)
qed

lemma lower_all: "list_all alnum_c p \<Longrightarrow> list_all alnum_c (lower p)"
  by (simp add: lower_def list_all_iff lower_alnum)

lemma capitalize_all: "list_all alnum_c p \<Longrightarrow> list_all alnum_c (capitalize p)"
  by (cases p) (auto simp: upper_alnum lower_all)

lemma concat_capitalize:
  "(\<And>p. p \<in> set ps \<Longrightarrow> list_all alnum_c p) \<Longrightarrow> list_all alnum_c (concat (map capitalize ps))"
  using capitalize_all by (auto simp: list_all_iff)

lemma join_underscore:
  "(\<And>p. p \<in> set ps \<Longrightarrow> list_all alnum_c p) \<Longrightarrow>
   list_all (\<lambda>c. alnum_c c \<or> c = Lat (CHR ''_'')) (join (lit ''_'') ps)"
proof (induction "lit ''_''" ps rule: join.induct)
  case (3 s t ss)
  have "list_all alnum_c s" using "3.prems" by simp
  moreover have "list_all (\<lambda>c. alnum_c c \<or> c = Lat (CHR ''_'')) (join (lit ''_'') (t # ss))"
    using "3.prems" by (intro "3.hyps") simp
  ultimately show ?case by (auto simp: list_all_iff lit_Cons)
qed (simp_all add: list_all_iff)

text \<open>
  The names of the stubs are identifiers: for an agent name that starts with a letter the
  camel, pascal and snake case forms start with a letter and consist of letters, digits and
  underscores only, so hyphens never reach the generated code. For a name that starts with an
  underscore this fails: \<open>_1a\<close> becomes \<open>1a\<close>.
\<close>

theorem stub_names_are_identifiers:
  assumes "valid_name n" and "alpha_c (hd n)"
  shows "is_identifier (camel n) \<and> is_identifier (pascal n) \<and> is_identifier (snake n)
    \<and> \<not> is_identifier (camel (lit ''_1a''))"
proof -
  obtain x s where n: "n = x # s" "alpha_c x" using assms by (cases n) (auto simp: valid_name_def)
  obtain p ps where pp: "parts n = (x # p) # ps" using parts_first [OF n(2)] n(1) by blast
  have all: "list_all alnum_c q" if "q \<in> set (parts n)" for q
    using parts_alnum [OF valid_name_all [OF assms(1)] that] by blast
  from all [of "x # p"] have p: "list_all alnum_c p" using pp by simp
  from all have ps: "\<And>q. q \<in> set ps \<Longrightarrow> list_all alnum_c q" using pp by simp
  have x: "alnum_c x" using n(2) by (simp add: alnum_c_def)
  have weaken: "list_all alnum_c t \<Longrightarrow> list_all (\<lambda>c. alnum_c c \<or> c = Lat (CHR ''_'')) t" for t
    by (simp add: list_all_iff)
  have "is_identifier (camel n)"
    using n(2) p ps x
    by (simp add: camel_def pp is_identifier_def lower_def lower_alpha weaken lower_alnum
        lower_all [unfolded lower_def] concat_capitalize)
  moreover have "is_identifier (pascal n)"
    using n(2) p ps x
    by (simp add: pascal_def or_else_def pp is_identifier_def upper_alpha weaken upper_alnum lower_all concat_capitalize)
  moreover have "is_identifier (snake n)"
  proof -
    have "\<exists>r. join (lit ''_'') (parts n) = x # r" unfolding pp by (cases ps) auto
    then show ?thesis
      using join_underscore [of "parts n"] all n(2) by (auto simp: snake_def or_else_def is_identifier_def)
  qed
  moreover have "\<not> is_identifier (camel (lit ''_1a''))" by code_simp
  ultimately show ?thesis by blast
qed

theorem stub_names_are_identifiers_witness: "is_identifier (camel (lit ''greet-report''))"
proof -
  have "valid_name (lit ''greet-report'')" "alpha_c (hd (lit ''greet-report''))" by code_simp+
  from stub_names_are_identifiers [OF this] show ?thesis by blast
qed

end
