(* ===== verification/Validation.thy ===== *)
theory Validation
  imports Models
begin

text \<open>
  Input validation, \<open>gateway/validation.py\<close>. The JSON Schema validator is the package
  \<open>jsonschema\<close>; it is a parameter here, \<open>None\<close> when the package is not installed: given a
  schema and a payload it raises or returns its errors, each a path into the payload and a
  message.
\<close>

section \<open>Errors of the validator\<close>

datatype path_elem = PIdx int | PKey pystr

record schema_error =
  ve_path :: "path_elem list"
  ve_message :: pystr

type_synonym validator = "json_obj \<Rightarrow> json \<Rightarrow> exn + schema_error list"

instantiation path_elem :: linorder
begin

fun less_eq_path_elem :: "path_elem \<Rightarrow> path_elem \<Rightarrow> bool" where
  "less_eq_path_elem (PIdx i) (PIdx j) = (i \<le> j)"
| "less_eq_path_elem (PIdx i) (PKey k) = True"
| "less_eq_path_elem (PKey k) (PIdx i) = False"
| "less_eq_path_elem (PKey k) (PKey l) = (k \<le> l)"

definition less_path_elem :: "path_elem \<Rightarrow> path_elem \<Rightarrow> bool" where
  "less_path_elem a b \<longleftrightarrow> a \<le> b \<and> \<not> b \<le> a"

instance
proof
  fix x y z :: path_elem
  show "(x < y) = (x \<le> y \<and> \<not> y \<le> x)" by (simp add: less_path_elem_def)
  show "x \<le> x" by (cases x) simp_all
  show "x \<le> y \<Longrightarrow> y \<le> z \<Longrightarrow> x \<le> z" by (cases x; cases y; cases z) auto
  show "x \<le> y \<Longrightarrow> y \<le> x \<Longrightarrow> x = y" by (cases x; cases y) auto
  show "x \<le> y \<or> y \<le> x" by (cases x; cases y) auto
qed

end

text \<open>
  Python orders two paths by their first difference and raises \<open>TypeError\<close> when an index
  meets a key there. Two such paths in a list are never separated by a third one that both
  compare with, so every comparison sort meets such a pair if there is one.
\<close>

fun mixed :: "path_elem list \<Rightarrow> path_elem list \<Rightarrow> bool" where
  "mixed (PIdx i # p) (PIdx j # q) = (i = j \<and> mixed p q)"
| "mixed (PKey k # p) (PKey l # q) = (k = l \<and> mixed p q)"
| "mixed (PIdx i # p) (PKey l # q) = True"
| "mixed (PKey k # p) (PIdx j # q) = True"
| "mixed p q = False"

definition sorted_by_path :: "schema_error list \<Rightarrow> exn + schema_error list" where
  "sorted_by_path errs =
     (if \<exists>e \<in> set errs. \<exists>e' \<in> set errs. mixed (ve_path e) (ve_path e') then Inl TypeError
      else Inr (sort_key ve_path errs))"

section \<open>The operations\<close>

fun elem_str :: "path_elem \<Rightarrow> pystr" where
  "elem_str (PIdx i) = str_of_int i"
| "elem_str (PKey k) = k"

text \<open>\<open>_format\<close>\<close>

definition format_error :: "schema_error \<Rightarrow> pystr" where
  "format_error e =
     (let location = join (lit ''/'') (map elem_str (ve_path e)) in
      (if location = [] then lit ''<root>'' else location) @ lit '': '' @ ve_message e)"

text \<open>
  The check without the package walks \<open>schema.get("required", [])\<close>, whatever value that
  is: a list, the characters of a string or the keys of an object; anything else cannot be
  iterated. \<open>k not in payload\<close> asks for a key of an object, an element of a list or a
  substring of a string; a list or an object is no possible key.
\<close>

fun iter_json :: "json \<Rightarrow> exn + json list" where
  "iter_json (JList xs) = Inr xs"
| "iter_json (JStr s) = Inr (map (\<lambda>c. JStr [c]) s)"
| "iter_json (JObj d) = Inr (map JStr (dict_keys d))"
| "iter_json v = Inl TypeError"

fun py_in :: "json \<Rightarrow> json \<Rightarrow> exn + bool" where
  "py_in (JList xs) (JObj d) = Inl TypeError"
| "py_in (JObj kvs) (JObj d) = Inl TypeError"
| "py_in (JStr k) (JObj d) = Inr (k \<in> set (dict_keys d))"
| "py_in v (JObj d) = Inr False"
| "py_in v (JList xs) = Inr (list_ex (py_eq v) xs)"
| "py_in (JStr k) (JStr s) = Inr (str_in k s)"
| "py_in v w = Inl TypeError"

definition missing_message :: "json \<Rightarrow> json \<Rightarrow> exn + pystr option" where
  "missing_message payload k =
     bindE (py_in k payload) (\<lambda>found.
     Inr (if found then None else Some (lit ''missing required field: '' @ py_str k)))"

definition required_errors :: "json \<Rightarrow> json_obj \<Rightarrow> exn + pystr list" where
  "required_errors payload schema =
     bindE (iter_json (get_or schema (lit ''required'') (JList []))) (\<lambda>ks.
     bindE (mapE (missing_message payload) ks) (\<lambda>ms.
     Inr (List.map_filter (\<lambda>m. m) ms)))"

definition collect_errors :: "validator option \<Rightarrow> json \<Rightarrow> json_obj \<Rightarrow> exn + pystr list" where
  "collect_errors vld payload schema =
     (if schema = [] then Inr []
      else case vld of
        None \<Rightarrow> required_errors payload schema
      | Some iter_errors \<Rightarrow>
          bindE (iter_errors schema payload) (\<lambda>errs.
          bindE (sorted_by_path errs) (\<lambda>sorted_errs.
          Inr (map format_error sorted_errs))))"

definition validate :: "validator option \<Rightarrow> json \<Rightarrow> json_obj \<Rightarrow> exn + unit" where
  "validate vld payload schema =
     bindE (collect_errors vld payload schema) (\<lambda>errors.
     if errors \<noteq> [] then Inl (ValidationError errors) else Inr ())"

section \<open>Paths of one payload\<close>

text \<open>A path that leads to a value of the payload, as the paths of \<open>jsonschema\<close> do.\<close>

fun leads_into :: "path_elem list \<Rightarrow> json \<Rightarrow> bool" where
  "leads_into [] v = True"
| "leads_into (PKey k # p) (JObj d) = (case dict_get d k of None \<Rightarrow> False | Some v \<Rightarrow> leads_into p v)"
| "leads_into (PIdx i # p) (JList xs) = (0 \<le> i \<and> i < int (length xs) \<and> leads_into p (xs ! nat i))"
| "leads_into p v = False"

lemma leads_into_not_mixed: "leads_into p v \<Longrightarrow> leads_into q v \<Longrightarrow> \<not> mixed p q"
proof (induction p q arbitrary: v rule: mixed.induct)
  case (1 i p j q)
  then show ?case by (cases v) auto
next
  case (2 k p l q)
  then show ?case by (cases v) (auto split: option.splits)
next
  case (3 i p l q)
  then show ?case by (cases v) auto
next
  case (4 k p j q)
  then show ?case by (cases v) auto
qed auto

lemma sorted_by_path_Inr:
  "(\<And>e. e \<in> set errs \<Longrightarrow> leads_into (ve_path e) v) \<Longrightarrow> sorted_by_path errs = Inr (sort_key ve_path errs)"
  unfolding sorted_by_path_def by (metis leads_into_not_mixed)

lemma format_error_location: "\<exists>loc. loc \<noteq> [] \<and> format_error e = loc @ lit '': '' @ ve_message e"
  by (auto simp: format_error_def Let_def)

lemma validate_iff:
  "validate vld payload schema = Inr () \<longleftrightarrow> collect_errors vld payload schema = Inr []"
  by (auto simp: validate_def exn_simps)

lemma validate_Inl:
  "validate vld payload schema = Inl e \<longleftrightarrow>
     collect_errors vld payload schema = Inl e \<or>
     (\<exists>es. es \<noteq> [] \<and> collect_errors vld payload schema = Inr es \<and> e = ValidationError es)"
  by (auto simp: validate_def exn_simps)

lemma missing_message_str:
  "missing_message (JObj d) (JStr k) =
     Inr (if k \<in> set (dict_keys d) then None else Some (lit ''missing required field: '' @ k))"
  by (simp add: missing_message_def)

lemma mapE_missing:
  "mapE (missing_message (JObj d)) (map JStr ks) =
     Inr (map (\<lambda>k. if k \<in> set (dict_keys d) then None else Some (lit ''missing required field: '' @ k)) ks)"
  by (induction ks) (simp_all add: missing_message_str)

section \<open>Properties\<close>

text \<open>
  C28. When the validator reports errors at places of the payload, as \<open>jsonschema\<close> documents,
  collecting them never raises: there is one message per error, none is lost, they come in
  the order of their paths, and the payload is accepted exactly when there is no error. An
  empty schema accepts everything.
\<close>

theorem validate_reports_all:
  assumes "iter_errors schema payload = Inr errs"
    and "\<And>e. e \<in> set errs \<Longrightarrow> leads_into (ve_path e) payload"
  shows "\<exists>sorted_errs. mset sorted_errs = mset errs \<and> sorted (map ve_path sorted_errs)
    \<and> (schema \<noteq> [] \<longrightarrow>
         collect_errors (Some iter_errors) payload schema = Inr (map format_error sorted_errs))
    \<and> (validate (Some iter_errors) payload schema = Inr () \<longleftrightarrow> schema = [] \<or> errs = [])
    \<and> (schema \<noteq> [] \<and> errs \<noteq> [] \<longrightarrow>
         validate (Some iter_errors) payload schema = Inl (ValidationError (map format_error sorted_errs)))"
proof (rule exI [of _ "sort_key ve_path errs"], intro conjI)
  have c: "schema \<noteq> [] \<Longrightarrow>
      collect_errors (Some iter_errors) payload schema = Inr (map format_error (sort_key ve_path errs))"
    using assms sorted_by_path_Inr [of errs payload] by (simp add: collect_errors_def)
  show "schema \<noteq> [] \<longrightarrow>
      collect_errors (Some iter_errors) payload schema = Inr (map format_error (sort_key ve_path errs))"
    using c by blast
  show "validate (Some iter_errors) payload schema = Inr () \<longleftrightarrow> schema = [] \<or> errs = []"
    unfolding validate_iff using c by (cases "schema = []") (auto simp: collect_errors_def)
  show "schema \<noteq> [] \<and> errs \<noteq> [] \<longrightarrow> validate (Some iter_errors) payload schema =
      Inl (ValidationError (map format_error (sort_key ve_path errs)))"
    using c by (auto simp: validate_def)
qed simp_all

text \<open>A validator that knows the keyword \<open>required\<close> only.\<close>

definition sample_validator :: validator where
  "sample_validator schema payload =
     (case payload of
        JObj d \<Rightarrow> Inr (if lit ''name'' \<in> set (dict_keys d) then []
                       else [\<lparr>ve_path = [], ve_message = lit ''name is a required property''\<rparr>])
      | _ \<Rightarrow> Inr [])"

definition sample_schema :: json_obj where
  "sample_schema = [(lit ''required'', JList [JStr (lit ''name'')])]"

theorem validate_reports_all_witness:
  "validate (Some sample_validator) (JObj []) sample_schema =
     Inl (ValidationError [lit ''<root>: name is a required property''])"
proof -
  let ?e = "\<lparr>ve_path = [], ve_message = lit ''name is a required property''\<rparr>"
  have s: "sample_validator sample_schema (JObj []) = Inr [?e]" by code_simp
  have f: "format_error ?e = lit ''<root>: name is a required property''" by code_simp
  have n: "sample_schema \<noteq> []" by code_simp
  obtain es where es: "mset es = mset [?e]"
      "sample_schema \<noteq> [] \<and> [?e] \<noteq> [] \<longrightarrow> validate (Some sample_validator) (JObj []) sample_schema =
        Inl (ValidationError (map format_error es))"
    using validate_reports_all [where iter_errors = sample_validator and schema = sample_schema
        and payload = "JObj []", OF s] by auto
  have "es = [?e]" using es(1) by simp
  with es(2) n f show ?thesis by simp
qed

text \<open>
  Without \<open>jsonschema\<close> the check of an object reports exactly the required fields it lacks,
  in the order the schema lists them.
\<close>

theorem fallback_reports_missing:
  assumes "dict_get schema (lit ''required'') = Some (JList (map JStr ks))"
  shows "collect_errors None (JObj d) schema =
     Inr (map (\<lambda>k. lit ''missing required field: '' @ k) (filter (\<lambda>k. k \<notin> set (dict_keys d)) ks))"
proof -
  have "schema \<noteq> []" using assms by auto
  moreover have "List.map_filter (\<lambda>m. m) (map (\<lambda>k. if k \<in> set (dict_keys d) then None
        else Some (lit ''missing required field: '' @ k)) ks) =
      map (\<lambda>k. lit ''missing required field: '' @ k) (filter (\<lambda>k. k \<notin> set (dict_keys d)) ks)"
    by (induction ks) (auto simp: List.map_filter_def)
  ultimately show ?thesis
    using assms by (simp add: collect_errors_def required_errors_def get_or_def mapE_missing)
qed

theorem fallback_reports_missing_witness:
  "collect_errors None (JObj [(lit ''x'', JNull)]) sample_schema =
     Inr [lit ''missing required field: '' @ lit ''name'']"
proof -
  have "dict_get sample_schema (lit ''required'') = Some (JList (map JStr [lit ''name'']))" by code_simp
  from fallback_reports_missing [OF this] show ?thesis by (simp add: dict_keys_def)
qed

end
