(* ===== verification/Invoker.thy ===== *)
theory Invoker
  imports Effects
begin

text \<open>
  Dispatch to the features, \<open>gateway/invoker.py\<close>: the in-process invoker and the gRPC
  invoker with its channel cache, and the contract both give the gateway as the locale
  \<open>invoker\<close>.
\<close>

section \<open>Results and handlers\<close>

record invoke_result =
  res_output :: json_obj
  res_latency_ms :: float64

text \<open>A handler may raise and may depend on the world (the clock sample reads the date).\<close>

type_synonym 'e handler = "json \<Rightarrow> ('e, json_obj) io"

definition elapsed_ms :: "float64 \<Rightarrow> float64 \<Rightarrow> float64" where
  "elapsed_ms start stop = py_round (fmul (fsub stop start) 1000) 3"

section \<open>LocalInvoker\<close>

definition local_invoke ::
  "(pystr, 'e handler) dict \<Rightarrow> pystr \<Rightarrow> json \<Rightarrow> request_context \<Rightarrow> ('e world, invoke_result) io" where
  "local_invoke handlers feature payload context =
     (case dict_get handlers feature of
        None \<Rightarrow> raiseM (FeatureUnavailable (lit ''no handler registered for '' @ quoted feature))
      | Some handler \<Rightarrow>
          bindM perf_counter (\<lambda>start.
          bindM (on_env (handler payload)) (\<lambda>output.
          bindM perf_counter (\<lambda>stop.
          returnM \<lparr>res_output = output, res_latency_ms = elapsed_ms start stop\<rparr>))))"

section \<open>GrpcInvoker\<close>

text \<open>
  What the invoker uses of \<open>grpc\<close>, \<open>protobuf\<close> and the generated stubs: opening and closing a
  channel, building a request (which may raise), the call with its timeout in seconds, and
  reading the output of a response.
\<close>

datatype status_code = INVALID_ARGUMENT | OtherCode pystr

datatype rpc_failure = AioRpcError status_code "pystr option" | RpcOther exn

record ('c, 'q, 'r, 'x) grpc_api =
  g_channel :: "pystr \<Rightarrow> 'x \<Rightarrow> 'c \<times> 'x"
  g_request :: "pystr \<Rightarrow> pystr \<Rightarrow> pystr \<Rightarrow> int \<Rightarrow> (pystr, pystr) dict \<Rightarrow> json \<Rightarrow> exn + 'q"
  g_call :: "'c \<Rightarrow> 'q \<Rightarrow> float64 \<Rightarrow> 'x \<Rightarrow> (rpc_failure + 'r) \<times> 'x"
  g_output :: "'r \<Rightarrow> exn + json_obj"
  g_close :: "'c \<Rightarrow> ('x, unit) io"

record ('c, 'x) grpc_env =
  ge_channels :: "(pystr, 'c) dict"
  ge_net :: 'x

fun status_text :: "status_code \<Rightarrow> pystr" where
  "status_text INVALID_ARGUMENT = lit ''StatusCode.INVALID_ARGUMENT''"
| "status_text (OtherCode t) = t"

definition get_channel :: "('c, 'q, 'r, 'x) grpc_api \<Rightarrow> pystr \<Rightarrow> (('c, 'x) grpc_env, 'c) io" where
  "get_channel api endpoint env =
     (case dict_get (ge_channels env) endpoint of
        Some channel \<Rightarrow> (Inr channel, env)
      | None \<Rightarrow>
          (let (channel, net) = g_channel api endpoint (ge_net env) in
           (Inr channel, env\<lparr>ge_channels := dict_set endpoint channel (ge_channels env), ge_net := net\<rparr>)))"

text \<open>The \<open>except\<close> clause: bad input reported by the feature, or unavailability.\<close>

fun rpc_exception :: "pystr \<Rightarrow> rpc_failure \<Rightarrow> exn" where
  "rpc_exception feature (AioRpcError INVALID_ARGUMENT details) =
     FeatureInputError (case details of None \<Rightarrow> lit ''invalid input''
                        | Some d \<Rightarrow> if d = [] then lit ''invalid input'' else d)"
| "rpc_exception feature (AioRpcError code details) =
     FeatureUnavailable (lit ''gRPC call to '' @ quoted feature @ lit '' failed: '' @ status_text code)"
| "rpc_exception feature (RpcOther e) = e"

definition call_stub ::
  "('c, 'q, 'r, 'x) grpc_api \<Rightarrow> pystr \<Rightarrow> 'c \<Rightarrow> 'q \<Rightarrow> float64 \<Rightarrow> (('c, 'x) grpc_env, 'r) io" where
  "call_stub api feature channel request timeout env =
     (case g_call api channel request timeout (ge_net env) of
        (Inl failure, net) \<Rightarrow> (Inl (rpc_exception feature failure), env\<lparr>ge_net := net\<rparr>)
      | (Inr response, net) \<Rightarrow> (Inr response, env\<lparr>ge_net := net\<rparr>))"

text \<open>\<open>invoke\<close> after the channel is found, and the whole of it.\<close>

definition grpc_invoke_tail ::
  "('c, 'q, 'r, 'x) grpc_api \<Rightarrow> pystr \<Rightarrow> json \<Rightarrow> request_context \<Rightarrow> 'c \<Rightarrow>
   (('c, 'x) grpc_env world, invoke_result) io" where
  "grpc_invoke_tail api feature payload context channel =
     bindM (liftE (g_request api feature
        (case c_trace_id context of None \<Rightarrow> [] | Some t \<Rightarrow> t)
        (case c_tenant context of None \<Rightarrow> [] | Some t \<Rightarrow> t)
        (c_timeout_ms context) (c_metadata context) payload)) (\<lambda>request.
     bindM perf_counter (\<lambda>start.
     bindM (on_env (call_stub api feature channel request (int_div (c_timeout_ms context) 1000))) (\<lambda>response.
     bindM perf_counter (\<lambda>stop.
     bindM (liftE (g_output api response)) (\<lambda>output.
     returnM \<lparr>res_output = output, res_latency_ms = elapsed_ms start stop\<rparr>)))))"

definition grpc_invoke ::
  "('c, 'q, 'r, 'x) grpc_api \<Rightarrow> (pystr \<Rightarrow> exn + pystr) \<Rightarrow> pystr \<Rightarrow> json \<Rightarrow> request_context \<Rightarrow>
   (('c, 'x) grpc_env world, invoke_result) io" where
  "grpc_invoke api resolver feature payload context =
     bindM (liftE (resolver feature)) (\<lambda>endpoint.
     bindM (on_env (get_channel api endpoint)) (\<lambda>channel.
     grpc_invoke_tail api feature payload context channel))"

fun close_all :: "('c, 'q, 'r, 'x) grpc_api \<Rightarrow> 'c list \<Rightarrow> ('x, unit) io" where
  "close_all api [] = returnM ()"
| "close_all api (c # cs) = bindM (g_close api c) (\<lambda>_. close_all api cs)"

definition grpc_close :: "('c, 'q, 'r, 'x) grpc_api \<Rightarrow> (('c, 'x) grpc_env, unit) io" where
  "grpc_close api env =
     (case close_all api (dict_values (ge_channels env)) (ge_net env) of
        (Inl e, net) \<Rightarrow> (Inl e, env\<lparr>ge_net := net\<rparr>)
      | (Inr _, net) \<Rightarrow> (Inr (), env\<lparr>ge_net := net, ge_channels := []\<rparr>))"

section \<open>The contract of an invoker\<close>

text \<open>
  What the gateway relies on: a successful invocation reports a latency that is not
  negative, and time does not run backwards.
\<close>

locale invoker =
  fixes invoke :: "pystr \<Rightarrow> json \<Rightarrow> request_context \<Rightarrow> ('e world, invoke_result) io"
  assumes latency_nonneg: "invoke f p c w = (Inr r, w') \<Longrightarrow> 0 \<le> res_latency_ms r"
    and clock_forward: "moves (\<lambda>w w'. w_ns w \<le> w_ns w') (invoke f p c)"

interpretation clock: effect_bound "\<lambda>w w'. w_ns w \<le> w_ns (w' :: 'e world)"
  by unfold_locales auto

lemma perf_counter_forward: "moves (\<lambda>w w'. w_ns w \<le> w_ns w') perf_counter"
  by (simp add: moves_def perf_counter_def Let_def)

lemma on_env_forward: "moves (\<lambda>w w'. w_ns w \<le> w_ns w') (on_env m)"
  by (simp add: moves_def on_env_def split: prod.splits)

lemma elapsed_nonneg: "start \<le> stop \<Longrightarrow> 0 \<le> elapsed_ms start stop"
  by (simp add: elapsed_ms_def fmul_def fsub_def py_round_nonneg fl_nonneg)

text \<open>Two readings around an operation on the rest of the world.\<close>

lemma elapsed_around:
  assumes "perf_counter w = (Inr start, w0)" "on_env m w0 = (r, w1)" "perf_counter w1 = (Inr stop, w2)"
  shows "0 \<le> elapsed_ms start stop"
  by (rule elapsed_nonneg) (use assms perf_counter_mono on_env_ns in \<open>metis order_refl\<close>)

lemma local_latency:
  assumes "local_invoke handlers f p c w = (Inr r, w')"
  shows "0 \<le> res_latency_ms r"
proof -
  obtain h where "dict_get handlers f = Some h"
    using assms by (auto simp: local_invoke_def raiseM_run split: option.splits)
  with assms obtain start w0 out w1 stop where
    "perf_counter w = (Inr start, w0)" "on_env (h p) w0 = (Inr out, w1)" "perf_counter w1 = (Inr stop, w')"
    "r = \<lparr>res_output = out, res_latency_ms = elapsed_ms start stop\<rparr>"
    by (auto simp: local_invoke_def bindM_eq_Inr returnM_run)
  then show ?thesis using elapsed_around by simp
qed

lemma grpc_latency:
  assumes "grpc_invoke api resolver f p c w = (Inr r, w')"
  shows "0 \<le> res_latency_ms r"
  using assms elapsed_around unfolding grpc_invoke_def grpc_invoke_tail_def bindM_eq_Inr returnM_run liftE_run
  by clarsimp blast

interpretation local_invoker: invoker "local_invoke handlers" for handlers
proof
  show "local_invoke handlers f p c w = (Inr r, w') \<Longrightarrow> 0 \<le> res_latency_ms r" for f p c w r w'
    by (rule local_latency)
  show "moves (\<lambda>w w'. w_ns w \<le> w_ns w') (local_invoke handlers f p c)" for f p c
    unfolding local_invoke_def by (intro clock.moves_intros perf_counter_forward on_env_forward)
qed

interpretation grpc_invoker: invoker "grpc_invoke api resolver" for api resolver
proof
  show "grpc_invoke api resolver f p c w = (Inr r, w') \<Longrightarrow> 0 \<le> res_latency_ms r" for f p c w r w'
    by (rule grpc_latency)
  show "moves (\<lambda>w w'. w_ns w \<le> w_ns w') (grpc_invoke api resolver f p c)" for f p c
    unfolding grpc_invoke_def grpc_invoke_tail_def by (intro clock.moves_intros perf_counter_forward on_env_forward)
qed

section \<open>The channel cache\<close>

text \<open>How an operation may change the cache: channels are added, never replaced.\<close>

definition cache_grows :: "('c, 'x) grpc_env \<Rightarrow> ('c, 'x) grpc_env \<Rightarrow> bool" where
  "cache_grows a b \<longleftrightarrow> (dict_ok (ge_channels a) \<longrightarrow> dict_ok (ge_channels b))
     \<and> (\<forall>e ch. dict_get (ge_channels a) e = Some ch \<longrightarrow> dict_get (ge_channels b) e = Some ch)"

interpretation cache: effect_bound "\<lambda>w w'. cache_grows (w_env w) (w_env w')"
  by unfold_locales (auto simp: cache_grows_def)

lemma perf_counter_cache: "moves (\<lambda>w w'. cache_grows (w_env w) (w_env w')) perf_counter"
  by (simp add: moves_def perf_counter_def Let_def cache_grows_def)

lemma get_channel_cache: "moves (\<lambda>w w'. cache_grows (w_env w) (w_env w')) (on_env (get_channel api e))"
  by (auto simp: moves_def on_env_def get_channel_def cache_grows_def dict_get_set dict_ok_set
      split: prod.splits option.splits)

lemma call_stub_cache:
  "moves (\<lambda>w w'. cache_grows (w_env w) (w_env w')) (on_env (call_stub api f ch q t))"
  by (auto simp: moves_def on_env_def call_stub_def cache_grows_def split: prod.splits sum.splits)

lemma grpc_tail_cache: "moves (\<lambda>w w'. cache_grows (w_env w) (w_env w')) (grpc_invoke_tail api f p c ch)"
  unfolding grpc_invoke_tail_def by (intro cache.moves_intros perf_counter_cache call_stub_cache)

lemma grpc_cache_grows: "moves (\<lambda>w w'. cache_grows (w_env w) (w_env w')) (grpc_invoke api resolver f p c)"
  unfolding grpc_invoke_def by (intro cache.moves_intros get_channel_cache grpc_tail_cache)

lemma get_channel_cached:
  "get_channel api e env = (r, env') \<Longrightarrow> \<exists>ch. r = Inr ch \<and> dict_get (ge_channels env') e = Some ch"
  by (auto simp: get_channel_def dict_get_set split: prod.splits option.splits)

lemma perf_counter_run: "\<exists>t w'. perf_counter w = (Inr t, w') \<and> w_env w' = w_env w"
  by (simp add: perf_counter_def Let_def)

section \<open>Properties\<close>

text \<open>
  The in-process invoker: an unregistered feature is reported unavailable without running
  anything; otherwise the handler runs exactly once on the payload, its output is returned
  with a latency that is not negative, and what it raises is passed on.
\<close>

theorem local_invoke_correct:
  "(dict_get handlers f = None \<longrightarrow>
      (\<exists>msg. local_invoke handlers f p c w = (Inl (FeatureUnavailable msg), w))) \<and>
   (\<forall>h r env'. dict_get handlers f = Some h \<and> h p (w_env w) = (r, env') \<longrightarrow>
      (\<exists>res w'. local_invoke handlers f p c w = (res, w') \<and> w_env w' = env' \<and>
        (case r of Inl e \<Rightarrow> res = Inl e
         | Inr out \<Rightarrow> \<exists>l. 0 \<le> l \<and> res = Inr \<lparr>res_output = out, res_latency_ms = l\<rparr>)))"
proof (intro conjI impI allI)
  show "dict_get handlers f = None \<Longrightarrow> \<exists>msg. local_invoke handlers f p c w = (Inl (FeatureUnavailable msg), w)"
    by (simp add: local_invoke_def raiseM_run)
next
  fix h r env'
  assume h: "dict_get handlers f = Some h \<and> h p (w_env w) = (r, env')"
  obtain t w0 where p0: "perf_counter w = (Inr t, w0)" "w_env w0 = w_env w"
    using perf_counter_run by blast
  let ?w1 = "w0\<lparr>w_env := env'\<rparr>"
  have run: "on_env (h p) w0 = (r, ?w1)" using h p0(2) by (simp add: on_env_def)
  obtain t' w2 where p2: "perf_counter ?w1 = (Inr t', w2)" "w_env w2 = env'"
    using perf_counter_run [of ?w1] by auto
  show "\<exists>res w'. local_invoke handlers f p c w = (res, w') \<and> w_env w' = env' \<and>
      (case r of Inl e \<Rightarrow> res = Inl e
       | Inr out \<Rightarrow> \<exists>l. 0 \<le> l \<and> res = Inr \<lparr>res_output = out, res_latency_ms = l\<rparr>)"
    using h p0 run p2 elapsed_around [OF p0(1) run p2(1)]
    by (cases r) (auto simp: local_invoke_def bindM_def returnM_run)
qed

theorem local_invoke_correct_witness:
  "\<exists>l. 0 \<le> l \<and> fst (local_invoke [(lit ''echo'', \<lambda>v e. (Inr [(lit ''text'', v)], e + 1))] (lit ''echo'') (JInt 7)
       default_context \<lparr>w_ns = 0, w_delays = (\<lambda>_. 5), w_reads = 0, w_env = (0::int)\<rparr>)
     = Inr \<lparr>res_output = [(lit ''text'', JInt 7)], res_latency_ms = l\<rparr>"
proof -
  let ?hs = "[(lit ''echo'', \<lambda>v (e::int). (Inr [(lit ''text'', v)] :: exn + json_obj, e + 1))]"
  let ?w = "\<lparr>w_ns = 0, w_delays = (\<lambda>_. 5), w_reads = 0, w_env = (0::int)\<rparr>"
  have h: "dict_get ?hs (lit ''echo'') = Some (\<lambda>v e. (Inr [(lit ''text'', v)], e + 1))"
    by (simp add: dict_get_def)
  show ?thesis
    using local_invoke_correct [of ?hs "lit ''echo''" "JInt 7" default_context ?w] h by fastforce
qed

text \<open>
  C25. The gRPC invoker keeps one channel per endpoint: an invocation never replaces or drops
  a cached channel, whatever its outcome, and once the endpoint is known the channel it uses
  for it is the cached one from then on; closing empties the cache when every channel closes.
\<close>

theorem grpc_channel_cache:
  assumes "grpc_invoke api resolver f p c w = (r, w')" and "dict_ok (ge_channels (w_env w))"
  shows "dict_ok (ge_channels (w_env w'))
    \<and> (\<forall>e ch. dict_get (ge_channels (w_env w)) e = Some ch \<longrightarrow> dict_get (ge_channels (w_env w')) e = Some ch)
    \<and> (\<forall>e. resolver f = Inr e \<longrightarrow> e \<in> set (dict_keys (ge_channels (w_env w'))))
    \<and> (\<forall>u env. grpc_close api (w_env w') = (Inr u, env) \<longrightarrow> ge_channels env = [])"
proof (intro conjI)
  have g: "cache_grows (w_env w) (w_env w')" using movesD [OF grpc_cache_grows assms(1)] .
  then show "dict_ok (ge_channels (w_env w'))" using assms(2) by (simp add: cache_grows_def)
  show "\<forall>e ch. dict_get (ge_channels (w_env w)) e = Some ch \<longrightarrow> dict_get (ge_channels (w_env w')) e = Some ch"
    using g by (simp add: cache_grows_def)
  show "\<forall>u env. grpc_close api (w_env w') = (Inr u, env) \<longrightarrow> ge_channels env = []"
    by (auto simp: grpc_close_def split: prod.splits sum.splits)
  show "\<forall>e. resolver f = Inr e \<longrightarrow> e \<in> set (dict_keys (ge_channels (w_env w')))"
  proof (intro allI impI)
    fix e assume e: "resolver f = Inr e"
    obtain ch wa where ga: "on_env (get_channel api e) w = (Inr ch, wa)" "dict_get (ge_channels (w_env wa)) e = Some ch"
      using get_channel_cached [of api e "w_env w"] by (force simp: on_env_def split: prod.splits)
    let ?rest = "grpc_invoke_tail api f p c ch"
    have "grpc_invoke api resolver f p c w = ?rest wa"
      using e ga(1) by (simp add: grpc_invoke_def bindM_liftE bindM_Inr grpc_invoke_tail_def)
    then have "cache_grows (w_env wa) (w_env w')"
      using assms(1) movesD [OF grpc_tail_cache] by metis
    then show "e \<in> set (dict_keys (ge_channels (w_env w')))"
      using ga(2) dict_get_None_iff [of "ge_channels (w_env w')" e] by (auto simp: cache_grows_def)
  qed
qed

text \<open>A network that counts opened channels and answers every call with its request.\<close>

definition sample_api :: "(nat, json, json, nat) grpc_api" where
  "sample_api = \<lparr>g_channel = (\<lambda>e n. (n, n + 1)), g_request = (\<lambda>f t u ms md p. Inr p),
     g_call = (\<lambda>ch q t n. if q = JNull then (Inl (AioRpcError INVALID_ARGUMENT (Some (lit ''no name''))), n)
                              else if q = JBool False then (Inl (AioRpcError (OtherCode (lit ''StatusCode.UNAVAILABLE'')) None), n)
                              else (Inr q, n)),
     g_output = (\<lambda>r. Inr [(lit ''echo'', r)]), g_close = (\<lambda>ch. returnM ())\<rparr>"

definition sample_world :: "(nat, nat) grpc_env world" where
  "sample_world = \<lparr>w_ns = 0, w_delays = (\<lambda>_. 5), w_reads = 0, w_env = \<lparr>ge_channels = [], ge_net = 0\<rparr>\<rparr>"

definition sample_resolver :: "pystr \<Rightarrow> exn + pystr" where
  "sample_resolver f = (if f = lit ''echo'' then Inr (lit ''echo:50051'')
     else Inl (FeatureUnavailable (lit ''no endpoint'')))"

theorem grpc_channel_cache_witness:
  "\<exists>r w'. grpc_invoke sample_api sample_resolver (lit ''echo'') JNull default_context sample_world = (r, w')
    \<and> lit ''echo:50051'' \<in> set (dict_keys (ge_channels (w_env w')))"
proof -
  obtain r w' where r: "grpc_invoke sample_api sample_resolver (lit ''echo'') JNull default_context sample_world = (r, w')"
    by force
  have "dict_ok (ge_channels (w_env sample_world))" by (simp add: sample_world_def)
  from grpc_channel_cache [OF r this] r show ?thesis by (auto simp: sample_resolver_def)
qed

text \<open>The request the invoker sends for an invocation.\<close>

abbreviation request_for ::
  "('c, 'q, 'r, 'x) grpc_api \<Rightarrow> pystr \<Rightarrow> json \<Rightarrow> request_context \<Rightarrow> exn + 'q" where
  "request_for api feature payload context \<equiv>
     g_request api feature (case c_trace_id context of None \<Rightarrow> [] | Some t \<Rightarrow> t)
       (case c_tenant context of None \<Rightarrow> [] | Some t \<Rightarrow> t) (c_timeout_ms context) (c_metadata context) payload"

text \<open>An invocation whose endpoint and request are there has the outcome of its call.\<close>

lemma grpc_invoke_outcome:
  assumes "resolver f = Inr endpoint" and "get_channel api endpoint (w_env w) = (Inr ch, env)"
    and "request_for api f p c = Inr q"
    and "g_call api ch q (int_div (c_timeout_ms c) 1000) (ge_net env) = (outcome, net)"
  shows "case outcome of
      Inl failure \<Rightarrow> fst (grpc_invoke api resolver f p c w) = Inl (rpc_exception f failure)
    | Inr response \<Rightarrow> (case g_output api response of
        Inl e \<Rightarrow> fst (grpc_invoke api resolver f p c w) = Inl e
      | Inr out \<Rightarrow> \<exists>l. fst (grpc_invoke api resolver f p c w) = Inr \<lparr>res_output = out, res_latency_ms = l\<rparr>)"
proof -
  have ch: "on_env (get_channel api endpoint) w = (Inr ch, w\<lparr>w_env := env\<rparr>)" using assms(2) by (simp add: on_env_def)
  obtain t w1 where t: "perf_counter (w\<lparr>w_env := env\<rparr>) = (Inr t, w1)" "w_env w1 = env"
    using perf_counter_run [of "w\<lparr>w_env := env\<rparr>"] by auto
  have run: "grpc_invoke api resolver f p c w =
      bindM (on_env (call_stub api f ch q (int_div (c_timeout_ms c) 1000))) (\<lambda>response.
      bindM perf_counter (\<lambda>stop.
      bindM (liftE (g_output api response)) (\<lambda>output.
      returnM \<lparr>res_output = output, res_latency_ms = elapsed_ms t stop\<rparr>))) w1"
    using assms(1,3) ch t(1) by (simp add: grpc_invoke_def grpc_invoke_tail_def bindM_liftE bindM_Inr)
  show ?thesis
  proof (cases outcome)
    case (Inl failure)
    then show ?thesis unfolding run using assms(4) t(2) by (simp add: on_env_def call_stub_def bindM_def)
  next
    case (Inr response)
    then have stub: "on_env (call_stub api f ch q (int_div (c_timeout_ms c) 1000)) w1 =
        (Inr response, w1\<lparr>w_env := env\<lparr>ge_net := net\<rparr>\<rparr>)"
      using assms(4) t(2) by (simp add: on_env_def call_stub_def)
    obtain t' w2 where "perf_counter (w1\<lparr>w_env := env\<lparr>ge_net := net\<rparr>\<rparr>) = (Inr t', w2)" using perf_counter_run by blast
    with Inr show ?thesis unfolding run
      by (auto simp: bindM_def [of "on_env _"] stub bindM_Inr bindM_liftE returnM_run split: sum.split)
  qed
qed

text \<open>
  C26. What the gRPC invoker raises. It raises what the resolver raises, before anything is sent.
  Otherwise its one call, with the channel of the endpoint, the request built from the payload
  and the timeout of the context, decides: when that call fails, as \<open>grpc.aio\<close> documents, with
  \<open>AioRpcError\<close>, the invoker raises \<open>FeatureInputError\<close> exactly for \<open>INVALID_ARGUMENT\<close>, with the
  details of the feature if there are any, and \<open>FeatureUnavailable\<close> exactly for every other
  code; when it answers with a readable output, the invoker returns that output.
\<close>

theorem grpc_invoke_raises:
  assumes "resolver f = Inr endpoint" and "get_channel api endpoint (w_env w) = (Inr ch, env)"
    and "request_for api f p c = Inr q"
    and "g_call api ch q (int_div (c_timeout_ms c) 1000) (ge_net env) = (outcome, net)"
    and "\<And>x. outcome = Inl x \<Longrightarrow> \<exists>code details. x = AioRpcError code details"
    and "\<And>r. outcome = Inr r \<Longrightarrow> \<not> isl (g_output api r)"
    and "resolver g = Inl x"
  shows "((\<exists>m. fst (grpc_invoke api resolver f p c w) = Inl (FeatureInputError m)) \<longleftrightarrow>
        (\<exists>details. outcome = Inl (AioRpcError INVALID_ARGUMENT details)))
    \<and> ((\<exists>m. fst (grpc_invoke api resolver f p c w) = Inl (FeatureUnavailable m)) \<longleftrightarrow>
        (\<exists>code details. outcome = Inl (AioRpcError code details) \<and> code \<noteq> INVALID_ARGUMENT))
    \<and> (\<forall>d. outcome = Inl (AioRpcError INVALID_ARGUMENT (Some d)) \<and> d \<noteq> [] \<longrightarrow>
        fst (grpc_invoke api resolver f p c w) = Inl (FeatureInputError d))
    \<and> (\<forall>r. outcome = Inr r \<longrightarrow> (\<exists>out l. g_output api r = Inr out \<and>
        fst (grpc_invoke api resolver f p c w) = Inr \<lparr>res_output = out, res_latency_ms = l\<rparr>))
    \<and> grpc_invoke api resolver g p c w = (Inl x, w)"
proof -
  note run = grpc_invoke_outcome [where resolver = resolver and f = f and endpoint = endpoint and p = p and c = c, OF assms(1-4)]
  have x: "grpc_invoke api resolver g p c w = (Inl x, w)" using assms(7) by (simp add: grpc_invoke_def bindM_liftE)
  show ?thesis
  proof (cases outcome)
    case (Inl failure)
    then obtain code details where "failure = AioRpcError code details" using assms(5) by blast
    with Inl run x show ?thesis by (cases code) auto
  next
    case (Inr r)
    then obtain out where "g_output api r = Inr out" using assms(6) by (cases "g_output api r") auto
    with Inr run x show ?thesis by auto
  qed
qed

theorem grpc_invoke_raises_witness:
  "fst (grpc_invoke sample_api sample_resolver (lit ''echo'') JNull default_context sample_world) =
     Inl (FeatureInputError (lit ''no name''))
   \<and> (\<exists>m. fst (grpc_invoke sample_api sample_resolver (lit ''echo'') (JBool False) default_context sample_world) =
     Inl (FeatureUnavailable m))"
proof
  have r: "sample_resolver (lit ''echo'') = Inr (lit ''echo:50051'')" by (simp add: sample_resolver_def)
  have n: "sample_resolver (lit ''nope'') = Inl (FeatureUnavailable (lit ''no endpoint''))"
    by (simp add: sample_resolver_def lit_def)
  let ?env = "\<lparr>ge_channels = [(lit ''echo:50051'', 0)], ge_net = 1\<rparr> :: (nat, nat) grpc_env"
  have ch: "get_channel sample_api (lit ''echo:50051'') (w_env sample_world) = (Inr 0, ?env)"
    by (simp add: get_channel_def sample_api_def sample_world_def dict_get_def dict_set_def)
  have q: "request_for sample_api (lit ''echo'') p default_context = Inr p" for p by (simp add: sample_api_def)
  have call: "g_call sample_api 0 JNull t (ge_net ?env) = (Inl (AioRpcError INVALID_ARGUMENT (Some (lit ''no name''))), 1)"
    "g_call sample_api 0 (JBool False) t (ge_net ?env) = (Inl (AioRpcError (OtherCode (lit ''StatusCode.UNAVAILABLE'')) None), 1)" for t
    by (simp_all add: sample_api_def)
  have d: "lit ''no name'' \<noteq> []" by simp
  from grpc_invoke_raises [where resolver = sample_resolver and f = "lit ''echo''" and g = "lit ''nope''", OF r ch q call(1) _ _ n] d
  show "fst (grpc_invoke sample_api sample_resolver (lit ''echo'') JNull default_context sample_world) =
     Inl (FeatureInputError (lit ''no name''))" by auto
  from grpc_invoke_raises [where resolver = sample_resolver and f = "lit ''echo''" and g = "lit ''nope''", OF r ch q call(2) _ _ n]
  show "\<exists>m. fst (grpc_invoke sample_api sample_resolver (lit ''echo'') (JBool False) default_context sample_world) =
     Inl (FeatureUnavailable m)" by auto
qed

end
