(* ===== verification/Services.thy ===== *)
theory Services
  imports Catalog Validation Invoker
begin

text \<open>
  The two services the faces of the gateway share: a catalog, as the operations of the class
  \<open>Catalog\<close>, and an invoker. The record names the operations; its instances are the two
  catalogs of \<open>gateway/catalog.py\<close>.
\<close>

record catalog_ops =
  cat_list :: "pystr option \<Rightarrow> pystr list option \<Rightarrow> exn + feature list"
  cat_get :: "pystr \<Rightarrow> exn + feature option"
  cat_get_other :: "json \<Rightarrow> exn + unit"
  cat_capabilities :: "exn + capability_summary list"

text \<open>
  \<open>cat_get_other\<close> is \<open>get\<close> with a key that is not a string, which a JSON-RPC message can
  carry: no feature has such a name, and a key that cannot be hashed raises.
\<close>

fun in_memory_get_other :: "json \<Rightarrow> exn + unit" where
  "in_memory_get_other (JList xs) = Inl TypeError"
| "in_memory_get_other (JObj d) = Inl TypeError"
| "in_memory_get_other v = Inr ()"

definition in_memory_ops :: "in_memory_catalog \<Rightarrow> catalog_ops" where
  "in_memory_ops c =
     \<lparr>cat_list = in_memory_list c, cat_get = in_memory_get c, cat_get_other = in_memory_get_other,
      cat_capabilities = in_memory_list_capabilities c\<rparr>"

definition k8s_ops :: "(pystr \<Rightarrow> exn + json) \<Rightarrow> k8s_api \<Rightarrow> (json \<Rightarrow> exn + unit) \<Rightarrow> catalog_ops" where
  "k8s_ops loads api other =
     \<lparr>cat_list = k8s_list loads api, cat_get = k8s_get loads api, cat_get_other = other,
      cat_capabilities = k8s_list_capabilities loads api\<rparr>"

type_synonym 'e invoke_fn = "pystr \<Rightarrow> json \<Rightarrow> request_context \<Rightarrow> ('e world, invoke_result) io"

text \<open>\<open>_resolve\<close> of the application: the endpoint of a feature in cluster mode.\<close>

definition cluster_resolve :: "(pystr \<Rightarrow> exn + feature option) \<Rightarrow> pystr \<Rightarrow> exn + pystr" where
  "cluster_resolve get name =
     bindE (get name) (\<lambda>feature.
     case feature of
       None \<Rightarrow> Inl (FeatureUnavailable (lit ''no endpoint for feature '' @ quoted name))
     | Some f \<Rightarrow>
         (case f_endpoint f of
            None \<Rightarrow> Inl (FeatureUnavailable (lit ''no endpoint for feature '' @ quoted name))
          | Some e \<Rightarrow> if e = [] then Inl (FeatureUnavailable (lit ''no endpoint for feature '' @ quoted name))
                       else Inr e))"

lemma cluster_resolve_Inr:
  "cluster_resolve get name = Inr e \<longleftrightarrow> e \<noteq> [] \<and> (\<exists>f. get name = Inr (Some f) \<and> f_endpoint f = Some e)"
  by (cases "get name") (auto simp: cluster_resolve_def split: option.splits)

lemma cluster_resolve_Inl:
  "cluster_resolve get name = Inl x \<Longrightarrow> get name = Inl x \<or> (\<exists>m. x = FeatureUnavailable m)"
  by (auto simp: cluster_resolve_def exn_simps split: option.splits if_splits)

text \<open>\<open>except FeatureInputError: ... except FeatureUnavailable: ...\<close>, other exceptions pass.\<close>

definition except_feature :: "('s, 'a) io \<Rightarrow> ('s, 'a) io \<Rightarrow> exn \<Rightarrow> ('s, 'a) io option" where
  "except_feature on_input on_unavailable e =
     (case e of FeatureInputError _ \<Rightarrow> Some on_input | FeatureUnavailable _ \<Rightarrow> Some on_unavailable | _ \<Rightarrow> None)"

section \<open>Texts of exceptions\<close>

text \<open>
  An invoker with the texts of the two declared exceptions removed. A face of the gateway
  that behaves the same over it does not let those texts, which may carry internals of a
  feature or of the transport, reach the caller.
\<close>

fun erase_text :: "exn \<Rightarrow> exn" where
  "erase_text (FeatureUnavailable m) = FeatureUnavailable []"
| "erase_text (FeatureInputError m) = FeatureInputError []"
| "erase_text e = e"

definition erased :: "'e invoke_fn \<Rightarrow> 'e invoke_fn" where
  "erased invoke f p c w =
     (case invoke f p c w of (Inl e, w') \<Rightarrow> (Inl (erase_text e), w') | (Inr r, w') \<Rightarrow> (Inr r, w'))"

lemma erased_idem: "erased (erased invoke) = erased invoke"
proof -
  have "erase_text (erase_text e) = erase_text e" for e by (cases e) auto
  then show ?thesis by (intro ext) (auto simp: erased_def split: prod.splits sum.splits)
qed

text \<open>A handler that treats the two exceptions by their type only.\<close>

definition by_type :: "(exn \<Rightarrow> ('s, 'a) io option) \<Rightarrow> bool" where
  "by_type h \<longleftrightarrow> (\<forall>e. h (erase_text e) = h e) \<and> (\<forall>m. h (FeatureUnavailable m) \<noteq> None)
     \<and> (\<forall>m. h (FeatureInputError m) \<noteq> None)"

lemma except_feature_by_type: "by_type (except_feature a b)"
proof -
  have "except_feature a b (erase_text e) = except_feature a b e" for e
    by (cases e) (simp_all add: except_feature_def)
  moreover have "except_feature a b (FeatureUnavailable m) \<noteq> None" "except_feature a b (FeatureInputError m) \<noteq> None" for m
    by (simp_all add: except_feature_def)
  ultimately show ?thesis by (simp add: by_type_def)
qed

lemma try_erased:
  assumes "by_type h"
  shows "tryM (bindM (erased invoke f p c) k) h = tryM (bindM (invoke f p c) k) h"
proof
  fix w
  obtain r w' where r: "invoke f p c w = (r, w')" by (cases "invoke f p c w")
  show "tryM (bindM (erased invoke f p c) k) h w = tryM (bindM (invoke f p c) k) h w"
  proof (cases r)
    case (Inl e)
    have "h (erase_text e) = h e" using assms by (simp add: by_type_def)
    moreover have "erase_text e = e" if n: "h e = None"
    proof -
      have "e \<noteq> FeatureUnavailable m" "e \<noteq> FeatureInputError m" for m
        using assms n unfolding by_type_def by blast+
      then show ?thesis by (cases e) auto
    qed
    ultimately show ?thesis using r Inl by (auto simp: tryM_def bindM_def erased_def split: option.splits)
  next
    case (Inr y)
    then show ?thesis using r by (simp add: tryM_def bindM_def erased_def)
  qed
qed

end
