(* ===== verification/Mcp.thy ===== *)
theory Mcp
  imports Services
begin

text \<open>
  The MCP face, \<open>gateway/mcp.py\<close>: JSON-RPC requests as JSON values, the three methods, and
  the tool calls over a catalog and an invoker.
\<close>

section \<open>Messages\<close>

definition rpc_ok :: "json \<Rightarrow> json \<Rightarrow> json" where
  "rpc_ok msg_id result =
     JObj [(lit ''jsonrpc'', JStr (lit ''2.0'')), (lit ''id'', msg_id), (lit ''result'', result)]"

definition rpc_err :: "json \<Rightarrow> int \<Rightarrow> pystr \<Rightarrow> json" where
  "rpc_err msg_id code message =
     JObj [(lit ''jsonrpc'', JStr (lit ''2.0'')), (lit ''id'', msg_id),
       (lit ''error'', JObj [(lit ''code'', JInt code), (lit ''message'', JStr message)])]"

definition content :: "pystr \<Rightarrow> bool \<Rightarrow> json" where
  "content t is_error =
     JObj [(lit ''content'', JList [JObj [(lit ''type'', JStr (lit ''text'')), (lit ''text'', JStr t)]]),
       (lit ''isError'', JBool is_error)]"

definition tool_error :: "json \<Rightarrow> pystr \<Rightarrow> json" where
  "tool_error msg_id message = rpc_ok msg_id (content message True)"

definition INVALID_PARAMS :: int where "INVALID_PARAMS = - 32602"
definition METHOD_NOT_FOUND :: int where "METHOD_NOT_FOUND = - 32601"

definition tool :: "manifest \<Rightarrow> json" where
  "tool m =
     JObj [(lit ''name'', JStr (m_name m)), (lit ''description'', JStr (m_description m)),
       (lit ''inputSchema'',
         JObj (if m_input_schema m = [] then [(lit ''type'', JStr (lit ''object''))] else m_input_schema m))]"

definition initialize_result :: json where
  "initialize_result =
     JObj [(lit ''protocolVersion'', JStr (lit ''2025-06-18'')),
       (lit ''capabilities'', JObj [(lit ''tools'', JObj [(lit ''listChanged'', JBool False)])]),
       (lit ''serverInfo'', JObj [(lit ''name'', JStr (lit ''agent-features-gateway'')),
         (lit ''version'', JStr (lit ''0.1.0''))])]"

section \<open>Requests\<close>

text \<open>\<open>catalog.get(name) if name else None\<close>, for whatever JSON value the name is.\<close>

definition find_tool :: "catalog_ops \<Rightarrow> json \<Rightarrow> exn + (pystr \<times> feature) option" where
  "find_tool cat name =
     (if \<not> truthy name then Inr None
      else case name of
        JStr n \<Rightarrow> bindE (cat_get cat n) (\<lambda>f. Inr (map_option (\<lambda>x. (n, x)) f))
      | _ \<Rightarrow> bindE (cat_get_other cat name) (\<lambda>_. Inr None))"

definition or_empty :: "json \<Rightarrow> json" where
  "or_empty v = (if truthy v then v else JObj [])"

text \<open>The two exceptions a tool call answers with a generic message.\<close>

definition tool_failure :: "json \<Rightarrow> pystr \<Rightarrow> exn \<Rightarrow> ('s, json) io option" where
  "tool_failure msg_id n =
     except_feature
       (returnM (tool_error msg_id (lit ''feature '' @ quoted n @ lit '' rejected the input'')))
       (returnM (tool_error msg_id (lit ''feature '' @ quoted n @ lit '' is currently unavailable'')))"

text \<open>\<open>_call\<close>\<close>

definition call_tool ::
  "validator option \<Rightarrow> catalog_ops \<Rightarrow> 'e invoke_fn \<Rightarrow> json \<Rightarrow> json \<Rightarrow> ('e world, json) io" where
  "call_tool vld cat invoke msg_id params =
     bindM (liftE (as_dict params)) (\<lambda>ps.
     let name = get_or ps (lit ''name'') JNull;
         arguments = or_empty (get_or ps (lit ''arguments'') JNull) in
     bindM (liftE (find_tool cat name)) (\<lambda>found.
     case found of
       None \<Rightarrow> returnM (rpc_err msg_id INVALID_PARAMS (lit ''unknown tool: '' @ py_str name))
     | Some (n, feature) \<Rightarrow>
         bindM (liftE (collect_errors vld arguments (m_input_schema (f_manifest feature)))) (\<lambda>input_errors.
         if input_errors \<noteq> []
         then returnM (tool_error msg_id (lit ''invalid input: '' @ join (lit ''; '') input_errors))
         else tryM
           (bindM (invoke n arguments default_context) (\<lambda>result.
            returnM (rpc_ok msg_id (content (dumps (JObj (res_output result))) False))))
           (tool_failure msg_id n))))"

definition handle ::
  "validator option \<Rightarrow> catalog_ops \<Rightarrow> 'e invoke_fn \<Rightarrow> json \<Rightarrow> ('e world, json option) io" where
  "handle vld cat invoke message =
     bindM (liftE (as_dict message)) (\<lambda>msg.
     let meth = get_or msg (lit ''method'') JNull;
         msg_id = get_or msg (lit ''id'') JNull;
         params = or_empty (get_or msg (lit ''params'') JNull) in
     if msg_id = JNull \<and> meth \<noteq> JStr (lit ''initialize'') then returnM None
     else if meth = JStr (lit ''initialize'') then returnM (Some (rpc_ok msg_id initialize_result))
     else if meth = JStr (lit ''tools/list'') then
       bindM (liftE (cat_list cat None None)) (\<lambda>fs.
       returnM (Some (rpc_ok msg_id (JObj [(lit ''tools'', JList (map (\<lambda>f. tool (f_manifest f)) fs))]))))
     else if meth = JStr (lit ''tools/call'') then
       bindM (call_tool vld cat invoke msg_id params) (\<lambda>r. returnM (Some r))
     else returnM (Some (rpc_err msg_id METHOD_NOT_FOUND (lit ''unknown method: '' @ py_str meth))))"

section \<open>Responses\<close>

text \<open>A JSON-RPC response to a request: version, the same id, and either a result or an error.\<close>

definition response_to :: "json \<Rightarrow> json \<Rightarrow> bool" where
  "response_to msg_id r \<longleftrightarrow> (\<exists>result. r = rpc_ok msg_id result) \<or> (\<exists>code message. r = rpc_err msg_id code message)"

lemma response_simps [simp]:
  "response_to i (rpc_ok i r)" "response_to i (rpc_err i c m)" "response_to i (tool_error i m)"
  by (auto simp: response_to_def tool_error_def)

lemma try_tool_response:
  assumes "tryM (bindM (invoke n a c) (\<lambda>result. returnM (rpc_ok msg_id (f result)))) (tool_failure msg_id n) w = (Inr r, w')"
  shows "response_to msg_id r"
  using assms
  by (auto simp: tryM_def bindM_def returnM_run tool_failure_def except_feature_def split: prod.splits sum.splits option.splits exn.splits)

lemma call_tool_response: "call_tool vld cat invoke msg_id params w = (Inr r, w') \<Longrightarrow> response_to msg_id r"
  unfolding call_tool_def
  by (auto simp: bindM_liftE returnM_run Let_def dest: try_tool_response
      split: sum.splits option.splits prod.splits if_splits)

lemma tool_failure_by_type: "by_type (tool_failure i n)"
  by (simp add: tool_failure_def except_feature_by_type)

lemma call_tool_erased: "call_tool vld cat (erased invoke) = call_tool vld cat invoke"
  unfolding call_tool_def [abs_def] try_erased [OF tool_failure_by_type] by (rule refl)

lemma handle_erased: "handle vld cat (erased invoke) = handle vld cat invoke"
  unfolding handle_def [abs_def] call_tool_erased by (rule refl)

lemma try_tool_world:
  "tryM (bindM (invoke n a c) (\<lambda>x. returnM (g x))) (tool_failure msg_id n) w = (r, w') \<Longrightarrow>
   snd (invoke n a c w) = w'"
  by (auto simp: tryM_def bindM_def returnM_run tool_failure_def except_feature_def
      split: prod.splits sum.splits option.splits exn.splits)

text \<open>The world a tool call leaves is that of the invocation it makes, if it makes one.\<close>

lemma call_tool_world:
  assumes "call_tool vld cat invoke msg_id (JObj ps) w = (r, w')" and "w' \<noteq> w"
  shows "\<exists>n f. find_tool cat (get_or ps (lit ''name'') JNull) = Inr (Some (n, f))
    \<and> collect_errors vld (or_empty (get_or ps (lit ''arguments'') JNull)) (m_input_schema (f_manifest f)) = Inr []
    \<and> snd (invoke n (or_empty (get_or ps (lit ''arguments'') JNull)) default_context w) = w'"
  using assms unfolding call_tool_def
  by (auto simp: bindM_liftE returnM_run Let_def dest: try_tool_world split: sum.splits option.splits if_splits)

text \<open>
  A message changes the world only when it calls an existing tool whose schema finds no error
  in the arguments, and then exactly by the invocation of that tool with those arguments.
\<close>

lemma handle_world:
  assumes "handle vld cat invoke (JObj msg) w = (r, w')" and "w' \<noteq> w"
  shows "\<exists>ps n f. get_or msg (lit ''params'') JNull = JObj ps
    \<and> cat_get cat n = Inr (Some f) \<and> get_or ps (lit ''name'') JNull = JStr n
    \<and> collect_errors vld (or_empty (get_or ps (lit ''arguments'') JNull)) (m_input_schema (f_manifest f)) = Inr []
    \<and> w' = snd (invoke n (or_empty (get_or ps (lit ''arguments'') JNull)) default_context w)"
proof -
  let ?id = "get_or msg (lit ''id'') JNull" and ?p = "or_empty (get_or msg (lit ''params'') JNull)"
  from assms obtain r' where call: "call_tool vld cat invoke ?id ?p w = (r', w')"
    unfolding handle_def
    by (auto simp: liftE_run returnM_run Let_def bindM_def split: if_splits sum.splits prod.splits)
  have p: "\<exists>ps. ?p = JObj ps"
    using call assms(2) by (cases ?p) (auto simp: call_tool_def bindM_liftE)
  then obtain ps where ps: "?p = JObj ps" by blast
  from call_tool_world [OF call [unfolded ps] assms(2)] obtain n f where
    f: "find_tool cat (get_or ps (lit ''name'') JNull) = Inr (Some (n, f))"
      "collect_errors vld (or_empty (get_or ps (lit ''arguments'') JNull)) (m_input_schema (f_manifest f)) = Inr []"
      "snd (invoke n (or_empty (get_or ps (lit ''arguments'') JNull)) default_context w) = w'" by blast
  then have "get_or ps (lit ''name'') JNull = JStr n" "cat_get cat n = Inr (Some f)"
    by (auto simp: find_tool_def exn_simps split: json.splits if_splits)
  moreover from this have "ps \<noteq> []" by (auto simp: get_or_def)
  then have "get_or msg (lit ''params'') JNull = JObj ps" using ps by (auto simp: or_empty_def split: if_splits)
  ultimately show ?thesis using f by blast
qed

section \<open>Properties\<close>

text \<open>
  What the messages and the services have to be for a response. A notification is a message
  without an id other than \<open>initialize\<close>. A tool call needs an object for its parameters (or
  nothing), a tool name that the catalog can look up, and arguments that the input check of the
  tool can walk.
\<close>

definition notification :: "json_obj \<Rightarrow> bool" where
  "notification msg \<longleftrightarrow> get_or msg (lit ''id'') JNull = JNull \<and> get_or msg (lit ''method'') JNull \<noteq> JStr (lit ''initialize'')"

definition sound_call :: "validator option \<Rightarrow> catalog_ops \<Rightarrow> json_obj \<Rightarrow> bool" where
  "sound_call vld cat ps \<longleftrightarrow>
     (let name = get_or ps (lit ''name'') JNull in
      case name of
        JStr n \<Rightarrow> (case cat_get cat n of
            Inr (Some f) \<Rightarrow> n \<noteq> [] \<longrightarrow> \<not> isl (collect_errors vld (or_empty (get_or ps (lit ''arguments'') JNull)) (m_input_schema (f_manifest f)))
          | _ \<Rightarrow> True)
      | _ \<Rightarrow> truthy name \<longrightarrow> \<not> isl (cat_get_other cat name))"

definition answerable :: "validator option \<Rightarrow> catalog_ops \<Rightarrow> json_obj \<Rightarrow> bool" where
  "answerable vld cat msg \<longleftrightarrow> notification msg \<or> get_or msg (lit ''method'') JNull \<noteq> JStr (lit ''tools/call'')
     \<or> (case or_empty (get_or msg (lit ''params'') JNull) of JObj ps \<Rightarrow> sound_call vld cat ps | _ \<Rightarrow> False)"

text \<open>The catalog answers, and the invoker raises the two declared exceptions only.\<close>

definition services_up :: "catalog_ops \<Rightarrow> 'e invoke_fn \<Rightarrow> bool" where
  "services_up cat invoke \<longleftrightarrow> \<not> isl (cat_list cat None None) \<and> (\<forall>n. \<not> isl (cat_get cat n))
     \<and> (\<forall>n p c w e w'. invoke n p c w = (Inl e, w') \<longrightarrow> (\<exists>m. e = FeatureUnavailable m \<or> e = FeatureInputError m))"

lemma try_tool_answers:
  assumes "services_up cat invoke"
  shows "\<exists>r w'. tryM (bindM (invoke n a c) (\<lambda>result. returnM (rpc_ok msg_id (f result)))) (tool_failure msg_id n) w = (Inr r, w')"
proof (cases "invoke n a c w")
  case (Pair r w')
  then show ?thesis
  proof (cases r)
    case (Inl e)
    with Pair assms obtain m where "e = FeatureUnavailable m \<or> e = FeatureInputError m" unfolding services_up_def by blast
    with Pair Inl show ?thesis by (auto simp: tryM_def bindM_def returnM_run tool_failure_def except_feature_def)
  qed (use Pair in \<open>simp add: tryM_def bindM_def returnM_run\<close>)
qed

text \<open>A tool call returns exactly when it is sound; otherwise it raises before anything runs.\<close>

lemma call_tool_answers:
  assumes "services_up cat invoke"
  shows "case or_empty params of
      JObj ps \<Rightarrow> (if sound_call vld cat ps then \<exists>r w'. call_tool vld cat invoke msg_id (or_empty params) w = (Inr r, w')
        else \<exists>e. call_tool vld cat invoke msg_id (or_empty params) w = (Inl e, w))
    | _ \<Rightarrow> \<exists>e. call_tool vld cat invoke msg_id (or_empty params) w = (Inl e, w)"
proof (cases "or_empty params")
  case (JObj ps)
  let ?name = "get_or ps (lit ''name'') JNull"
  show ?thesis
  proof (cases "\<exists>n. ?name = JStr n")
    case True
    then obtain n where n: "?name = JStr n" by blast
    obtain found where g: "cat_get cat n = Inr found" using assms unfolding services_up_def by (metis sum.collapse(2))
    show ?thesis
    proof (cases "n = [] \<or> found = None")
      case True
      with n g JObj show ?thesis
        by (auto simp: call_tool_def bindM_liftE find_tool_def sound_call_def returnM_run Let_def split: option.splits)
    next
      case False
      then obtain f where f: "found = Some f" "n \<noteq> []" by blast
      note t = try_tool_answers [OF assms, of n]
      from n g f JObj show ?thesis
        by (cases "collect_errors vld (or_empty (get_or ps (lit ''arguments'') JNull)) (m_input_schema (f_manifest f))")
          (auto simp: call_tool_def bindM_liftE find_tool_def sound_call_def returnM_run Let_def intro: t)
    qed
  next
    case False
    with JObj show ?thesis
      by (cases ?name; cases "cat_get_other cat ?name")
        (auto simp: call_tool_def bindM_liftE find_tool_def sound_call_def returnM_run Let_def)
  qed
qed (simp_all add: call_tool_def bindM_liftE)

text \<open>
  C20. Which messages are answered, over services that are up. A notification gets no response
  and changes nothing. Every other message that is answerable gets a JSON-RPC response with its own
  id and either a result or an error. The rest, exactly the tool calls whose parameters are
  no object, whose name cannot be a key or whose arguments the input check cannot walk, raise an
  exception before anything is invoked: they get no JSON-RPC response.
\<close>

theorem handle_responds:
  assumes "services_up cat invoke"
  shows "case handle vld cat invoke (JObj msg) w of
      (Inr None, w') \<Rightarrow> notification msg \<and> w' = w
    | (Inr (Some r), w') \<Rightarrow> \<not> notification msg \<and> answerable vld cat msg \<and> response_to (get_or msg (lit ''id'') JNull) r
    | (Inl e, w') \<Rightarrow> \<not> answerable vld cat msg \<and> w' = w"
proof (cases "\<not> notification msg \<and> get_or msg (lit ''method'') JNull = JStr (lit ''tools/call'')")
  case True
  let ?p = "get_or msg (lit ''params'') JNull" and ?i = "get_or msg (lit ''id'') JNull"
  have run: "handle vld cat invoke (JObj msg) w =
      bindM (call_tool vld cat invoke ?i (or_empty ?p)) (\<lambda>r. returnM (Some r)) w"
    using True by (auto simp: handle_def bindM_liftE notification_def Let_def)
  have a: "answerable vld cat msg \<longleftrightarrow> (case or_empty ?p of JObj ps \<Rightarrow> sound_call vld cat ps | _ \<Rightarrow> False)"
    using True by (simp add: answerable_def)
  show ?thesis
  proof (cases "answerable vld cat msg")
    case yes: True
    then obtain r w' where r: "call_tool vld cat invoke ?i (or_empty ?p) w = (Inr r, w')"
      using call_tool_answers [OF assms, where params = ?p and vld = vld and msg_id = ?i and w = w] a by (auto split: json.splits if_splits)
    from call_tool_response [OF r] r True yes show ?thesis by (simp add: run bindM_def returnM_run)
  next
    case False
    then obtain e where "call_tool vld cat invoke ?i (or_empty ?p) w = (Inl e, w)"
      using call_tool_answers [OF assms, where params = ?p and vld = vld and msg_id = ?i and w = w] a by (auto split: json.splits if_splits)
    with False show ?thesis by (simp add: run bindM_def)
  qed
next
  case False
  obtain fs where "cat_list cat None None = Inr fs" using assms by (cases "cat_list cat None None") (auto simp: services_up_def)
  moreover have "answerable vld cat msg" using False by (auto simp: answerable_def)
  ultimately show ?thesis using False by (auto simp: handle_def bindM_liftE notification_def Let_def returnM_run)
qed

definition sample_mcp :: catalog_ops where
  "sample_mcp = in_memory_ops (in_memory_init [(manifest_defaults (lit ''echo''))\<lparr>m_input_schema := sample_schema\<rparr>])"

definition sample_invoke :: "int invoke_fn" where
  "sample_invoke = local_invoke [(lit ''echo'', \<lambda>v n. (Inl (FeatureInputError (lit ''no'')), n + 1))]"

definition start_world :: "int world" where
  "start_world = \<lparr>w_ns = 0, w_delays = (\<lambda>_. 5), w_reads = 0, w_env = 0\<rparr>"

definition rpc_request :: "string \<Rightarrow> json \<Rightarrow> json_obj" where
  "rpc_request meth params = [(lit ''id'', JInt 7), (lit ''method'', JStr (lit meth)), (lit ''params'', params)]"

theorem handle_responds_witness:
  "\<exists>r w'. handle None sample_mcp sample_invoke (JObj (rpc_request ''tools/nope'' JNull)) start_world = (Inr (Some r), w')
    \<and> response_to (JInt 7) r
    \<and> (\<exists>e. handle None sample_mcp sample_invoke (JObj (rpc_request ''tools/call'' (JList [JInt 1]))) start_world = (Inl e, start_world))"
proof -
  let ?bad = "rpc_request ''tools/call'' (JList [JInt 1])"
  have up: "services_up sample_mcp sample_invoke"
  proof -
    have "cat_list sample_mcp None None = Inr x \<Longrightarrow> \<not> isl (cat_list sample_mcp None None)" for x by simp
    moreover have "\<exists>x. cat_list sample_mcp None None = Inr x" by (simp add: sample_mcp_def in_memory_ops_def in_memory_list_def)
    moreover have "\<exists>m. e = FeatureUnavailable m \<or> e = FeatureInputError m"
      if "sample_invoke n p c w = (Inl e, w')" for n p c w e w'
      using that by (auto simp: sample_invoke_def local_invoke_def dict_get_def raiseM_run bindM_def on_env_def perf_counter_def
          Let_def split: if_splits)
    ultimately show ?thesis by (auto simp: services_up_def sample_mcp_def in_memory_ops_def in_memory_get_def)
  qed
  note run = handle_responds [OF up, of None _ start_world]
  have i: "get_or (rpc_request ''tools/nope'' JNull) (lit ''id'') JNull = JInt 7" by code_simp
  have "\<not> notification (rpc_request ''tools/nope'' JNull)" "answerable None sample_mcp (rpc_request ''tools/nope'' JNull)"
    "\<not> notification ?bad" "\<not> answerable None sample_mcp ?bad" by code_simp+
  with run [of "rpc_request ''tools/nope'' JNull"] run [of ?bad] i show ?thesis
    by (auto split: prod.splits sum.splits option.splits)
qed

end
