(* ===== verification/Sha256.thy ===== *)
theory Sha256
  imports PyStr "HOL-Library.Word"
begin

text \<open>
  SHA-256 (FIPS 180-4) as \<open>hashlib.sha256\<close> computes it, on lists of bytes, and its
  hexadecimal digest.
\<close>

unbundle bit_operations_syntax

type_synonym word32 = "32 word"

text \<open>
  The constants as the standard defines them: the first 32 bits of the fractional parts of the
  cube roots of the first 64 primes, and of the square roots of the first eight. \<open>iroot\<close> is the
  integer root, found bit by bit; at radix \<open>2 ^ 32\<close> its low 32 bits are those of the fraction.
\<close>

definition primes64 :: "int list" where
  "primes64 =
    [2, 3, 5, 7, 11, 13, 17, 19, 23, 29, 31, 37, 41, 43, 47, 53,
     59, 61, 67, 71, 73, 79, 83, 89, 97, 101, 103, 107, 109, 113, 127, 131,
     137, 139, 149, 151, 157, 163, 167, 173, 179, 181, 191, 193, 197, 199, 211, 223,
     227, 229, 233, 239, 241, 251, 257, 263, 269, 271, 277, 281, 283, 293, 307, 311]"

fun iroot :: "nat \<Rightarrow> int \<Rightarrow> nat \<Rightarrow> int \<Rightarrow> int" where
  "iroot k n 0 r = r"
| "iroot k n (Suc b) r = iroot k n b (if (r + 2 ^ b) ^ k \<le> n then r + 2 ^ b else r)"

definition root_bits :: "nat \<Rightarrow> int \<Rightarrow> word32" where
  "root_bits k p = word_of_int (iroot k (p * 2 ^ (32 * k)) 37 0)"

definition K256 :: "word32 list" where
  "K256 = map (root_bits 3) primes64"

definition H256 :: "word32 list" where
  "H256 = map (root_bits 2) (take 8 primes64)"

definition rotr :: "nat \<Rightarrow> word32 \<Rightarrow> word32" where
  "rotr n x = drop_bit n x OR push_bit (32 - n) x"

definition ch :: "word32 \<Rightarrow> word32 \<Rightarrow> word32 \<Rightarrow> word32" where
  "ch x y z = (x AND y) XOR (NOT x AND z)"

definition maj :: "word32 \<Rightarrow> word32 \<Rightarrow> word32 \<Rightarrow> word32" where
  "maj x y z = (x AND y) XOR (x AND z) XOR (y AND z)"

definition Sigma0 :: "word32 \<Rightarrow> word32" where
  "Sigma0 x = rotr 2 x XOR rotr 13 x XOR rotr 22 x"

definition Sigma1 :: "word32 \<Rightarrow> word32" where
  "Sigma1 x = rotr 6 x XOR rotr 11 x XOR rotr 25 x"

definition sigma0 :: "word32 \<Rightarrow> word32" where
  "sigma0 x = rotr 7 x XOR rotr 18 x XOR drop_bit 3 x"

definition sigma1 :: "word32 \<Rightarrow> word32" where
  "sigma1 x = rotr 17 x XOR rotr 19 x XOR drop_bit 10 x"

text \<open>The message schedule, latest word first, extended by \<open>n\<close> words.\<close>

fun schedule :: "nat \<Rightarrow> word32 list \<Rightarrow> word32 list" where
  "schedule 0 ws = ws"
| "schedule (Suc n) ws =
     schedule n ((sigma1 (ws ! 1) + ws ! 6 + sigma0 (ws ! 14) + ws ! 15) # ws)"

definition round_step :: "word32 \<times> word32 \<Rightarrow> word32 list \<Rightarrow> word32 list" where
  "round_step kw st =
     (case st of
        [a, b, c, d, e, f, g, h] \<Rightarrow>
          (let t1 = h + Sigma1 e + ch e f g + fst kw + snd kw; t2 = Sigma0 a + maj a b c in
           [t1 + t2, a, b, c, d + t1, e, f, g])
      | _ \<Rightarrow> st)"

definition compress :: "word32 list \<Rightarrow> word32 list \<Rightarrow> word32 list" where
  "compress block st =
     (let ws = rev (schedule 48 (rev block)) in map2 (+) st (fold round_step (zip K256 ws) st))"

definition be_word :: "int list \<Rightarrow> word32" where
  "be_word bs = word_of_int (foldl (\<lambda>a b. 256 * a + b) 0 bs)"

fun chunks :: "nat \<Rightarrow> 'a list \<Rightarrow> 'a list list" where
  "chunks n xs = (if n = 0 \<or> xs = [] then [] else take n xs # chunks n (drop n xs))"

declare chunks.simps [simp del]

text \<open>Padding: a 1 bit, zeros up to 56 modulo 64, and the length in bits as 8 bytes.\<close>

definition be_bytes :: "nat \<Rightarrow> int \<Rightarrow> int list" where
  "be_bytes n v = map (\<lambda>i. v div 256 ^ (n - 1 - i) mod 256) [0..<n]"

definition pad_message :: "int list \<Rightarrow> int list" where
  "pad_message bs = bs @ [128] @ replicate ((119 - length bs mod 64) mod 64) 0 @ be_bytes 8 (8 * int (length bs))"

definition sha256 :: "int list \<Rightarrow> word32 list" where
  "sha256 bs = fold compress (map (map be_word \<circ> chunks 4) (chunks 64 (pad_message bs))) H256"

definition hex_of :: "word32 \<Rightarrow> pystr" where
  "hex_of w = map (\<lambda>i. let n = uint w div 16 ^ (7 - i) mod 16 in
     Lat (char_of (if n < 10 then 48 + n else 87 + n))) [0..<8]"

text \<open>\<open>hashlib.sha256(data).hexdigest()\<close> of a text of ASCII characters.\<close>

definition sha256_hex :: "pystr \<Rightarrow> pystr" where
  "sha256_hex s = concat (map hex_of (sha256 (map cp s)))"

lemma length_H256: "length H256 = 8"
  by (simp add: H256_def primes64_def)

text \<open>The first and last entries of the two tables, as printed in the standard.\<close>

lemma table_ends:
  "root_bits 3 2 = 0x428a2f98" "root_bits 3 311 = 0xc67178f2" "root_bits 2 2 = 0x6a09e667" "root_bits 2 19 = 0x5be0cd19"
  by code_simp+

end
