(* ===== verification/FloatText.thy ===== *)
theory FloatText
  imports Json
begin

text \<open>
  Why a printed float reads back as itself: a decimal closer to a float than a part in
  \<open>2 ^ 54\<close> rounds to it, seventeen significant digits are always that close, and the
  search of \<open>repr\<close> therefore ends with digits that read back.
\<close>

section \<open>Decimals near a float\<close>

lemma fl_multiple:
  assumes "fl x = x"
  obtains m where "x = of_int m * 2 powi ulp_exp x"
proof
  show "x = of_int (round_half_even (x / 2 powi ulp_exp x)) * 2 powi ulp_exp x"
    using assms round_half_even_of_int [of 0] by (auto simp: fl_def split: if_splits)
qed

lemma powi_ratio:
  assumes "v \<le> u"
  shows "(2::rat) powi u = of_int (2 ^ nat (u - v)) * 2 powi v"
proof -
  have "(2::rat) powi u = 2 powi ((u - v) + v)" by simp
  also have "\<dots> = 2 powi (u - v) * 2 powi v" by (subst power_int_add) simp_all
  finally show ?thesis using assms by (simp add: powi_nat)
qed

lemma multiple_of_smaller:
  assumes "x = of_int m * 2 powi u" and "v \<le> u"
  obtains k where "x = of_int k * (2::rat) powi v"
proof
  show "x = of_int (m * 2 ^ nat (u - v)) * 2 powi v"
    using assms(1) powi_ratio [OF assms(2)] by simp
qed

lemma round_half_even_near:
  assumes "\<bar>r - of_int k\<bar> < 1 / 2"
  shows "round_half_even r = k"
proof -
  have "of_int (round_half_even r) - 1 / 2 \<le> r" "r \<le> of_int (round_half_even r) + 1 / 2"
    using round_half_even_bounds by blast+
  with assms have "of_int (round_half_even r) < of_int k + (1::rat)" "of_int k < of_int (round_half_even r) + (1::rat)"
    by linarith+
  then have "round_half_even r < k + 1" "k < round_half_even r + 1" by (metis of_int_1 of_int_add of_int_less_iff)+
  then show ?thesis by simp
qed

lemma fl_rounds_to:
  assumes "y \<noteq> 0" and "x = of_int k * 2 powi ulp_exp y" and "\<bar>y - x\<bar> < 2 powi ulp_exp y / 2"
  shows "fl y = x"
proof -
  let ?u = "(2::rat) powi ulp_exp y"
  have "y / ?u - of_int k = (y - x) / ?u" using assms(2) by (simp add: diff_divide_distrib)
  then have "\<bar>y / ?u - of_int k\<bar> = \<bar>y - x\<bar> / ?u" by simp
  also have "\<dots> < 1 / 2" using assms(3) by (simp add: divide_less_eq)
  finally show ?thesis using assms(1,2) round_half_even_near by (simp add: fl_def)
qed

text \<open>Two multiples of a unit that are less than the unit apart are equal.\<close>

lemma multiple_le:
  assumes "x = of_int m * (2::rat) powi u" and "y = of_int k * 2 powi u" and "x < y + 2 powi u"
  shows "x \<le> y"
proof -
  have "of_int m * (2::rat) powi u < of_int (k + 1) * 2 powi u" using assms by (simp add: algebra_simps)
  then have "of_int m < (of_int (k + 1) :: rat)" by (simp only: mult_less_cancel_right_pos powi_pos)
  then have "m < k + 1" by (simp only: of_int_less_iff)
  then have "m \<le> k" by simp
  then show ?thesis using assms by (simp add: mult_right_mono)
qed

lemma ilog2_unique:
  assumes "2 powi e \<le> x" and "x < 2 powi (e + 1)"
  shows "ilog2 x = e"
proof -
  have "0 < x" using assms(1) powi_pos [of e] by linarith
  note b = ilog2_bounds [OF this]
  have "(2::rat) powi e < 2 powi (ilog2 x + 1)" "2 powi ilog2 x < (2::rat) powi (e + 1)" using assms b by linarith+
  then have "e < ilog2 x + 1" "ilog2 x < e + 1" by (simp_all only: powi_less_iff)
  then show ?thesis by simp
qed

lemma eps_half:
  assumes "0 < x"
  shows "x / 2 ^ 54 < 2 powi ulp_exp x / 2"
proof -
  have "ilog2 x + 1 \<le> 53 + ulp_exp x" using assms by (simp add: ulp_exp_def)
  then have "x < 2 powi (53 + ulp_exp x)" using ilog2_bounds(2) [OF assms] powi_mono order_less_le_trans by blast
  also have "\<dots> = 2 ^ 53 * 2 powi ulp_exp x" by (simp add: power_int_add)
  finally show ?thesis by (simp add: field_simps)
qed

lemma multiple_ge:
  assumes "x = of_int m * (2::rat) powi u" and "0 < x"
  shows "2 powi u \<le> x"
proof (rule ccontr)
  assume "\<not> ?thesis"
  then have "x \<le> 0" using multiple_le [OF assms(1), of 0 0] by simp
  with assms(2) show False by simp
qed

lemma fl_near_above:
  assumes x: "fl x = x" "0 < x" and y: "x \<le> y" "y < x + x / 2 ^ 54"
  shows "fl y = x"
proof -
  let ?e = "ilog2 x" and ?u = "ulp_exp x"
  note b = ilog2_bounds [OF x(2)]
  obtain m where m: "x = of_int m * 2 powi ?u" using fl_multiple [OF x(1)] .
  note half = eps_half [OF x(2)]
  show ?thesis
  proof (cases "y < 2 powi (?e + 1)")
    case True
    have "2 powi ?e \<le> y" using b(1) y(1) by (rule order_trans)
    then have "ilog2 y = ?e" using True by (rule ilog2_unique)
    then have u: "ulp_exp y = ?u" using x y by (simp add: ulp_exp_def)
    show ?thesis
    proof (rule fl_rounds_to)
      show "y \<noteq> 0" using x y by simp
      show "x = of_int m * 2 powi ulp_exp y" using m u by simp
      show "\<bar>y - x\<bar> < 2 powi ulp_exp y / 2" using y half u by simp
    qed
  next
    case False
    show ?thesis
    proof (cases "?u \<le> ?e + 1")
      case True
      then have "2 powi (?e + 1) = of_int (2 ^ nat (?e + 1 - ?u)) * (2::rat) powi ?u" by (rule powi_ratio)
      moreover have "2 powi (?e + 1) < x + 2 powi ?u" using False y half powi_pos [of ?u] by linarith
      ultimately have "2 powi (?e + 1) \<le> x" using multiple_le [OF _ m] by blast
      with b(2) show ?thesis by simp
    next
      case False
      then have "x < 2 powi ?u" using b(2) powi_mono [of "?e + 1" ?u] by simp
      then have "x \<le> 0" using multiple_le [OF m, of 0 0] by simp
      with x show ?thesis by simp
    qed
  qed
qed

lemma fl_near_below:
  assumes x: "fl x = x" "0 < x" and y: "y \<le> x" "x - x / 2 ^ 54 < y"
  shows "fl y = x"
proof -
  have y0: "0 < y" using x y by (simp add: field_simps)
  let ?e = "ilog2 y" and ?v = "ulp_exp y"
  note b = ilog2_bounds [OF y0]
  obtain m where m: "x = of_int m * 2 powi ulp_exp x" using fl_multiple [OF x(1)] .
  have uv: "?v \<le> ulp_exp x" using ilog2_mono [OF y0 y(1)] x(2) y0 by (simp add: ulp_exp_def)
  obtain k where k: "x = of_int k * 2 powi ?v" using multiple_of_smaller [OF m uv] .
  have le: "x \<le> 2 powi (?e + 1)"
  proof (rule ccontr)
    assume "\<not> ?thesis"
    then have gt: "2 powi (?e + 1) < x" by simp
    show False
    proof (cases "ulp_exp x \<le> ?e + 1")
      case True
      have p: "2 powi (?e + 1) = of_int (2 ^ nat (?e + 1 - ulp_exp x)) * (2::rat) powi ulp_exp x"
        using True by (rule powi_ratio)
      have "x < 2 powi (?e + 1) + 2 powi ulp_exp x" using eps_half [OF x(2)] b(2) y powi_pos [of "ulp_exp x"] by linarith
      then have "x \<le> 2 powi (?e + 1)" using multiple_le [OF m p] by simp
      with gt show False by simp
    next
      case False
      then have "2 powi (?e + 1) \<le> (2::rat) powi (ulp_exp x - 1)" by (intro powi_mono) simp
      also have "\<dots> = 2 powi ulp_exp x / 2" by (simp add: power_int_diff)
      also have "\<dots> \<le> x / 2" using multiple_ge [OF m x(2)] by simp
      also have "\<dots> \<le> x - x / 2 ^ 54" using x(2) by simp
      finally show False using b(2) y by linarith
    qed
  qed
  show ?thesis
  proof (rule fl_rounds_to)
    show "y \<noteq> 0" using y0 by simp
    show "x = of_int k * 2 powi ?v" by (rule k)
    have "x - y < x / 2 ^ 54" using y by linarith
    also have "\<dots> \<le> 2 powi (?e + 1) / 2 ^ 54" using le by (simp add: divide_right_mono)
    also have "\<dots> = 2 powi (?e - 52) / 2"
    proof -
      have "(2::rat) powi (?e + 1) = 2 powi ((?e - 52) + 53)" by (simp add: add.commute)
      also have "\<dots> = 2 powi (?e - 52) * 2 ^ 53" by (subst power_int_add) simp_all
      finally show ?thesis by simp
    qed
    also have "\<dots> \<le> 2 powi ?v / 2" using y0 by (simp add: ulp_exp_def powi_mono)
    finally show "\<bar>y - x\<bar> < 2 powi ?v / 2" using y by simp
  qed
qed

text \<open>A float is the rounding of everything closer to it than a part in \<open>2 ^ 54\<close>.\<close>

lemma fl_absorbs:
  assumes "fl x = x" and "0 < x" and "\<bar>y - x\<bar> < x / 2 ^ 54"
  shows "fl y = x"
proof (cases "x \<le> y")
  case True
  with assms(3) have "y < x + x / 2 ^ 54" by linarith
  with assms(1,2) True show ?thesis by (rule fl_near_above)
next
  case False
  with assms(3) have "y \<le> x" "x - x / 2 ^ 54 < y" by linarith+
  with assms(1,2) show ?thesis by (rule fl_near_below)
qed

section \<open>The decimal point\<close>

lemma ten_pow_powi: "ten_pow k = 10 powi k"
  by (simp add: ten_pow_def power_int_def inverse_eq_divide power_divide)

lemma ten_pow_pos [simp]: "0 < ten_pow k"
  by (simp add: ten_pow_def)

lemma ten_pow_neq_0 [simp]: "ten_pow k \<noteq> 0"
  using ten_pow_pos [of k] by linarith

lemma ten_pow_add: "ten_pow (a + b) = ten_pow a * ten_pow b"
  unfolding ten_pow_powi by (rule power_int_add) simp

lemma ten_pow_minus: "ten_pow (- a) = 1 / ten_pow a"
  unfolding ten_pow_powi by (rule power_int_minus_divide)

lemma ten_pow_diff: "ten_pow (a - b) = ten_pow a / ten_pow b"
  using ten_pow_add [of a "- b"] by (simp add: ten_pow_minus)

lemma ten_pow_int [simp]: "ten_pow (int n) = 10 ^ n"
  by (simp add: ten_pow_def)

lemma dec_digits_bounds:
  "0 < n \<Longrightarrow> 10 ^ (length (dec_digits n) - 1) \<le> n \<and> n < 10 ^ length (dec_digits n)"
proof (induction n rule: dec_digits.induct)
  case (1 n)
  show ?case
  proof (cases "n < 10")
    case True
    with 1 show ?thesis by (simp add: dec_digits.simps [of n])
  next
    case False
    let ?k = "length (dec_digits (n div 10))"
    have IH: "10 ^ (?k - 1) \<le> n div 10" "n div 10 < 10 ^ ?k" using 1 False by auto
    obtain k where k: "?k = Suc k" by (cases ?k) auto
    have "length (dec_digits n) = Suc ?k" using False by (simp add: dec_digits.simps [of n])
    moreover have "10 * 10 ^ k \<le> n" "n < 10 * (10 * 10 ^ k)" using IH k by auto
    ultimately show ?thesis using k by simp
  qed
qed

lemma dec_shift_bounds:
  "0 < x \<Longrightarrow> x < 10 \<Longrightarrow> 1 \<le> x * 10 ^ fuel \<Longrightarrow>
   0 \<le> dec_shift fuel x \<and> 1 \<le> x * ten_pow (dec_shift fuel x) \<and> x * ten_pow (dec_shift fuel x) < 10"
proof (induction fuel x rule: dec_shift.induct)
  case (1 x)
  then show ?case by (simp add: ten_pow_def)
next
  case (2 fuel x)
  show ?case
  proof (cases "1 \<le> x")
    case True
    with 2 show ?thesis by (simp add: ten_pow_def)
  next
    case False
    with 2 have "0 \<le> dec_shift fuel (10 * x)" "1 \<le> 10 * x * ten_pow (dec_shift fuel (10 * x))"
      "10 * x * ten_pow (dec_shift fuel (10 * x)) < 10" by (auto simp: ac_simps)
    moreover have "ten_pow (1 + k) = 10 * ten_pow k" for k
      using ten_pow_add [of 1 k] by (simp add: ten_pow_def)
    ultimately show ?thesis using False by (simp add: mult.assoc mult.left_commute [of x])
  qed
qed

lemma float_ge_min:
  assumes "fl x = x" and "0 < x"
  shows "1 \<le> x * 10 ^ 400"
proof -
  obtain m where m: "x = of_int m * 2 powi ulp_exp x" using fl_multiple [OF assms(1)] .
  have "(2::rat) powi (- 1074) \<le> 2 powi ulp_exp x" by (rule powi_mono) (simp add: ulp_exp_def)
  also have "\<dots> \<le> x" using multiple_ge [OF m assms(2)] .
  finally have "1 / 2 ^ 1074 \<le> x" by (simp only: power_int_minus_divide power_int_numeral)
  then have "1 / 2 ^ 1074 * 10 ^ 400 \<le> x * 10 ^ 400" by (rule mult_right_mono) simp
  moreover have "(1::rat) \<le> 1 / 2 ^ 1074 * 10 ^ 400" by simp
  ultimately show ?thesis by (rule order_trans [rotated])
qed

lemma dec_point_bounds:
  assumes "fl x = x" and "0 < x"
  shows "ten_pow (dec_point x - 1) \<le> x" and "x < ten_pow (dec_point x)"
proof -
  have "ten_pow (dec_point x - 1) \<le> x \<and> x < ten_pow (dec_point x)"
  proof (cases "1 \<le> x")
    case True
    let ?n = "\<lfloor>x\<rfloor>"
    have "0 < ?n" using True by simp
    note b = dec_digits_bounds [OF this]
    obtain k where k: "length (dec_digits ?n) = Suc k" by (cases "length (dec_digits ?n)") auto
    have d: "dec_point x = int (Suc k)" "dec_point x - 1 = int k" using True k by (simp_all add: dec_point_def)
    have "of_int (10 ^ k) \<le> (of_int ?n :: rat)" using b k by (simp only: of_int_le_iff) simp
    moreover have "of_int (?n + 1) \<le> (of_int (10 ^ Suc k) :: rat)" using b k by (simp only: of_int_le_iff) simp
    moreover have "of_int ?n \<le> x" "x < of_int (?n + 1)" by linarith+
    ultimately have "of_int (10 ^ k) \<le> x" "x < of_int (10 ^ Suc k)" by linarith+
    then show ?thesis unfolding d ten_pow_int by simp
  next
    case False
    let ?j = "dec_shift 400 x"
    have b: "1 \<le> x * ten_pow ?j" "x * ten_pow ?j < 10"
      using dec_shift_bounds [of x 400] False assms float_ge_min by auto
    have d: "dec_point x = 1 - ?j" "dec_point x - 1 = - ?j" using False by (simp_all add: dec_point_def)
    have "ten_pow (1 - ?j) = 10 / ten_pow ?j" using ten_pow_diff [of 1 ?j] by (simp add: ten_pow_def)
    moreover have "1 / ten_pow ?j \<le> x" "x < 10 / ten_pow ?j" using b by (simp_all add: divide_le_eq less_divide_eq)
    ultimately show ?thesis unfolding d by (simp add: ten_pow_minus)
  qed
  then show "ten_pow (dec_point x - 1) \<le> x" and "x < ten_pow (dec_point x)" by auto
qed

section \<open>Seventeen digits\<close>

lemma scaled_bounds:
  assumes "fl x = x" and "0 < x" and "1 \<le> n"
  shows "10 ^ (n - 1) \<le> x * ten_pow (int n - dec_point x)" and "x * ten_pow (int n - dec_point x) < 10 ^ n"
proof -
  let ?P = "dec_point x" and ?s = "ten_pow (int n - dec_point x)"
  have "ten_pow (?P - 1) * ?s \<le> x * ?s" "x * ?s < ten_pow ?P * ?s"
    using dec_point_bounds [OF assms(1,2)] by (simp_all add: mult_right_mono mult_strict_right_mono)
  moreover have "ten_pow (?P - 1) * ?s = ten_pow (int (n - 1))" "ten_pow ?P * ?s = ten_pow (int n)"
    using assms(3) by (simp_all only: ten_pow_add [symmetric]) (simp_all add: of_nat_diff)
  ultimately show "10 ^ (n - 1) \<le> x * ?s" and "x * ?s < 10 ^ n" by simp_all
qed

lemma digits17_suffice:
  assumes "fl x = x" and "0 < x"
  shows "fl (of_int (round_half_even (x * ten_pow (17 - dec_point x))) / ten_pow (17 - dec_point x)) = x"
proof (rule fl_absorbs [OF assms])
  let ?s = "ten_pow (17 - dec_point x)"
  let ?c = "round_half_even (x * ?s)"
  have big: "10 ^ 16 \<le> x * ?s" using scaled_bounds(1) [OF assms, of 17] by simp
  have "\<bar>of_int ?c - x * ?s\<bar> \<le> 1 / 2" using round_half_even_bounds [of "x * ?s"] by linarith
  also have "\<dots> < x * ?s / 2 ^ 54" using big by simp
  finally have "\<bar>of_int ?c - x * ?s\<bar> / ?s < x * ?s / 2 ^ 54 / ?s" by (rule divide_strict_right_mono) simp
  moreover have "\<bar>of_int ?c - x * ?s\<bar> / ?s = \<bar>of_int ?c / ?s - x\<bar>"
  proof -
    have "\<bar>of_int ?c - x * ?s\<bar> / ?s = \<bar>(of_int ?c - x * ?s) / ?s\<bar>" by (simp add: abs_of_pos)
    also have "(of_int ?c - x * ?s) / ?s = of_int ?c / ?s - x" by (simp add: diff_divide_distrib)
    finally show ?thesis .
  qed
  ultimately show "\<bar>of_int ?c / ?s - x\<bar> < x / 2 ^ 54" by simp
qed


definition reads_back :: "rat \<Rightarrow> int \<Rightarrow> nat \<Rightarrow> bool" where
  "reads_back x c m \<longleftrightarrow> 1 \<le> m \<and> 10 ^ (m - 1) \<le> c \<and> c \<le> 10 ^ m
     \<and> fl (of_int c * ten_pow (dec_point x - int m)) = x"

lemma over_scale: "c / ten_pow (int n - p) = c * ten_pow (p - int n)"
  using ten_pow_minus [of "int n - p"] by simp

lemma reads_back_between:
  assumes "fl x = x" and "0 < x" and "1 \<le> n" and "\<lfloor>x * ten_pow (int n - dec_point x)\<rfloor> \<le> c"
    and "c \<le> \<lfloor>x * ten_pow (int n - dec_point x)\<rfloor> + 1" and "fl (of_int c / ten_pow (int n - dec_point x)) = x"
  shows "reads_back x c n"
proof -
  let ?r = "x * ten_pow (int n - dec_point x)"
  have "of_int (10 ^ (n - 1)) \<le> ?r" "?r < of_int (10 ^ n)" using scaled_bounds [OF assms(1-3)] by simp_all
  then have "10 ^ (n - 1) \<le> \<lfloor>?r\<rfloor>" "\<lfloor>?r\<rfloor> < 10 ^ n" by (simp_all only: le_floor_iff floor_less_iff)
  then show ?thesis using assms by (simp add: reads_back_def over_scale)
qed

lemma rhe_floor: "\<lfloor>r\<rfloor> \<le> round_half_even r" "round_half_even r \<le> \<lfloor>r\<rfloor> + 1"
  by (simp_all add: round_half_even_def Let_def)

lemma shortest_digits_read_back:
  assumes "fl x = x" and "0 < x"
  shows "1 \<le> n \<Longrightarrow> shortest_digits fuel n x = (c, m) \<Longrightarrow> reads_back x c m"
proof (induction fuel arbitrary: n)
  case 0
  have "reads_back x (round_half_even (x * ten_pow (17 - dec_point x))) 17"
    using reads_back_between [OF assms, of 17] digits17_suffice [OF assms] rhe_floor by simp
  then show ?case using 0 by auto
next
  case (Suc fuel)
  let ?s = "ten_pow (int n - dec_point x)"
  let ?c = "round_half_even (x * ?s)" and ?f = "\<lfloor>x * ?s\<rfloor>"
  let ?d = "if ?c = ?f then ?f + 1 else ?f"
  note between = reads_back_between [OF assms Suc.prems(1)]
  have step: "shortest_digits (Suc fuel) n x =
      (if fl (of_int ?c / ?s) = x then (?c, n) else if fl (of_int ?d / ?s) = x then (?d, n)
       else shortest_digits fuel (Suc n) x)"
    by (simp add: Let_def)
  consider "fl (of_int ?c / ?s) = x" | "fl (of_int ?c / ?s) \<noteq> x" "fl (of_int ?d / ?s) = x"
    | "fl (of_int ?c / ?s) \<noteq> x" "fl (of_int ?d / ?s) \<noteq> x" by blast
  then show ?case
  proof cases
    case 1
    then have "reads_back x ?c n" by (intro between rhe_floor)
    then show ?thesis using Suc.prems(2) 1 unfolding step by auto
  next
    case 2
    then have "reads_back x ?d n" by (intro between) auto
    then show ?thesis using Suc.prems(2) 2 unfolding step by (auto split del: if_split)
  next
    case 3
    then show ?thesis using Suc.IH [of "Suc n"] Suc.prems(2) unfolding step by (auto split del: if_split)
  qed
qed

end
