(* ===== verification/JsonNumber.thy ===== *)
theory JsonNumber
  imports FloatText
begin

text \<open>
  The numbers of \<open>json.loads\<close>, as the scanner of CPython reads them, and that every printed
  integer and float reads back. A scan ends with a value and the text left, with an exception,
  or \<open>Outside\<close> the modelled values (a character beyond the alphabet, NaN, an infinity, the
  negative zero), where nothing is said about the result.
\<close>

section \<open>Scanning\<close>

datatype 'a scanned = Scanned 'a pystr | Failed exn | Outside

definition bindS :: "'a scanned \<Rightarrow> ('a \<Rightarrow> pystr \<Rightarrow> 'b scanned) \<Rightarrow> 'b scanned" where
  "bindS m k = (case m of Scanned v r \<Rightarrow> k v r | Failed e \<Rightarrow> Failed e | Outside \<Rightarrow> Outside)"

lemma bindS_simps [simp]:
  "bindS (Scanned v r) k = k v r" "bindS (Failed e) k = Failed e" "bindS Outside k = Outside"
  by (simp_all add: bindS_def)

lemma bindS_cong [fundef_cong]:
  "m = m' \<Longrightarrow> (\<And>v r. m' = Scanned v r \<Longrightarrow> k v r = k' v r) \<Longrightarrow> bindS m k = bindS m' k'"
  by (cases m') auto

lemma bindS_eq_Scanned:
  "bindS m k = Scanned v r \<longleftrightarrow> (\<exists>w t. m = Scanned w t \<and> k w t = Scanned v r)"
  by (cases m) auto

subsection \<open>Numbers\<close>

text \<open>One zero, or the digits from one that is not zero.\<close>

fun int_part :: "pystr \<Rightarrow> pystr" where
  "int_part [] = []"
| "int_part (c # s) = (if c = Lat (CHR ''0'') then [c] else takeWhile isdecimal_c (c # s))"

text \<open>The digits after a point, if any.\<close>

fun frac_part :: "pystr \<Rightarrow> pystr" where
  "frac_part [] = []"
| "frac_part (c # s) = (if c = Lat (CHR ''.'') then takeWhile isdecimal_c s else [])"

text \<open>The exponent and the length of its text, if there is one.\<close>

fun exp_part :: "pystr \<Rightarrow> (int \<times> nat) option" where
  "exp_part [] = None"
| "exp_part (c # s) =
     (if c = Lat (CHR ''e'') \<or> c = Lat (CHR ''E'') then
        (let neg = startswith s (lit ''-''); sgn = neg \<or> startswith s (lit ''+'');
             ds = takeWhile isdecimal_c (if sgn then tl s else s);
             n = digits_val ds in
         if ds = [] then None
         else Some (if neg then - n else n, Suc (length ds) + (if sgn then 1 else 0)))
      else None)"

text \<open>\<open>float(text)\<close>: the decimal, correctly rounded.\<close>

definition scan_float :: "bool \<Rightarrow> pystr \<Rightarrow> int \<Rightarrow> pystr \<Rightarrow> json scanned" where
  "scan_float neg ds e rest =
     (let x = fl (of_int (digits_val ds) * ten_pow e) in
      if 2 ^ 1024 \<le> x \<or> neg \<and> x = 0 then Outside
      else Scanned (JFloat (if neg then - x else x)) rest)"

definition scan_unsigned :: "bool \<Rightarrow> pystr \<Rightarrow> json scanned" where
  "scan_unsigned neg t =
     (let ip = int_part t; r1 = drop (length ip) t; fp = frac_part r1;
          r2 = (if fp = [] then r1 else drop (Suc (length fp)) r1) in
      if ip = [] then Failed ValueError
      else case exp_part r2 of
        Some (e, k) \<Rightarrow> scan_float neg (ip @ fp) (e - int (length fp)) (drop k r2)
      | None \<Rightarrow>
          if fp = [] then
            (case py_int ip of Inl e \<Rightarrow> Failed e | Inr n \<Rightarrow> Scanned (JInt (if neg then - n else n)) r2)
          else scan_float neg (ip @ fp) (- int (length fp)) r2)"

definition scan_number :: "pystr \<Rightarrow> json scanned" where
  "scan_number s =
     (if startswith s (lit ''-'') then scan_unsigned True (tl s) else scan_unsigned False s)"

section \<open>Numbers read back\<close>

definition ends_digits :: "pystr \<Rightarrow> bool" where
  "ends_digits r \<longleftrightarrow> (case r of [] \<Rightarrow> True | c # _ \<Rightarrow> \<not> isdecimal_c c)"

text \<open>A text that does not continue a number.\<close>

definition ends_number :: "pystr \<Rightarrow> bool" where
  "ends_number r \<longleftrightarrow> (case r of [] \<Rightarrow> True
     | c # _ \<Rightarrow> \<not> isdecimal_c c \<and> c \<notin> {Lat (CHR ''.''), Lat (CHR ''e''), Lat (CHR ''E'')})"

lemma takeWhile_digits:
  "list_all isdecimal_c ds \<Longrightarrow> ends_digits r \<Longrightarrow> takeWhile isdecimal_c (ds @ r) = ds"
  by (cases r) (auto simp: list_all_iff ends_digits_def takeWhile_append)

lemma ends_number_digits [simp]: "ends_number r \<Longrightarrow> ends_digits r"
  by (auto simp: ends_number_def ends_digits_def split: list.splits)

lemma ends_digits_simps [simp]: "ends_digits []" "ends_digits (c # s) \<longleftrightarrow> \<not> isdecimal_c c"
  by (simp_all add: ends_digits_def)

lemma ends_number_parts [simp]: "ends_number r \<Longrightarrow> frac_part r = []" "ends_number r \<Longrightarrow> exp_part r = None"
  by (cases r; simp add: ends_number_def)+

definition whole :: "pystr \<Rightarrow> bool" where
  "whole ip \<longleftrightarrow> list_all isdecimal_c ip \<and> (ip = lit ''0'' \<or> ip \<noteq> [] \<and> hd ip \<noteq> Lat (CHR ''0''))"

lemma int_part_append:
  assumes "whole ip" and "ends_digits r \<or> ip = lit ''0''"
  shows "int_part (ip @ r) = ip"
proof (cases "ip = lit ''0''")
  case True
  then show ?thesis by (simp add: lit_def)
next
  case False
  with assms obtain c s where ip: "ip = c # s" "c \<noteq> Lat (CHR ''0'')" by (cases ip) (auto simp: whole_def)
  have "takeWhile isdecimal_c (ip @ r) = ip"
    using assms False by (intro takeWhile_digits) (auto simp: whole_def)
  with ip show ?thesis by simp
qed

lemma frac_part_append:
  "list_all isdecimal_c fp \<Longrightarrow> ends_digits r \<Longrightarrow> frac_part (Lat (CHR ''.'') # fp @ r) = fp"
  by (simp add: takeWhile_digits)

lemma not_decimal_marks [simp]:
  "\<not> isdecimal_c (Lat (CHR ''.''))" "\<not> isdecimal_c (Lat (CHR ''e''))" "\<not> isdecimal_c (Lat (CHR ''-''))"
  "\<not> isdecimal_c (Lat (CHR ''+''))"
  by (simp_all add: isdecimal_c_def)

lemma exp_part_repr:
  assumes "ends_digits r"
  shows "exp_part (exp_repr e @ r) = Some (e, length (exp_repr e))"
proof -
  define ds where "ds = (if \<bar>e\<bar> < 10 then lit ''0'' else []) @ dec_digits \<bar>e\<bar>"
  have d: "list_all isdecimal_c ds"
    using dec_digits_decimal [of "\<bar>e\<bar>"] by (simp add: ds_def lit_def isdecimal_c_def)
  have v: "digits_val ds = \<bar>e\<bar>"
    using digits_val_dec_digits [of "\<bar>e\<bar>"] by (simp add: ds_def lit_def digits_val_def digit_val_def)
  have t: "takeWhile isdecimal_c (ds @ r) = ds" using d assms by (rule takeWhile_digits)
  have "exp_repr e = Lat (CHR ''e'') # Lat (if e < 0 then CHR ''-'' else CHR ''+'') # ds"
    by (simp add: exp_repr_def lit_def ds_def)
  moreover have "ds \<noteq> []" by (simp add: ds_def)
  ultimately show ?thesis using t v by (simp add: startswith_def lit_def Let_def)
qed

text \<open>What a number of an integral part, a fraction and an exponent scans to.\<close>

lemma scan_fraction:
  assumes "whole ip" and "list_all isdecimal_c fp" and "fp \<noteq> []" and "ends_number r"
  shows "scan_unsigned neg (ip @ Lat (CHR ''.'') # fp @ r) = scan_float neg (ip @ fp) (- int (length fp)) r"
proof -
  have "int_part (ip @ Lat (CHR ''.'') # fp @ r) = ip" using assms by (intro int_part_append) auto
  moreover have "frac_part (Lat (CHR ''.'') # fp @ r) = fp" using assms by (intro frac_part_append) auto
  moreover have "ip \<noteq> []" using assms by (auto simp: whole_def)
  ultimately show ?thesis using assms by (simp add: scan_unsigned_def Let_def del: frac_part.simps)
qed

lemma scan_unsigned_exp:
  assumes "int_part (ip @ r1) = ip" and "ip \<noteq> []" and "frac_part r1 = fp"
    and "(if fp = [] then r1 else drop (Suc (length fp)) r1) = r2" and "exp_part r2 = Some (e, k)"
  shows "scan_unsigned neg (ip @ r1) = scan_float neg (ip @ fp) (e - int (length fp)) (drop k r2)"
proof -
  have "drop (length ip) (ip @ r1) = r1" by simp
  with assms show ?thesis by (simp only: scan_unsigned_def Let_def) simp
qed

lemma exp_repr_Cons: "\<exists>t. exp_repr e = Lat (CHR ''e'') # t"
  by (simp add: exp_repr_def lit_def)

lemma scan_exponent:
  assumes "whole ip" and "list_all isdecimal_c fp" and "ends_number r"
  shows "scan_unsigned neg (ip @ (if fp = [] then [] else Lat (CHR ''.'') # fp) @ exp_repr e @ r) =
    scan_float neg (ip @ fp) (e - int (length fp)) r"
proof -
  let ?r2 = "exp_repr e @ r" and ?fp = "if fp = [] then [] else Lat (CHR ''.'') # fp"
  obtain t where t: "exp_repr e = Lat (CHR ''e'') # t" using exp_repr_Cons by blast
  then have e2: "ends_digits ?r2" "frac_part ?r2 = []" by auto
  have i: "int_part (ip @ ?fp @ ?r2) = ip" using assms e2 by (intro int_part_append) auto
  have f: "frac_part (?fp @ ?r2) = fp" using assms e2 frac_part_append [of fp ?r2] by auto
  have x: "exp_part ?r2 = Some (e, length (exp_repr e))" using assms by (intro exp_part_repr) simp
  have d: "(if fp = [] then ?fp @ ?r2 else drop (Suc (length fp)) (?fp @ ?r2)) = ?r2" by simp
  have "ip \<noteq> []" using assms by (auto simp: whole_def)
  from scan_unsigned_exp [OF i this f d x] show ?thesis by simp
qed

lemma scan_int:
  assumes "whole ip" and "ends_number r" and "length ip \<le> 4300"
  shows "scan_unsigned neg (ip @ r) = Scanned (JInt (if neg then - digits_val ip else digits_val ip)) r"
proof -
  have "int_part (ip @ r) = ip" using assms by (intro int_part_append) auto
  moreover have "ip \<noteq> []" "list_all isdecimal_c ip" using assms by (auto simp: whole_def lit_def isdecimal_c_def)
  ultimately show ?thesis using assms by (simp add: scan_unsigned_def Let_def py_int_def)
qed

lemma hd_dec_digits: "0 < n \<Longrightarrow> hd (dec_digits n) \<noteq> Lat (CHR ''0'')"
proof (induction n rule: dec_digits.induct)
  case (1 n)
  have z: "cp (Lat (CHR ''0'')) = 48" by simp
  show ?case
  proof (cases "n < 10")
    case True
    with 1 have "cp (Lat (char_of (48 + n))) = 48 + n" by (intro cp_char_of) auto
    with 1 z have "Lat (char_of (48 + n)) \<noteq> Lat (CHR ''0'')" by force
    with True show ?thesis by (simp add: dec_digits.simps [of n])
  next
    case False
    with 1 show ?thesis by (simp add: dec_digits.simps [of n])
  qed
qed

lemma whole_dec_digits: "0 \<le> n \<Longrightarrow> whole (dec_digits n)"
  using hd_dec_digits [of n] dec_digits_decimal [of n]
  by (cases "n = 0") (auto simp: whole_def dec_digits.simps [of 0] lit_def)

lemma digits_val_Nil [simp]: "digits_val [] = 0"
  by (simp add: digits_val_def)

lemma digits_val_snoc: "digits_val (s @ [c]) = 10 * digits_val s + digit_val c"
  by (simp add: digits_val_def)

lemma digits_val_append: "digits_val (a @ b) = digits_val a * 10 ^ length b + digits_val b"
proof (induction b rule: rev_induct)
  case (snoc c b)
  then show ?case using digits_val_snoc [of "a @ b" c] by (simp add: digits_val_snoc algebra_simps)
qed simp

lemma digits_val_0: "digits_val (lit ''0'') = 0"
  by (simp add: lit_def digits_val_def digit_val_def)

lemma zeros_decimal: "list_all isdecimal_c (replicate n (Lat (CHR ''0'')))"
  by (simp add: list_all_iff isdecimal_c_def)

lemma digits_val_zeros: "digits_val (replicate n (Lat (CHR ''0''))) = 0"
  by (induction n) (simp_all add: digits_val_def digit_val_def)

text \<open>Significant digits: not empty and not starting with a zero.\<close>

definition significant :: "pystr \<Rightarrow> bool" where
  "significant ds \<longleftrightarrow> list_all isdecimal_c ds \<and> ds \<noteq> [] \<and> hd ds \<noteq> Lat (CHR ''0'')"

lemma whole_prefix: "significant ds \<Longrightarrow> 0 < n \<Longrightarrow> whole (take n ds @ replicate m (Lat (CHR ''0'')))"
  using zeros_decimal [of m]
  by (cases ds; cases n) (auto simp: whole_def significant_def list_all_iff dest: in_set_takeD)

definition scans_as :: "bool \<Rightarrow> pystr \<Rightarrow> pystr \<Rightarrow> int \<Rightarrow> bool" where
  "scans_as neg s ds k \<longleftrightarrow> (\<forall>r. ends_number r \<longrightarrow> (\<exists>ds' e. scan_unsigned neg (s @ r) = scan_float neg ds' e r
     \<and> of_int (digits_val ds') * ten_pow e = of_int (digits_val ds) * ten_pow (k - int (length ds))))"

lemma scans_asI:
  assumes "\<And>r. ends_number r \<Longrightarrow> scan_unsigned neg (s @ r) = scan_float neg ds' e r"
    and "of_int (digits_val ds') * ten_pow e = of_int (digits_val ds) * ten_pow (k - int (length ds))"
  shows "scans_as neg s ds k"
  using assms unfolding scans_as_def by blast

lemma scans_small:
  assumes "significant ds" and "k \<le> 0"
  shows "scans_as neg (lit ''0.'' @ replicate (nat (- k)) (Lat (CHR ''0'')) @ ds) ds k"
proof (rule scans_asI)
  let ?fp = "replicate (nat (- k)) (Lat (CHR ''0'')) @ ds"
  fix r assume "ends_number r"
  then show "scan_unsigned neg ((lit ''0.'' @ ?fp) @ r) = scan_float neg (lit ''0'' @ ?fp) (- int (length ?fp)) r"
    using scan_fraction [of "lit ''0''" ?fp r neg] assms zeros_decimal [of "nat (- k)"]
    by (simp add: lit_def whole_def isdecimal_c_def significant_def)
next
  let ?fp = "replicate (nat (- k)) (Lat (CHR ''0'')) @ ds"
  have "digits_val (lit ''0'' @ ?fp) = digits_val ds"
    by (simp add: digits_val_append digits_val_zeros digits_val_0)
  moreover have "- int (length ?fp) = k - int (length ds)" using assms by simp
  ultimately show "of_int (digits_val (lit ''0'' @ ?fp)) * ten_pow (- int (length ?fp)) =
      of_int (digits_val ds) * ten_pow (k - int (length ds))" by (simp only:)
qed

lemma scans_large:
  assumes "significant ds" and "int (length ds) \<le> k"
  shows "scans_as neg (ds @ replicate (nat (k - int (length ds))) (Lat (CHR ''0'')) @ lit ''.0'') ds k"
proof (rule scans_asI)
  let ?z = "nat (k - int (length ds))"
  let ?ip = "ds @ replicate ?z (Lat (CHR ''0''))"
  fix r assume "ends_number r"
  moreover have "whole ?ip" using whole_prefix [OF assms(1), of "length ds" ?z] assms(1) by (simp add: significant_def)
  ultimately show "scan_unsigned neg ((ds @ replicate ?z (Lat (CHR ''0'')) @ lit ''.0'') @ r) =
      scan_float neg (?ip @ lit ''0'') (- 1) r"
    using scan_fraction [of ?ip "lit ''0''" r neg] by (simp add: lit_def isdecimal_c_def)
next
  let ?z = "nat (k - int (length ds))"
  let ?ip = "ds @ replicate ?z (Lat (CHR ''0''))"
  have "digits_val (?ip @ lit ''0'') = digits_val ds * 10 ^ ?z * 10"
    by (simp add: digits_val_append digits_val_zeros digits_val_0)
  moreover have "ten_pow (k - int (length ds)) = 10 ^ ?z" "ten_pow (- 1) = 1 / 10"
    using assms(2) by (simp_all add: ten_pow_def)
  ultimately show "of_int (digits_val (?ip @ lit ''0'')) * ten_pow (- 1) =
      of_int (digits_val ds) * ten_pow (k - int (length ds))" by simp
qed

lemma scans_middle:
  assumes "significant ds" and "0 < k" and "k < int (length ds)"
  shows "scans_as neg (take (nat k) ds @ lit ''.'' @ drop (nat k) ds) ds k"
proof (rule scans_asI)
  fix r assume "ends_number r"
  moreover have "whole (take (nat k) ds)" using whole_prefix [OF assms(1), of "nat k" 0] assms by simp
  moreover have "list_all isdecimal_c (drop (nat k) ds)" "drop (nat k) ds \<noteq> []"
    using assms by (auto simp: significant_def list_all_iff dest: in_set_dropD)
  ultimately show "scan_unsigned neg ((take (nat k) ds @ lit ''.'' @ drop (nat k) ds) @ r) =
      scan_float neg ds (k - int (length ds)) r"
    using scan_fraction [of "take (nat k) ds" "drop (nat k) ds" r neg] assms by (simp add: lit_def)
qed simp

lemma scans_exponent:
  assumes "significant ds"
  shows "scans_as neg (take 1 ds @ (if 1 < int (length ds) then lit ''.'' @ drop 1 ds else []) @ exp_repr (k - 1)) ds k"
proof (rule scans_asI)
  fix r assume r: "ends_number r"
  obtain c fp where ds: "ds = c # fp" using assms by (cases ds) (auto simp: significant_def)
  have "whole [c]" using whole_prefix [OF assms, of 1 0] ds by simp
  moreover have "list_all isdecimal_c fp" using assms ds by (simp add: significant_def)
  ultimately show "scan_unsigned neg ((take 1 ds @ (if 1 < int (length ds) then lit ''.'' @ drop 1 ds else []) @ exp_repr (k - 1)) @ r) =
      scan_float neg ds (k - int (length ds)) r"
    using scan_exponent [OF _ _ r, of "[c]" fp neg "k - 1"] ds by (simp add: lit_def diff_diff_eq split: if_splits)
qed simp

lemma scans_place_point: "significant ds \<Longrightarrow> scans_as neg (place_point ds k) ds k"
  using scans_small [of ds k neg] scans_large [of ds k neg] scans_middle [of ds k neg] scans_exponent [of ds neg k]
  by (simp add: place_point_def Let_def)

text \<open>An unsigned number starts with a digit.\<close>

definition digit_first :: "pystr \<Rightarrow> bool" where
  "digit_first s \<longleftrightarrow> (\<exists>c t. s = c # t \<and> isdecimal_c c)"

lemma digit_first_append: "digit_first s \<Longrightarrow> digit_first (s @ r)"
  by (auto simp: digit_first_def)

lemma digit_first_decimal: "list_all isdecimal_c s \<Longrightarrow> s \<noteq> [] \<Longrightarrow> digit_first s"
  by (cases s) (auto simp: digit_first_def)

lemma digit_first_place_point: "significant ds \<Longrightarrow> digit_first (place_point ds k)"
  by (cases ds; cases "nat k") (auto simp: place_point_def digit_first_def significant_def lit_def isdecimal_c_def Let_def)

lemma digit_first_sign: "digit_first s \<Longrightarrow> \<not> startswith s (lit ''-'')"
  by (auto simp: digit_first_def startswith_def lit_def)

definition is_float64 :: "rat \<Rightarrow> bool" where
  "is_float64 x \<longleftrightarrow> fl x = x \<and> \<bar>x\<bar> < 2 ^ 1024"

lemma pos_repr_digits:
  assumes "fl x = x" and "0 < x"
  obtains ds k where "pos_repr x = place_point ds k" and "significant ds"
    and "fl (of_int (digits_val ds) * ten_pow (k - int (length ds))) = x"
proof -
  obtain c m where cm: "shortest_digits 17 1 x = (c, m)" by fastforce
  have rb: "1 \<le> m" "10 ^ (m - 1) \<le> c" "c \<le> 10 ^ m" "fl (of_int c * ten_pow (dec_point x - int m)) = x"
    using shortest_digits_read_back [OF assms, of 1 17 c m] cm by (simp_all add: reads_back_def)
  show ?thesis
  proof (cases "c = 10 ^ m")
    case True
    have "of_int c * ten_pow (dec_point x - int m) = ten_pow (int m) * ten_pow (dec_point x - int m)"
      using True by simp
    also have "\<dots> = ten_pow (dec_point x)" by (simp only: ten_pow_add [symmetric]) simp
    finally have "fl (ten_pow (dec_point x)) = x" using rb by simp
    then show ?thesis using cm True
      by (intro that [of "lit ''1''" "dec_point x + 1"])
        (simp_all add: pos_repr_def significant_def lit_def isdecimal_c_def digits_val_def digit_val_def)
  next
    case False
    have c: "0 < c" using rb(2) by (smt (verit) zero_less_power)
    have "length (dec_digits c) = m"
    proof -
      let ?n = "length (dec_digits c)"
      note b = dec_digits_bounds [OF c]
      have "(10::int) ^ (?n - 1) < 10 ^ m" "(10::int) ^ (m - 1) < 10 ^ ?n" using b rb False by linarith+
      then have "?n - 1 < m" "m - 1 < ?n" by simp_all
      then show ?thesis using rb(1) by (cases ?n) auto
    qed
    then show ?thesis using cm False c rb
      by (intro that [of "dec_digits c" "dec_point x"])
        (simp_all add: pos_repr_def significant_def hd_dec_digits dec_digits_decimal digits_val_dec_digits)
  qed
qed

lemma scan_pos_repr:
  assumes "fl x = x" and "0 < x" and "x < 2 ^ 1024" and "ends_number r"
  shows "scan_unsigned neg (pos_repr x @ r) = Scanned (JFloat (if neg then - x else x)) r"
    and "digit_first (pos_repr x)"
proof -
  obtain ds k where p: "pos_repr x = place_point ds k" and s: "significant ds"
    and v: "fl (of_int (digits_val ds) * ten_pow (k - int (length ds))) = x"
    using pos_repr_digits [OF assms(1,2)] .
  obtain ds' e where "scan_unsigned neg (place_point ds k @ r) = scan_float neg ds' e r"
    and "of_int (digits_val ds') * ten_pow e = of_int (digits_val ds) * ten_pow (k - int (length ds))"
    using scans_place_point [OF s, of neg k] assms(4) unfolding scans_as_def by blast
  then show "scan_unsigned neg (pos_repr x @ r) = Scanned (JFloat (if neg then - x else x)) r"
    using p v assms by (simp add: scan_float_def)
  show "digit_first (pos_repr x)" unfolding p by (rule digit_first_place_point [OF s])
qed

lemma scan_float_repr:
  assumes "is_float64 x" and "ends_number r"
  shows "scan_number (float_repr x @ r) = Scanned (JFloat x) r"
proof -
  have x: "fl x = x" "\<bar>x\<bar> < 2 ^ 1024" using assms by (simp_all add: is_float64_def)
  consider "x = 0" | "0 < x" | "x < 0" by linarith
  then show ?thesis
  proof cases
    case 1
    have "scan_unsigned False (lit ''0'' @ Lat (CHR ''.'') # lit ''0'' @ r) = scan_float False (lit ''0'' @ lit ''0'') (- 1) r"
      using scan_fraction [of "lit ''0''" "lit ''0''" r False] assms(2) by (simp add: whole_def lit_def isdecimal_c_def)
    also have "\<dots> = Scanned (JFloat 0) r" by (simp add: scan_float_def digits_val_append digits_val_0)
    finally show ?thesis using 1 by (simp add: float_repr_def scan_number_def startswith_def lit_def)
  next
    case 2
    then have "\<not> startswith (pos_repr x @ r) (lit ''-'')"
      using scan_pos_repr(2) [OF x(1) 2 _ assms(2)] x(2) by (intro digit_first_sign digit_first_append) simp
    with 2 show ?thesis using scan_pos_repr(1) [OF x(1) 2 _ assms(2)] x(2) by (simp add: float_repr_def scan_number_def)
  next
    case 3
    then have "scan_unsigned True (pos_repr (- x) @ r) = Scanned (JFloat x) r"
      using scan_pos_repr(1) [of "- x", OF _ _ _ assms(2)] x by (simp add: fl_minus)
    with 3 show ?thesis by (simp add: float_repr_def scan_number_def startswith_def lit_def)
  qed
qed

text \<open>Integers up to the conversion limit, in digits.\<close>

definition within_limit :: "int \<Rightarrow> bool" where
  "within_limit i \<longleftrightarrow> length (dec_digits \<bar>i\<bar>) \<le> 4300"

lemma scan_str_of_int:
  assumes "within_limit i" and "ends_number r"
  shows "scan_number (str_of_int i @ r) = Scanned (JInt i) r"
proof -
  have len: "length (dec_digits \<bar>i\<bar>) \<le> 4300" using assms(1) by (simp add: within_limit_def)
  have r: "scan_unsigned neg (dec_digits \<bar>i\<bar> @ r) = Scanned (JInt (if neg then - \<bar>i\<bar> else \<bar>i\<bar>)) r" for neg
    using scan_int [OF whole_dec_digits assms(2) len] by (simp add: digits_val_dec_digits)
  have "\<not> startswith (dec_digits \<bar>i\<bar> @ r) (lit ''-'')"
    by (intro digit_first_sign digit_first_append digit_first_decimal dec_digits_decimal) auto
  then show ?thesis using r [of True] r [of False]
    by (auto simp: str_of_int_def scan_number_def startswith_def lit_def)
qed

end
