(* ===== verification/JsonLoads.thy ===== *)
theory JsonLoads
  imports JsonNumber
begin

text \<open>
  \<open>json.loads\<close> of a string: strings with their escapes, arrays, objects and constants, in
  the order the C scanner of CPython tries them, with the recursion limit of the
  interpreter as the number of nested containers it can enter; and that it inverts
  \<open>json.dumps\<close>.
\<close>

section \<open>Strings\<close>

definition json_ws :: "uchar \<Rightarrow> bool" where
  "json_ws c \<longleftrightarrow> cp c \<in> {32, 9, 10, 13}"

definition skip_ws :: "pystr \<Rightarrow> pystr" where
  "skip_ws s = dropWhile json_ws s"

definition hex_val :: "uchar \<Rightarrow> int option" where
  "hex_val c =
     (let n = cp c in
      if 48 \<le> n \<and> n \<le> 57 then Some (n - 48)
      else if 97 \<le> n \<and> n \<le> 102 then Some (n - 87)
      else if 65 \<le> n \<and> n \<le> 70 then Some (n - 55) else None)"

fun hex_num :: "uchar list \<Rightarrow> int option" where
  "hex_num [] = Some 0"
| "hex_num (c # s) =
     (case (hex_val c, hex_num s) of
        (Some a, Some b) \<Rightarrow> Some (a * 16 ^ length s + b) | _ \<Rightarrow> None)"

text \<open>The character of a code point, if it is in the alphabet.\<close>

definition uchar_of :: "int \<Rightarrow> uchar option" where
  "uchar_of n =
     (if n < 256 then Some (Lat (char_of n)) else if n = 8212 then Some EmDash
      else if n = 8230 then Some Ellipsis else None)"

definition escapes :: "(uchar, uchar) dict" where
  "escapes =
     [(Lat (CHR 0x22), Lat (CHR 0x22)), (Lat (CHR 0x5C), Lat (CHR 0x5C)), (Lat (CHR ''/''), Lat (CHR ''/'')),
      (Lat (CHR ''b''), Lat (CHR 0x08)), (Lat (CHR ''f''), Lat (CHR 0x0C)), (Lat (CHR ''n''), Lat (CHR 0x0A)),
      (Lat (CHR ''r''), Lat (CHR 0x0D)), (Lat (CHR ''t''), Lat (CHR 0x09))]"

text \<open>The character an escape stands for, from the text after the backslash.\<close>

fun scan_escape :: "pystr \<Rightarrow> uchar scanned" where
  "scan_escape [] = Failed ValueError"
| "scan_escape (c # s) =
     (case dict_get escapes c of
        Some d \<Rightarrow> Scanned d s
      | None \<Rightarrow>
          if c = Lat (CHR ''u'') \<and> 4 \<le> length s then
            (case hex_num (take 4 s) of
               None \<Rightarrow> Failed ValueError
             | Some n \<Rightarrow> (case uchar_of n of None \<Rightarrow> Outside | Some d \<Rightarrow> Scanned d (drop 4 s)))
          else Failed ValueError)"

lemma scan_escape_shorter: "scan_escape s = Scanned c r \<Longrightarrow> length r < length s"
  by (cases s) (auto split: option.splits if_splits)

text \<open>The string up to its closing quote, from the text after the opening one.\<close>

function scanstring :: "pystr \<Rightarrow> pystr scanned" where
  "scanstring [] = Failed ValueError"
| "scanstring (c # s) =
     (if c = Lat (CHR 0x22) then Scanned [] s
      else if c = Lat (CHR 0x5C) then
        bindS (scan_escape s) (\<lambda>d t. bindS (scanstring t) (\<lambda>ds r. Scanned (d # ds) r))
      else if cp c \<le> 31 then Failed ValueError
      else bindS (scanstring s) (\<lambda>ds r. Scanned (c # ds) r))"
  by pat_completeness auto
termination
  by (relation "measure length") (auto dest: scan_escape_shorter)

lemma scanstring_shorter: "scanstring s = Scanned v r \<Longrightarrow> length r < length s"
proof (induction s arbitrary: v r rule: scanstring.induct)
  case (2 c s)
  then show ?case by (fastforce simp: bindS_eq_Scanned dest: scan_escape_shorter split: if_splits)
qed simp

section \<open>Values\<close>

lemma scan_unsigned_shorter: "scan_unsigned neg t = Scanned v r \<Longrightarrow> length r < length t"
proof -
  assume s: "scan_unsigned neg t = Scanned v r"
  then have "int_part t \<noteq> []" by (auto simp: scan_unsigned_def Let_def)
  then have "0 < length (int_part t)" "t \<noteq> []" by (cases t; simp)+
  then have "length (drop (length (int_part t)) t) < length t" by simp
  moreover have "length r \<le> length (drop (length (int_part t)) t)"
    using s by (auto simp: scan_unsigned_def scan_float_def Let_def split: option.splits prod.splits sum.splits if_splits)
  ultimately show ?thesis by simp
qed

lemma scan_number_shorter: "scan_number s = Scanned v r \<Longrightarrow> length r < length s"
  by (cases s) (auto simp: scan_number_def dest: scan_unsigned_shorter split: if_splits)

lemma skip_ws_le: "length (skip_ws s) \<le> length s"
  by (simp add: skip_ws_def length_dropWhile_le)

lemma tl_skip_ws_less: "startswith (skip_ws s) [c] \<Longrightarrow> length (tl (skip_ws s)) < length s"
  using skip_ws_le [of s] by (cases "skip_ws s") (auto simp: startswith_def)

lemma member_gap:
  "scanstring s = Scanned k r \<Longrightarrow> startswith (skip_ws r) [c] \<Longrightarrow> length (skip_ws (tl (skip_ws r))) < length s"
  using scanstring_shorter [of s k r] tl_skip_ws_less [of r c] skip_ws_le [of "tl (skip_ws r)"] by simp

text \<open>After an item: the closing character, or a comma and more items.\<close>

definition scan_rest :: "uchar \<Rightarrow> 'a \<Rightarrow> pystr \<Rightarrow> (pystr \<Rightarrow> 'a list scanned) \<Rightarrow> 'a list scanned" where
  "scan_rest close v r more =
     (case skip_ws r of
        [] \<Rightarrow> Failed ValueError
      | c # t \<Rightarrow>
          if c = close then Scanned [v] t
          else if c = Lat (CHR '','') then bindS (more (skip_ws t)) (\<lambda>vs u. Scanned (v # vs) u)
          else Failed ValueError)"

lemma skip_ws_Cons_less: "skip_ws s = c # t \<Longrightarrow> length (skip_ws t) < length s \<and> length t < length s"
  using skip_ws_le [of s] skip_ws_le [of t] by simp

lemma scan_rest_cong [fundef_cong]:
  assumes "close = close'" and "v = v'" and "r = r'" and "\<And>t. length t < length r' \<Longrightarrow> more t = more' t"
  shows "scan_rest close v r more = scan_rest close' v' r' more'"
  using assms skip_ws_Cons_less [of r] by (auto simp: scan_rest_def split: list.split)

lemma scan_rest_shorter:
  assumes "scan_rest close v r more = Scanned vs u"
    and "\<And>t. length t < length r \<Longrightarrow> \<forall>vs u. more t = Scanned vs u \<longrightarrow> length u < length t"
  shows "length u < length r"
proof (cases "skip_ws r")
  case Nil
  with assms(1) show ?thesis by (simp add: scan_rest_def)
next
  case (Cons c t)
  note l = skip_ws_Cons_less [OF Cons]
  from assms(1) Cons show ?thesis
    using l assms(2) [of "skip_ws t"] by (fastforce simp: scan_rest_def bindS_eq_Scanned split: if_splits)
qed

text \<open>
  \<open>d\<close> is the number of containers that can still be entered. An array or object that is not
  empty goes through \<open>scan_items\<close> or \<open>scan_members\<close>, from its first item on; a repeated key
  keeps its place and takes the later value.
\<close>

function (sequential) scan_once :: "nat \<Rightarrow> pystr \<Rightarrow> json scanned"
  and scan_items :: "nat \<Rightarrow> pystr \<Rightarrow> json list scanned"
  and scan_members :: "nat \<Rightarrow> pystr \<Rightarrow> (pystr \<times> json) list scanned"
where
  "scan_once d [] = Failed ValueError"
| "scan_once d (c # s) =
     (if c = Lat (CHR 0x22) then bindS (scanstring s) (\<lambda>t r. Scanned (JStr t) r)
      else if c = Lat (CHR 0x7B) then
        (case d of
           0 \<Rightarrow> Failed RecursionError
         | Suc n \<Rightarrow>
             if startswith (skip_ws s) [Lat (CHR 0x7D)] then Scanned (JObj []) (tl (skip_ws s))
             else bindS (scan_members n (skip_ws s)) (\<lambda>kvs r. Scanned (JObj (dict_of kvs)) r))
      else if c = Lat (CHR ''['') then
        (case d of
           0 \<Rightarrow> Failed RecursionError
         | Suc n \<Rightarrow>
             if startswith (skip_ws s) [Lat (CHR '']'')] then Scanned (JList []) (tl (skip_ws s))
             else bindS (scan_items n (skip_ws s)) (\<lambda>vs r. Scanned (JList vs) r))
      else if startswith (c # s) (lit ''null'') then Scanned JNull (drop 4 (c # s))
      else if startswith (c # s) (lit ''true'') then Scanned (JBool True) (drop 4 (c # s))
      else if startswith (c # s) (lit ''false'') then Scanned (JBool False) (drop 5 (c # s))
      else if startswith (c # s) (lit ''NaN'') \<or> startswith (c # s) (lit ''Infinity'')
        \<or> startswith (c # s) (lit ''-Infinity'') then Outside
      else scan_number (c # s))"
| "scan_items d s =
     bindS (scan_once d s) (\<lambda>v r. scan_rest (Lat (CHR '']'')) v r (scan_items d))"
| "scan_members d [] = Failed ValueError"
| "scan_members d (q # s) =
     (if q \<noteq> Lat (CHR 0x22) then Failed ValueError
      else bindS (scanstring s) (\<lambda>k r.
        if \<not> startswith (skip_ws r) [Lat (CHR '':'')] then Failed ValueError
        else bindS (scan_once d (skip_ws (tl (skip_ws r)))) (\<lambda>v t.
          scan_rest (Lat (CHR 0x7D)) (k, v) t (scan_members d))))"
  by pat_completeness auto

text \<open>Every scan consumes text, so the recursion ends.\<close>

lemma scan_shorter:
  "scan_once_scan_items_scan_members_dom (Inl (d, s)) \<Longrightarrow> (\<forall>v r. scan_once d s = Scanned v r \<longrightarrow> length r < length s)"
  "scan_once_scan_items_scan_members_dom (Inr (Inl (d, s))) \<Longrightarrow> (\<forall>vs r. scan_items d s = Scanned vs r \<longrightarrow> length r < length s)"
  "scan_once_scan_items_scan_members_dom (Inr (Inr (d, s))) \<Longrightarrow> (\<forall>kvs r. scan_members d s = Scanned kvs r \<longrightarrow> length r < length s)"
proof (induction rule: scan_once_scan_items_scan_members.pinduct)
  case (1 d)
  then show ?case by (simp add: scan_once.psimps)
next
  case (2 d c s)
  have items: "length r < Suc (length s)" if "scan_items n (skip_ws s) = Scanned vs r" "d = Suc n"
      "c = Lat (CHR ''['')" "\<not> startswith (skip_ws s) [Lat (CHR '']'')]" for n vs r
    using 2(3) that skip_ws_le [of s] by force
  have members: "length r < Suc (length s)" if "scan_members n (skip_ws s) = Scanned kvs r" "d = Suc n"
      "c = Lat (CHR 0x7B)" "\<not> startswith (skip_ws s) [Lat (CHR 0x7D)]" for n kvs r
    using 2(2) that skip_ws_le [of s] by force
  show ?case
  proof (intro allI impI)
    fix v r assume "scan_once d (c # s) = Scanned v r"
    note r = this [unfolded scan_once.psimps(2) [OF 2(1)]]
    consider "c = Lat (CHR 0x22)" | "c = Lat (CHR 0x7B)" | "c = Lat (CHR ''['')"
      | "c \<noteq> Lat (CHR 0x22)" "c \<noteq> Lat (CHR 0x7B)" "c \<noteq> Lat (CHR ''['')" by blast
    then show "length r < length (c # s)"
    proof cases
      case 1
      with r show ?thesis by (auto simp: bindS_eq_Scanned dest: scanstring_shorter)
    next
      case 2
      with r members show ?thesis by (auto simp: bindS_eq_Scanned dest: tl_skip_ws_less split: nat.splits if_splits)
    next
      case 3
      with r items show ?thesis by (auto simp: bindS_eq_Scanned dest: tl_skip_ws_less split: nat.splits if_splits)
    next
      case 4
      with r show ?thesis by (auto dest: scan_number_shorter split: if_splits)
    qed
  qed
next
  case (3 d s)
  show ?case
  proof (intro allI impI)
    fix vs r assume "scan_items d s = Scanned vs r"
    then obtain v t where t: "scan_once d s = Scanned v t" "scan_rest (Lat (CHR '']'')) v t (scan_items d) = Scanned vs r"
      by (auto simp: scan_items.psimps [OF 3(1)] bindS_eq_Scanned)
    from scan_rest_shorter [OF t(2)] 3(3) [OF t(1)] have "length r < length t" by blast
    with 3(2) t(1) show "length r < length s" by fastforce
  qed
next
  case (4 d)
  then show ?case by (simp add: scan_members.psimps)
next
  case (5 d q s)
  show ?case
  proof (intro allI impI)
    fix kvs r assume "scan_members d (q # s) = Scanned kvs r"
    note m = this [unfolded scan_members.psimps(2) [OF 5(1)]]
    then obtain k a v t where q: "\<not> q \<noteq> Lat (CHR 0x22)" and a: "scanstring s = Scanned k a" "\<not> \<not> startswith (skip_ws a) [Lat (CHR '':'')]"
      and t: "scan_once d (skip_ws (tl (skip_ws a))) = Scanned v t" "scan_rest (Lat (CHR 0x7D)) (k, v) t (scan_members d) = Scanned kvs r"
      by (auto simp: bindS_eq_Scanned split: if_splits)
    from scan_rest_shorter [OF t(2)] 5(3) [OF q a t(1)] have "length r < length t" by blast
    moreover have "length t < length (skip_ws (tl (skip_ws a)))" using 5(2) [OF q a] t(1) by simp
    moreover have "length (skip_ws (tl (skip_ws a))) < length s" using member_gap a by simp
    ultimately show "length r < length (q # s)" by simp
  qed
qed

termination scan_once
proof (relation "measure (case_sum (\<lambda>(d, s). 2 * length s) (case_sum (\<lambda>(d, s). 2 * length s + 1) (\<lambda>(d, s). 2 * length s)))", goal_cases)
  case (2 d c s n)
  then show ?case using skip_ws_le [of s] by simp
next
  case (3 d c s n)
  then show ?case using skip_ws_le [of s] by simp
next
  case (5 d s v r t)
  then show ?case using scan_shorter(1) by fastforce
next
  case (6 d q s k r)
  then show ?case using member_gap by fastforce
next
  case (7 d q s k r v t u)
  then have "length t < length (skip_ws (tl (skip_ws r)))" using scan_shorter(1) by blast
  then show ?case using 7 member_gap [of s k r "Lat (CHR '':'')"] by simp
qed simp_all

declare scan_items.simps [simp del]

text \<open>\<open>json.loads(s)\<close>: one value between white space.\<close>

definition json_loads :: "nat \<Rightarrow> pystr \<Rightarrow> json scanned" where
  "json_loads limit s =
     bindS (scan_once limit (skip_ws s)) (\<lambda>v r. if skip_ws r = [] then Scanned v [] else Failed ValueError)"

section \<open>Strings read back\<close>

lemma hex_val_digit: "0 \<le> n \<Longrightarrow> n < 16 \<Longrightarrow> hex_val (hex_digit n) = Some n"
  by (simp add: hex_val_def hex_digit_def Let_def)

lemma recompose:
  "n = a * 16 + r \<Longrightarrow> a = b * 16 + s \<Longrightarrow> b = c * 16 + t \<Longrightarrow> c * 4096 + (t * 256 + (s * 16 + r)) = (n::int)"
  by simp

lemma hex_num_digits:
  "{a, b, c, d} \<subseteq> {0..<16} \<Longrightarrow> hex_num (map hex_digit [a, b, c, d]) = Some (a * 4096 + (b * 256 + (c * 16 + d)))"
  by (simp add: hex_val_digit)

lemma hex_num_hex4:
  assumes "0 \<le> n" and "n < 65536"
  shows "hex_num (hex4 n) = Some n"
proof -
  let ?a = "n div 16" and ?b = "n div 256" and ?c = "n div 4096"
  have b: "?b = ?a div 16" and c: "?c = ?b div 16" by (simp_all add: zdiv_zmult2_eq [symmetric])
  have "?c * 4096 + (?b mod 16 * 256 + (?a mod 16 * 16 + n mod 16)) = n"
  proof (rule recompose)
    show "?a = ?b * 16 + ?a mod 16" unfolding b by (rule div_mult_mod_eq [symmetric])
    show "?b = ?c * 16 + ?b mod 16" unfolding c by (rule div_mult_mod_eq [symmetric])
  qed (rule div_mult_mod_eq [symmetric])
  moreover have "?c mod 16 = ?c" using assms by simp
  moreover have "m mod 16 \<in> {0..<16}" for m :: int by simp
  then have "hex_num (hex4 n) = Some (?c mod 16 * 4096 + (?b mod 16 * 256 + (?a mod 16 * 16 + n mod 16)))"
    unfolding hex4_def by (intro hex_num_digits) blast
  ultimately show ?thesis by (simp only:)
qed

lemma uchar_of_cp: "uchar_of (cp c) = Some c"
proof (cases c)
  case (Lat d)
  then show ?thesis using of_char_range [of d] by (simp add: uchar_of_def)
qed (simp_all add: uchar_of_def)

lemma cp_range: "0 \<le> cp c \<and> cp c < 65536"
proof (cases c)
  case (Lat d)
  then show ?thesis using of_char_range [of d] by simp
qed simp_all

text \<open>Reading one printed character.\<close>

lemma scanstring_esc:
  "scanstring (esc_char c @ t) = bindS (scanstring t) (\<lambda>ds r. Scanned (c # ds) r)"
proof -
  let ?n = "cp c"
  note named = cp_inject [of c "Lat (CHR 0x22)"] cp_inject [of c "Lat (CHR 0x5C)"] cp_inject [of c "Lat (CHR 0x0A)"]
    cp_inject [of c "Lat (CHR 0x0D)"] cp_inject [of c "Lat (CHR 0x09)"] cp_inject [of c "Lat (CHR 0x08)"] cp_inject [of c "Lat (CHR 0x0C)"]
  show ?thesis
  proof (cases "?n \<in> {34, 92, 10, 13, 9, 8, 12}")
    case True
    then have "c = Lat (CHR 0x22) \<or> c = Lat (CHR 0x5C) \<or> c = Lat (CHR 0x0A) \<or> c = Lat (CHR 0x0D)
        \<or> c = Lat (CHR 0x09) \<or> c = Lat (CHR 0x08) \<or> c = Lat (CHR 0x0C)"
      unfolding named [symmetric] by simp
    then show ?thesis by (elim disjE) (simp_all add: esc_char_def escapes_def dict_get_def lit_def Let_def)
  next
    case other: False
    show ?thesis
    proof (cases "32 \<le> ?n \<and> ?n \<le> 126")
      case True
      have "c \<noteq> Lat (CHR 0x22)" "c \<noteq> Lat (CHR 0x5C)" using other by auto
      moreover have "esc_char c = [c]" using other True by (simp add: esc_char_def Let_def)
      moreover have "\<not> cp c \<le> 31" using True by simp
      ultimately show ?thesis by simp
    next
      case False
      have "length (hex4 ?n) = 4" by (simp add: hex4_def)
      then have "take 4 (hex4 ?n @ t) = hex4 ?n" "drop 4 (hex4 ?n @ t) = t" "4 \<le> length (hex4 ?n @ t)" by simp_all
      moreover have "hex_num (hex4 ?n) = Some ?n" using cp_range by (intro hex_num_hex4) auto
      moreover have "esc_char c = Lat (CHR 0x5C) # Lat (CHR ''u'') # hex4 ?n"
        using other False by (auto simp: esc_char_def Let_def lit_def)
      moreover have "dict_get escapes (Lat (CHR ''u'')) = None" by (simp add: escapes_def dict_get_def)
      ultimately show ?thesis by (simp add: uchar_of_cp)
    qed
  qed
qed

lemma scanstring_dump: "scanstring (concat (map esc_char s) @ Lat (CHR 0x22) # r) = Scanned s r"
  by (induction s) (simp_all add: scanstring_esc)

section \<open>Values read back\<close>

text \<open>
  Values that \<open>json.loads\<close> can return within \<open>d\<close> nested containers: integers within the
  conversion limit, binary64 floats, distinct keys.
\<close>

fun readable :: "nat \<Rightarrow> json \<Rightarrow> bool" where
  "readable d (JInt i) \<longleftrightarrow> within_limit i"
| "readable d (JFloat x) \<longleftrightarrow> is_float64 x"
| "readable d (JList vs) \<longleftrightarrow> 0 < d \<and> list_all (readable (d - 1)) vs"
| "readable d (JObj kvs) \<longleftrightarrow> 0 < d \<and> dict_ok kvs \<and> list_all (\<lambda>(k, v). readable (d - 1) v) kvs"
| "readable d v \<longleftrightarrow> True"

definition value_first :: "pystr \<Rightarrow> bool" where
  "value_first s \<longleftrightarrow> (\<exists>c t. s = c # t \<and> \<not> json_ws c \<and> c \<noteq> Lat (CHR '']'') \<and> c \<noteq> Lat (CHR 0x7D))"

lemma skip_value_first: "value_first s \<Longrightarrow> skip_ws (s @ r) = s @ r"
  by (auto simp: value_first_def skip_ws_def)

lemma value_first_digit: "digit_first s \<Longrightarrow> value_first s"
  by (auto simp: digit_first_def value_first_def isdecimal_c_def json_ws_def)

lemma digit_is_no_mark: "isdecimal_c c \<Longrightarrow> cp m < 48 \<or> 57 < cp m \<Longrightarrow> c \<noteq> m"
  by (auto simp: isdecimal_c_def)

lemma startswith_Cons_simp: "startswith (c # s) (d # t) \<longleftrightarrow> c = d \<and> startswith s t"
  by (auto simp: startswith_def)

lemma number_head:
  assumes "digit_first s"
  shows "scan_once d (s @ r) = scan_number (s @ r)"
    and "scan_once d (Lat (CHR ''-'') # s @ r) = scan_number (Lat (CHR ''-'') # s @ r)"
proof -
  obtain c t where s: "s = c # t" "isdecimal_c c" using assms by (auto simp: digit_first_def)
  note no = digit_is_no_mark [OF s(2)]
  have ne: "c \<noteq> Lat (CHR 0x22)" "c \<noteq> Lat (CHR 0x7B)" "c \<noteq> Lat (CHR ''['')" "c \<noteq> Lat (CHR ''n'')"
    "c \<noteq> Lat (CHR ''t'')" "c \<noteq> Lat (CHR ''f'')" "c \<noteq> Lat (CHR ''N'')" "c \<noteq> Lat (CHR ''I'')" "c \<noteq> Lat (CHR ''-'')"
    by (rule no; simp)+
  show "scan_once d (s @ r) = scan_number (s @ r)" using ne by (simp add: s lit_Cons startswith_Cons_simp)
  show "scan_once d (Lat (CHR ''-'') # s @ r) = scan_number (Lat (CHR ''-'') # s @ r)"
    using ne by (simp add: s lit_Cons startswith_Cons_simp)
qed

text \<open>Separators as \<open>json.dumps\<close> is given them: the character, then white space.\<close>

definition separates :: "pystr \<Rightarrow> pystr \<Rightarrow> bool" where
  "separates isep ksep \<longleftrightarrow> (\<exists>a b. isep = Lat (CHR '','') # a \<and> ksep = Lat (CHR '':'') # b
     \<and> list_all json_ws a \<and> list_all json_ws b)"

lemma skip_ws_append: "list_all json_ws a \<Longrightarrow> skip_ws (a @ s) = skip_ws s"
  by (induction a) (simp_all add: skip_ws_def)

lemma digit_first_float:
  assumes "is_float64 x"
  shows "\<exists>s. digit_first s \<and> (float_repr x = s \<or> float_repr x = Lat (CHR ''-'') # s)"
proof -
  have p: "digit_first (pos_repr y)" if "fl y = y" "0 < y" "y < 2 ^ 1024" for y
    using scan_pos_repr(2) [OF that, of "[]"] by (simp add: ends_number_def)
  consider "x = 0" | "0 < x" | "x < 0" by linarith
  then show ?thesis
  proof cases
    case 1
    then show ?thesis by (auto simp: float_repr_def digit_first_def lit_def isdecimal_c_def)
  next
    case 2
    then show ?thesis using p [of x] assms by (auto simp: float_repr_def is_float64_def)
  next
    case 3
    then show ?thesis using p [of "- x"] assms by (auto simp: float_repr_def is_float64_def fl_minus lit_def)
  qed
qed

lemma digit_first_int: "\<exists>s. digit_first s \<and> (str_of_int i = s \<or> str_of_int i = Lat (CHR ''-'') # s)"
proof -
  have "digit_first (dec_digits \<bar>i\<bar>)" by (intro digit_first_decimal dec_digits_decimal) auto
  then show ?thesis by (cases "i < 0") (auto simp: str_of_int_def lit_def)
qed

lemma value_first_number: "digit_first s \<Longrightarrow> t = s \<or> t = Lat (CHR ''-'') # s \<Longrightarrow> value_first t"
  using value_first_digit [of s] by (auto simp: value_first_def json_ws_def)

lemma value_first_dumps: "readable d v \<Longrightarrow> value_first (dumps_with isep ksep False v)"
proof (cases v)
  case (JInt i)
  then show ?thesis using value_first_number digit_first_int [of i] by auto
next
  case (JFloat x)
  moreover assume "readable d v"
  ultimately show ?thesis using value_first_number digit_first_float [of x] by auto
qed (auto simp: value_first_def json_ws_def lit_def dump_str_def)

lemma scan_number_value:
  assumes "digit_first s" and "t = s \<or> t = Lat (CHR ''-'') # s" and "scan_number (t @ r) = y"
  shows "scan_once d (t @ r) = y"
  using assms number_head [OF assms(1), of d r] by auto

lemma ends_number_marks [simp]:
  "ends_number []" "ends_number (Lat (CHR '','') # s)" "ends_number (Lat (CHR '']'') # s)" "ends_number (Lat (CHR 0x7D) # s)"
  by (simp_all add: ends_number_def isdecimal_c_def)

lemma skip_ws_marks [simp]:
  "skip_ws (Lat (CHR '','') # s) = Lat (CHR '','') # s" "skip_ws (Lat (CHR '']'') # s) = Lat (CHR '']'') # s"
  "skip_ws (Lat (CHR 0x7D) # s) = Lat (CHR 0x7D) # s" "skip_ws (Lat (CHR '':'') # s) = Lat (CHR '':'') # s"
  "skip_ws (Lat (CHR 0x22) # s) = Lat (CHR 0x22) # s" "skip_ws [] = []"
  by (simp_all add: skip_ws_def json_ws_def)

lemma scan_items_join:
  assumes sep: "separates isep ksep" and "vs \<noteq> []"
    and "\<And>v r. v \<in> set vs \<Longrightarrow> ends_number r \<Longrightarrow> scan_once d (p v @ r) = Scanned v r"
    and "\<And>v. v \<in> set vs \<Longrightarrow> value_first (p v)"
  shows "scan_items d (join isep (map p vs) @ Lat (CHR '']'') # r) = Scanned vs r"
  using assms(2-)
proof (induction vs)
  case (Cons v vs)
  obtain a where isep: "isep = Lat (CHR '','') # a" "list_all json_ws a" using sep by (auto simp: separates_def)
  show ?case
  proof (cases vs)
    case Nil
    then show ?thesis using Cons.prems by (simp add: scan_items.simps scan_rest_def)
  next
    case (Cons w ws)
    let ?more = "join isep (map p vs) @ Lat (CHR '']'') # r"
    have "skip_ws (a @ ?more) = ?more"
    proof -
      obtain u where "join isep (map p vs) = p w @ u" using Cons by (cases ws) auto
      then show ?thesis using Cons.prems(3) [of w] Cons skip_value_first [of "p w" "u @ Lat (CHR '']'') # r"]
        by (simp add: skip_ws_append [OF isep(2)])
    qed
    moreover have "scan_items d ?more = Scanned vs r" using Cons.IH Cons.prems Cons by simp
    moreover have "scan_once d (p v @ isep @ ?more) = Scanned v (isep @ ?more)" using Cons.prems isep by simp
    moreover have "join isep (map p (v # vs)) @ Lat (CHR '']'') # r = p v @ isep @ ?more" using Cons by simp
    ultimately show ?thesis using isep by (simp add: scan_items.simps [of d "p v @ _"] scan_rest_def)
  qed
qed simp

lemma scan_member:
  assumes "separates isep ksep" and "value_first t" and "scan_once d (t @ r) = Scanned v r"
  shows "scan_members d ((dump_str k @ ksep @ t) @ r) = scan_rest (Lat (CHR 0x7D)) (k, v) r (scan_members d)"
proof -
  obtain b where k: "ksep = Lat (CHR '':'') # b" "list_all json_ws b" using assms(1) by (auto simp: separates_def)
  have "skip_ws (b @ t @ r) = t @ r" using skip_value_first [OF assms(2)] by (simp add: skip_ws_append [OF k(2)])
  moreover have "(dump_str k @ ksep @ t) @ r = Lat (CHR 0x22) # concat (map esc_char k) @ Lat (CHR 0x22) # ksep @ t @ r"
    by (simp add: dump_str_def)
  ultimately show ?thesis using assms(3) k by (simp add: scanstring_dump startswith_Cons_simp)
qed

lemma scan_members_join:
  assumes sep: "separates isep ksep" and "kvs \<noteq> []"
    and "\<And>k v r. (k, v) \<in> set kvs \<Longrightarrow> ends_number r \<Longrightarrow> scan_once d (p v @ r) = Scanned v r"
    and "\<And>k v. (k, v) \<in> set kvs \<Longrightarrow> value_first (p v)"
  shows "scan_members d (join isep (map (\<lambda>(k, v). dump_str k @ ksep @ p v) kvs) @ Lat (CHR 0x7D) # r) = Scanned kvs r"
  using assms(2-)
proof (induction kvs)
  case (Cons kv kvs)
  obtain k v where kv: "kv = (k, v)" by (cases kv)
  obtain a where isep: "isep = Lat (CHR '','') # a" "list_all json_ws a" using sep by (auto simp: separates_def)
  let ?q = "\<lambda>(k, v). dump_str k @ ksep @ p v"
  have one: "scan_members d ((dump_str k @ ksep @ p v) @ t) = scan_rest (Lat (CHR 0x7D)) (k, v) t (scan_members d)"
    if "ends_number t" for t
    using that Cons.prems(2,3) [of k v] kv by (intro scan_member [OF sep]) auto
  have IH: "kvs \<noteq> [] \<Longrightarrow> scan_members d (join isep (map ?q kvs) @ Lat (CHR 0x7D) # r) = Scanned kvs r"
  proof (erule Cons.IH)
    fix k v r assume "(k, v) \<in> set kvs" and "ends_number r"
    then show "scan_once d (p v @ r) = Scanned v r" by (intro Cons.prems(2) [of k]) simp_all
  next
    fix k v assume "(k, v) \<in> set kvs"
    then show "value_first (p v)" by (intro Cons.prems(3) [of k]) simp
  qed
  show ?case
  proof (cases kvs)
    case Nil
    then show ?thesis using one [of "Lat (CHR 0x7D) # r"] kv by (simp add: scan_rest_def)
  next
    case (Cons kw ws)
    let ?more = "join isep (map ?q kvs) @ Lat (CHR 0x7D) # r"
    have "\<exists>u. ?more = Lat (CHR 0x22) # u" using Cons by (cases kw; cases ws) (auto simp: dump_str_def)
    then have "skip_ws (a @ ?more) = ?more" by (auto simp: skip_ws_append [OF isep(2)])
    moreover have "scan_members d ?more = Scanned kvs r" using IH Cons by simp
    moreover have "join isep (map ?q (kv # kvs)) @ Lat (CHR 0x7D) # r = (dump_str k @ ksep @ p v) @ isep @ ?more"
      using Cons kv by simp
    ultimately show ?thesis using one [of "isep @ ?more"] isep kv by (simp add: scan_rest_def)
  qed
qed simp

lemma scan_constants:
  "scan_once d (lit ''null'' @ r) = Scanned JNull r"
  "scan_once d (lit ''true'' @ r) = Scanned (JBool True) r"
  "scan_once d (lit ''false'' @ r) = Scanned (JBool False) r"
  "scan_once d (dump_str s @ r) = Scanned (JStr s) r"
  by (simp_all add: lit_Cons startswith_Cons_simp dump_str_def scanstring_dump)

lemma not_closing: "value_first s \<Longrightarrow> \<not> startswith (s @ r) [Lat (CHR '']'')]"
  by (auto simp: value_first_def startswith_Cons_simp)

text \<open>Printing and scanning: whatever follows, the value comes back and the rest is left.\<close>

lemma scan_dumps:
  assumes "separates isep ksep"
  shows "readable d v \<Longrightarrow> ends_number r \<Longrightarrow> scan_once d (dumps_with isep ksep False v @ r) = Scanned v r"
proof (induction v arbitrary: d r)
  case (JInt i)
  obtain s where s: "digit_first s" "str_of_int i = s \<or> str_of_int i = Lat (CHR ''-'') # s"
    using digit_first_int [of i] by blast
  have "scan_number (str_of_int i @ r) = Scanned (JInt i) r" using JInt by (intro scan_str_of_int) auto
  then show ?case using scan_number_value [OF s] by simp
next
  case (JFloat x)
  then have f: "is_float64 x" by simp
  obtain s where s: "digit_first s" "float_repr x = s \<or> float_repr x = Lat (CHR ''-'') # s"
    using digit_first_float [OF f] by blast
  show ?case using scan_number_value [OF s scan_float_repr [OF f JFloat.prems(2)]] by simp
next
  case (JList vs)
  then obtain n where d: "d = Suc n" by (cases d) auto
  let ?p = "dumps_with isep ksep False"
  show ?case
  proof (cases "vs = []")
    case True
    then show ?thesis using d by (simp add: lit_Cons startswith_Cons_simp)
  next
    case False
    have ok: "readable n v" if "v \<in> set vs" for v using JList.prems(1) that d by (simp add: list_all_iff)
    then have f: "value_first (?p v)" if "v \<in> set vs" for v using that value_first_dumps by blast
    have items: "scan_items n (join isep (map ?p vs) @ Lat (CHR '']'') # r) = Scanned vs r"
      using JList.IH ok f by (intro scan_items_join [OF assms False]) auto
    obtain w ws u where w: "vs = w # ws" "join isep (map ?p vs) = ?p w @ u"
      using False by (cases vs; cases "tl vs") auto
    have "skip_ws (join isep (map ?p vs) @ Lat (CHR '']'') # r) = join isep (map ?p vs) @ Lat (CHR '']'') # r"
      "\<not> startswith (join isep (map ?p vs) @ Lat (CHR '']'') # r) [Lat (CHR '']'')]"
      using skip_value_first [OF f [of w]] not_closing [OF f [of w]] w by simp_all
    with items d show ?thesis by (simp add: lit_Cons)
  qed
next
  case (JObj kvs)
  then obtain n where d: "d = Suc n" by (cases d) auto
  let ?p = "dumps_with isep ksep False"
  let ?q = "\<lambda>(k, v). dump_str k @ ksep @ ?p v"
  have m: "map (\<lambda>(k, t). dump_str k @ ksep @ t) (map (\<lambda>(k, v). (k, ?p v)) kvs) = map ?q kvs" by auto
  have e: "?p (JObj kvs) @ r = Lat (CHR 0x7B) # join isep (map ?q kvs) @ Lat (CHR 0x7D) # r"
    by (simp only: dumps_with.simps Let_def if_False m) (simp add: lit_Cons)
  show ?case
  proof (cases "kvs = []")
    case True
    then show ?thesis using d by (simp add: lit_Cons startswith_Cons_simp)
  next
    case False
    have ok: "readable n v" if "(k, v) \<in> set kvs" for k v using JObj.prems(1) that d by (auto simp: list_all_iff)
    then have f: "value_first (?p v)" if "(k, v) \<in> set kvs" for k v using that value_first_dumps by blast
    have "scan_once n (?p v @ t) = Scanned v t" if "(k, v) \<in> set kvs" "ends_number t" for k v t
      using JObj.IH [of "(k, v)" v n t] ok that by (auto intro: snds.intros)
    then have members: "scan_members n (join isep (map ?q kvs) @ Lat (CHR 0x7D) # r) = Scanned kvs r"
      using f by (intro scan_members_join [OF assms False]) auto
    obtain u where u: "join isep (map ?q kvs) = Lat (CHR 0x22) # u"
      using False by (cases kvs; cases "tl kvs") (auto simp: dump_str_def)
    have "dict_of kvs = kvs" using JObj.prems(1) d by (intro dict_of_distinct) (simp add: dict_ok_def dict_keys_def)
    with members d u show ?thesis unfolding e by (simp add: startswith_Cons_simp)
  qed
qed (auto simp: scan_constants)

lemma loads_dumps_with:
  assumes "separates isep ksep" and "readable limit v"
  shows "json_loads limit (dumps_with isep ksep False v) = Scanned v []"
proof -
  have "skip_ws (dumps_with isep ksep False v) = dumps_with isep ksep False v"
    using skip_value_first [OF value_first_dumps [OF assms(2)], of isep ksep "[]"] by simp
  then show ?thesis using scan_dumps [OF assms, of "[]"] by (simp add: json_loads_def)
qed

end
