(* ===== verification/JsonContent.thy ===== *)
theory JsonContent
  imports JsonLoads
begin

text \<open>
  What canonical text determines: with sorted keys, two values print alike exactly when they
  are equal as Python values.
\<close>

section \<open>Sorted keys\<close>

fun sorted_keys :: "json \<Rightarrow> json" where
  "sorted_keys (JList vs) = JList (map sorted_keys vs)"
| "sorted_keys (JObj kvs) = JObj (sort_key fst (map (\<lambda>(k, v). (k, sorted_keys v)) kvs))"
| "sorted_keys v = v"

lemma insort_key_map_values:
  "insort_key fst (k, f v) (map (\<lambda>(k, v). (k, f v)) kvs) = map (\<lambda>(k, v). (k, f v)) (insort_key fst (k, v) kvs)"
  by (induction kvs) auto

lemma sort_key_map_values:
  "sort_key fst (map (\<lambda>(k, v). (k, f v)) kvs) = map (\<lambda>(k, v). (k, f v)) (sort_key fst kvs)"
  by (induction kvs) (auto simp: insort_key_map_values)

lemma dumps_sorted_keys:
  "dumps_with isep ksep True v = dumps_with isep ksep False (sorted_keys v)"
proof (induction v)
  case (JList vs)
  then have "map (dumps_with isep ksep True) vs = map (dumps_with isep ksep False) (map sorted_keys vs)" by simp
  then show ?case by (simp only: dumps_with.simps sorted_keys.simps)
next
  case (JObj kvs)
  let ?p = "dumps_with isep ksep"
  have "map (\<lambda>(k, v). (k, ?p True v)) kvs = map (\<lambda>(k, v). (k, ?p False v)) (map (\<lambda>(k, v). (k, sorted_keys v)) kvs)"
    using JObj by (auto simp: snds.simps)
  then have "sort_key fst (map (\<lambda>(k, v). (k, ?p True v)) kvs) =
      map (\<lambda>(k, v). (k, ?p False v)) (sort_key fst (map (\<lambda>(k, v). (k, sorted_keys v)) kvs))"
    by (simp only: sort_key_map_values)
  then show ?case by (simp only: dumps_with.simps sorted_keys.simps Let_def if_True if_False)
qed simp_all

lemma distinct_sort_key_fst: "distinct (map fst (sort_key fst kvs)) \<longleftrightarrow> distinct (map fst kvs)"
  by (rule mset_eq_imp_distinct_iff) simp

lemma readable_sorted_keys: "readable d v \<Longrightarrow> readable d (sorted_keys v)"
proof (induction v arbitrary: d)
  case (JList vs)
  then show ?case by (auto simp: list_all_iff)
next
  case (JObj kvs)
  have "dict_ok (sort_key fst (map (\<lambda>(k, v). (k, sorted_keys v)) kvs))"
    using JObj.prems by (simp add: dict_ok_def dict_keys_def distinct_sort_key_fst comp_def case_prod_beta)
  moreover have "readable (d - 1) (sorted_keys v)" if "(k, v) \<in> set kvs" for k v
    using JObj.IH [of "(k, v)" v "d - 1"] JObj.prems that by (auto simp: list_all_iff intro: snds.intros)
  ultimately show ?case using JObj.prems by (auto simp: list_all_iff)
qed simp_all

lemma sorted_keys_atom:
  "sorted_keys w = JNull \<Longrightarrow> w = JNull" "sorted_keys w = JBool b \<Longrightarrow> w = JBool b" "sorted_keys w = JInt i \<Longrightarrow> w = JInt i"
  "sorted_keys w = JFloat x \<Longrightarrow> w = JFloat x" "sorted_keys w = JStr s \<Longrightarrow> w = JStr s"
  by (cases w; simp)+

lemma reorder_map:
  assumes "mset (map f xs) = mset (map f ys)"
  obtains zs where "mset zs = mset ys" and "map f xs = map f zs"
proof -
  have "list_all2 (\<lambda>b y. b = f y) (map f ys) ys" by (simp add: list_all2_map1 list_all2_same)
  from list_all2_reorder_left_invariance [OF this assms] obtain zs
    where "list_all2 (\<lambda>b y. b = f y) (map f xs) zs" "mset zs = mset ys" by auto
  moreover from this(1) have "map f xs = map f zs" by (auto simp: list_all2_conv_all_nth intro: nth_equalityI)
  ultimately show thesis using that by blast
qed

lemma sorted_keys_same_content:
  "readable d v \<Longrightarrow> sorted_keys v = sorted_keys w \<Longrightarrow> same_content v w"
proof (induction v arbitrary: d w)
  case (JList vs)
  obtain ws where w: "w = JList ws" "map sorted_keys vs = map sorted_keys ws"
    using JList.prems(2) by (cases w) auto
  then have "list_all2 (\<lambda>a b. sorted_keys a = sorted_keys b) vs ws"
    by (simp add: list.rel_eq [symmetric] list_all2_map1 list_all2_map2)
  then have "list_all2 same_content vs ws"
    by (rule list.rel_mono_strong) (use JList in \<open>auto simp: list_all_iff\<close>)
  with w show ?case by (auto intro: same_content.intros)
next
  case (JObj kvs)
  let ?f = "\<lambda>(k, v). (k, sorted_keys v)"
  obtain kws where w: "w = JObj kws" "sort_key fst (map ?f kvs) = sort_key fst (map ?f kws)"
    using JObj.prems(2) by (cases w) auto
  then have "mset (map ?f kvs) = mset (map ?f kws)" by (metis mset_sort)
  then obtain mid where mid: "mset mid = mset kws" "map ?f kvs = map ?f mid" by (rule reorder_map)
  have "list_all2 (\<lambda>a b. ?f a = ?f b) kvs mid"
    using mid(2) by (simp add: list.rel_eq [symmetric] list_all2_map1 list_all2_map2)
  then have "list_all2 (\<lambda>p q. fst p = fst q \<and> same_content (snd p) (snd q)) kvs mid"
  proof (rule list.rel_mono_strong)
    fix p q assume "p \<in> set kvs" and "?f p = ?f q"
    then show "fst p = fst q \<and> same_content (snd p) (snd q)"
      using JObj.IH [of p "snd p" "d - 1" "snd q"] JObj.prems(1)
      by (auto simp: list_all_iff case_prod_beta snds.simps)
  qed
  with mid(1) w(1) JObj.prems(1) show ?case
    by (auto intro!: same_content.intros(3) [where mid = mid] simp: dict_ok_def dict_keys_def)
qed (metis sorted_keys.simps sorted_keys_atom same_content.intros(1))+

text \<open>The sorted text determines the content.\<close>

lemma sorted_text_content:
  assumes "separates isep ksep" and "readable d v" and "readable d w"
  shows "dumps_with isep ksep True v = dumps_with isep ksep True w \<longleftrightarrow> same_content v w"
proof
  assume "dumps_with isep ksep True v = dumps_with isep ksep True w"
  then have "json_loads d (dumps_with isep ksep False (sorted_keys v)) = json_loads d (dumps_with isep ksep False (sorted_keys w))"
    by (simp add: dumps_sorted_keys)
  then have "sorted_keys v = sorted_keys w"
    using loads_dumps_with [OF assms(1)] readable_sorted_keys assms(2,3) by simp
  then show "same_content v w" by (rule sorted_keys_same_content [OF assms(2)])
qed (rule dumps_sorted_same_content)

end
