(* ===== verification/Signing.thy ===== *)
theory Signing
  imports Effects Sha256 JsonContent
begin

text \<open>
  Provenance, \<open>gateway/signing.py\<close>: canonical bytes and digest of a manifest, the allowlist
  of signature bundles and the verification report. The environment variables, the file
  system (path to contents) and the program \<open>cosign\<close> are parameters and state.
\<close>

section \<open>Digest\<close>

definition canonical_bytes :: "json_obj \<Rightarrow> pystr" where
  "canonical_bytes m = dumps_with (lit '','') (lit '':'') True (JObj m)"

definition manifest_digest :: "json_obj \<Rightarrow> pystr" where
  "manifest_digest m = lit ''sha256:'' @ sha256_hex (canonical_bytes m)"

text \<open>\<open>model_dump(mode="json")\<close> of a manifest: its fields in declaration order.\<close>

definition manifest_json :: "manifest \<Rightarrow> json_obj" where
  "manifest_json m =
     [(lit ''name'', JStr (m_name m)), (lit ''version'', JStr (m_version m)),
      (lit ''description'', JStr (m_description m)), (lit ''tags'', JList (map JStr (m_tags m))),
      (lit ''input_schema'', JObj (m_input_schema m)), (lit ''output_schema'', JObj (m_output_schema m)),
      (lit ''visibility'', JStr (visibility_value (m_visibility m))),
      (lit ''protocol'', JStr (protocol_value (m_protocol m))), (lit ''vendor'', JStr (m_vendor m)),
      (lit ''capability'', JStr (m_capability m)), (lit ''trust'', JStr (trust_value (m_trust m)))]"

section \<open>Bundles\<close>

type_synonym files = "pystr \<rightharpoonup> pystr"

text \<open>
  \<open>SIGNATURES_DIR\<close>, \<open>SIGNING_IDENTITY\<close>, \<open>SIGNING_OIDC_ISSUER\<close>, whether \<open>cosign\<close> is on the
  path, and the calls to the system, each of which may raise: making an empty temporary file with
  a new name, writing and closing it, \<open>subprocess.run\<close> with its exit status, and \<open>os.unlink\<close>.
\<close>

record sign_env =
  se_dir :: pystr
  se_identity :: pystr
  se_issuer :: pystr
  se_cosign :: bool
  se_create :: "(files, pystr) io"
  se_write :: "pystr \<Rightarrow> pystr \<Rightarrow> (files, unit) io"
  se_run :: "pystr list \<Rightarrow> (files, int) io"
  se_unlink :: "pystr \<Rightarrow> (files, unit) io"

text \<open>\<open>os.path.join\<close> of two components.\<close>

definition path_join :: "pystr \<Rightarrow> pystr \<Rightarrow> pystr" where
  "path_join a b =
     (if startswith b (lit ''/'') then b
      else if a = [] \<or> last a = Lat (CHR ''/'') then a @ b
      else a @ lit ''/'' @ b)"

definition resolve_bundle :: "sign_env \<Rightarrow> pystr \<Rightarrow> pystr list \<Rightarrow> pystr option" where
  "resolve_bundle env name known_names =
     dict_get (dict_of (map (\<lambda>n. (n, path_join (se_dir env) (n @ lit ''.bundle''))) known_names)) name"

section \<open>Verification\<close>

definition verify_argv :: "sign_env \<Rightarrow> pystr \<Rightarrow> pystr \<Rightarrow> pystr list" where
  "verify_argv env bundle blob =
     [lit ''cosign'', lit ''verify-blob'', lit ''--bundle'', bundle, lit ''--certificate-oidc-issuer'', se_issuer env] @
     (if se_identity env \<noteq> [] then [lit ''--certificate-identity'', se_identity env] else []) @ [blob]"

definition verify_command :: "sign_env \<Rightarrow> pystr \<Rightarrow> pystr" where
  "verify_command env bundle =
     lit ''cosign verify-blob '' @ lit ''--bundle '' @ bundle @ lit '' '' @
     lit ''--certificate-identity '' @
       (if se_identity env \<noteq> [] then se_identity env else lit ''<expected-identity>'') @ lit '' '' @
     lit ''--certificate-oidc-issuer '' @ se_issuer env @ lit '' <manifest.json>''"

definition verify_base :: "sign_env \<Rightarrow> pystr \<Rightarrow> json_obj \<Rightarrow> json_obj" where
  "verify_base env feature m =
     [(lit ''feature'', JStr feature), (lit ''digest'', JStr (manifest_digest m)),
      (lit ''algorithm'', JStr (lit ''sha256'')), (lit ''issuer'', JStr (se_issuer env))]"

text \<open>The run of cosign on the temporary file, \<open>None\<close> when it could not run, and the removal of the file.\<close>

definition run_cosign :: "sign_env \<Rightarrow> pystr \<Rightarrow> pystr \<Rightarrow> (files, int option) io" where
  "run_cosign env bundle blob =
     finallyM
       (tryM (bindM (se_run env (verify_argv env bundle blob)) (\<lambda>code. returnM (Some code)))
          (\<lambda>e. if e = OSError \<or> e = SubprocessError then Some (returnM None) else None))
       (se_unlink env blob)"

definition exists_file :: "pystr \<Rightarrow> (files, bool) io" where
  "exists_file path fs = (Inr (fs path \<noteq> None), fs)"

definition verify :: "sign_env \<Rightarrow> pystr \<Rightarrow> json_obj \<Rightarrow> pystr option \<Rightarrow> (files, json_obj) io" where
  "verify env feature m bundle =
     (let base = verify_base env feature m;
          no_bundle = base @ [(lit ''command'', JStr []), (lit ''signed'', JBool False), (lit ''status'', JStr (lit ''unsigned''))] in
      case bundle of
        None \<Rightarrow> returnM no_bundle
      | Some b \<Rightarrow>
          if b = [] then returnM no_bundle
          else
            (let base2 = base @ [(lit ''command'', JStr (verify_command env b))] in
             bindM (exists_file b) (\<lambda>there.
             if \<not> there then
               returnM (base2 @ [(lit ''signed'', JBool False), (lit ''status'', JStr (lit ''unsigned''))])
             else if \<not> se_cosign env then
               returnM (base2 @ [(lit ''signed'', JBool True), (lit ''status'', JStr (lit ''unverified'')),
                  (lit ''reason'', JStr (lit ''cosign is not available in this environment''))])
             else
               bindM (se_create env) (\<lambda>blob.
               bindM (se_write env blob (canonical_bytes m)) (\<lambda>_.
               bindM (run_cosign env b blob) (\<lambda>outcome.
               case outcome of
                 None \<Rightarrow>
                   returnM (base2 @ [(lit ''signed'', JBool True), (lit ''status'', JStr (lit ''unverified'')),
                      (lit ''reason'', JStr (lit ''cosign verification could not run''))])
               | Some code \<Rightarrow>
                   returnM (base2 @ [(lit ''signed'', JBool True),
                      (lit ''status'', JStr (if code = 0 then lit ''verified'' else lit ''failed''))])))))))"

section \<open>Lemmas\<close>

lemma length_round_step: "length (round_step kw st) = length st"
  by (auto simp: round_step_def Let_def split: list.splits)

lemma length_rounds: "length (fold round_step kws st) = length st"
  by (induction kws arbitrary: st) (simp_all add: length_round_step)

lemma length_compress: "length (compress b st) = length st"
  by (simp add: compress_def Let_def length_rounds)

lemma length_sha256: "length (sha256 bs) = 8"
proof -
  have "length (fold compress blocks st) = length st" for blocks st
    by (induction blocks arbitrary: st) (simp_all add: length_compress)
  then show ?thesis by (simp add: sha256_def length_H256)
qed

lemma length_sha256_hex: "length (sha256_hex s) = 64"
proof -
  have "length (hex_of w) = 8" for w by (simp add: hex_of_def)
  then have "length (concat (map hex_of ws)) = 8 * length ws" for ws by (induction ws) simp_all
  then show ?thesis by (simp add: sha256_hex_def length_sha256)
qed

lemma resolve_bundle_iff:
  "resolve_bundle env name known = Some p \<longleftrightarrow> name \<in> set known \<and> p = path_join (se_dir env) (name @ lit ''.bundle'')"
proof -
  let ?kvs = "map (\<lambda>n. (n, path_join (se_dir env) (n @ lit ''.bundle''))) known"
  have "map_of (rev ?kvs) name = (if name \<in> set known then Some (path_join (se_dir env) (name @ lit ''.bundle'')) else None)"
    by (simp add: rev_map map_of_map_restrict restrict_map_def)
  then show ?thesis by (auto simp: resolve_bundle_def dict_of_get)
qed

definition status_of :: "json_obj \<Rightarrow> json option" where
  "status_of r = dict_get r (lit ''status'')"

lemma status_base:
  "status_of (verify_base env f m @ r) = status_of r"
  "status_of ((k, v) # r) = (if k = lit ''status'' then Some v else status_of r)"
  by (auto simp: status_of_def verify_base_def dict_get_def)

section \<open>Properties\<close>

text \<open>The canonical bytes determine the content, for manifests that a JSON text can hold.\<close>

lemma canonical_bytes_eq:
  "readable d (JObj m) \<Longrightarrow> readable d (JObj m') \<Longrightarrow> canonical_bytes m = canonical_bytes m' \<longleftrightarrow> same_content (JObj m) (JObj m')"
  unfolding canonical_bytes_def
  by (rule sorted_text_content) (auto simp: separates_def lit_def)

text \<open>
  C36. The canonical bytes stand for the content of a manifest: two manifests have the same
  bytes exactly when they differ in the order of keys only, at any depth; then they have the
  same digest, of 71 characters.
\<close>

theorem digest_of_content:
  assumes "readable d (JObj m)" and "readable d (JObj m')"
  shows "(canonical_bytes m = canonical_bytes m' \<longleftrightarrow> same_content (JObj m) (JObj m'))
    \<and> (same_content (JObj m) (JObj m') \<longrightarrow> manifest_digest m = manifest_digest m')
    \<and> length (manifest_digest m) = 71"
  using canonical_bytes_eq [OF assms] by (auto simp: manifest_digest_def length_sha256_hex)

theorem digest_of_content_witness:
  "manifest_digest [(lit ''a'', JInt 1), (lit ''b'', JNull)] = manifest_digest [(lit ''b'', JNull), (lit ''a'', JInt 1)]"
proof -
  let ?m = "[(lit ''a'', JInt 1), (lit ''b'', JNull)]" and ?n = "[(lit ''b'', JNull), (lit ''a'', JInt 1)]"
  have "same_content (JObj ?m) (JObj ?n)"
    by (rule same_content.same_obj [where mid = ?m]) (auto intro: same_content.same_refl)
  moreover have "readable 1 (JObj ?m)" "readable 1 (JObj ?n)" by code_simp+
  ultimately show ?thesis using digest_of_content [of 1 ?m ?n] by blast
qed

text \<open>
  From the files \<open>fs\<close> on temporary files work: making one and writing to it succeed, cosign leaves the
  files alone, and a file that is there can be removed.
\<close>

definition temp_works :: "sign_env \<Rightarrow> files \<Rightarrow> bool" where
  "temp_works env fs \<longleftrightarrow>
     (\<exists>blob. fs blob = None \<and> se_create env fs = (Inr blob, fs(blob \<mapsto> [])))
     \<and> (\<forall>blob bytes files. se_write env blob bytes files = (Inr (), files(blob \<mapsto> bytes)))
     \<and> (\<forall>argv files. snd (se_run env argv files) = files)
     \<and> (\<forall>blob files. files blob \<noteq> None \<longrightarrow> se_unlink env blob files = (Inr (), files(blob := None)))"

text \<open>The run of cosign and the removal of the file, by what the run answers.\<close>

lemma run_cosign_works:
  assumes "temp_works env fs" and "fs blob = None" and "fst (se_run env (verify_argv env b blob) (fs(blob \<mapsto> bytes))) = r"
  shows "run_cosign env b blob (fs(blob \<mapsto> bytes)) =
    (case r of Inr code \<Rightarrow> Inr (Some code) | Inl e \<Rightarrow> if e = OSError \<or> e = SubprocessError then Inr None else Inl e, fs)"
proof -
  have "fs(blob := None) = fs" using assms(2) by auto
  moreover have "se_run env (verify_argv env b blob) (fs(blob \<mapsto> bytes)) = (r, fs(blob \<mapsto> bytes))"
    using assms(1,3) unfolding temp_works_def by (metis prod.collapse)
  moreover have "se_unlink env blob (fs(blob \<mapsto> bytes)) = (Inr (), fs(blob := None))"
    using assms(1) by (simp add: temp_works_def)
  ultimately show ?thesis
    by (auto simp: run_cosign_def finallyM_def tryM_def bindM_def returnM_run split: sum.split)
qed

text \<open>
  C37. The verification report, on a file system on which temporary files work: nothing is left
  behind, and without a bundle the status is \<open>unsigned\<close>, without cosign \<open>unverified\<close>. With both,
  cosign runs once, on a file that holds the canonical bytes of the manifest: the status is
  \<open>verified\<close> exactly when that run exits with 0, \<open>failed\<close> on any other exit status, and
  \<open>unverified\<close> when it raises \<open>OSError\<close> or \<open>SubprocessError\<close>; whatever else it raises leaves
  the function, contrary to its documentation.
\<close>

theorem verify_report:
  assumes "temp_works env fs"
  shows "snd (verify env feature m bundle fs) = fs \<and>
    (case (if \<exists>b. bundle = Some b \<and> b \<noteq> [] \<and> fs b \<noteq> None then bundle else None) of
       None \<Rightarrow> \<exists>r. fst (verify env feature m bundle fs) = Inr r \<and> status_of r = Some (JStr (lit ''unsigned''))
     | Some b \<Rightarrow>
         if \<not> se_cosign env
         then \<exists>r. fst (verify env feature m bundle fs) = Inr r \<and> status_of r = Some (JStr (lit ''unverified''))
         else \<exists>blob. fs blob = None \<and>
           (case fst (se_run env (verify_argv env b blob) (fs(blob \<mapsto> canonical_bytes m))) of
              Inr code \<Rightarrow> \<exists>r. fst (verify env feature m bundle fs) = Inr r \<and>
                status_of r = Some (JStr (if code = 0 then lit ''verified'' else lit ''failed''))
            | Inl e \<Rightarrow>
                if e = OSError \<or> e = SubprocessError
                then \<exists>r. fst (verify env feature m bundle fs) = Inr r \<and> status_of r = Some (JStr (lit ''unverified''))
                else fst (verify env feature m bundle fs) = Inl e))"
proof (cases "\<exists>b. bundle = Some b \<and> b \<noteq> [] \<and> fs b \<noteq> None")
  case False
  then show ?thesis
    by (auto simp: verify_def Let_def returnM_run bindM_def exists_file_def status_base split: option.split)
next
  case True
  then obtain b where b: "bundle = Some b" "b \<noteq> []" "fs b \<noteq> None" by blast
  show ?thesis
  proof (cases "se_cosign env")
    case False
    with b show ?thesis
      by (simp add: verify_def Let_def returnM_run bindM_def exists_file_def status_base)
  next
    case cosign: True
    obtain blob where blob: "fs blob = None" "se_create env fs = (Inr blob, fs(blob \<mapsto> []))"
      using assms unfolding temp_works_def by blast
    have w: "se_write env blob bytes (fs(blob \<mapsto> [])) = (Inr (), fs(blob \<mapsto> bytes))" for bytes
      using assms by (simp add: temp_works_def)
    let ?r = "fst (se_run env (verify_argv env b blob) (fs(blob \<mapsto> canonical_bytes m)))"
    note c = run_cosign_works [where env = env and b = b and bytes = "canonical_bytes m", OF assms blob(1) refl]
    show ?thesis using b blob cosign
      by (cases ?r) (auto simp: verify_def Let_def bindM_def exists_file_def w c returnM_run status_base intro!: exI [of _ blob])
  qed
qed

text \<open>
  C34. When verification raises, whatever the file system does: exactly when there is a bundle and
  cosign, and making or writing the temporary file raises, or removing it does, or the run of
  cosign raises something other than \<open>OSError\<close> and \<open>SubprocessError\<close>; it passes on that exception.
  Once the file is written its removal is the last thing done, however the run of cosign ends; when
  the write fails the file that was made is not removed.
\<close>

theorem verify_raises:
  "(fst (verify env feature m (Some b) fs) = Inl e \<longleftrightarrow>
     b \<noteq> [] \<and> fs b \<noteq> None \<and> se_cosign env \<and>
     (case se_create env fs of
        (Inl e1, fs1) \<Rightarrow> e = e1
      | (Inr blob, fs1) \<Rightarrow>
          (case se_write env blob (canonical_bytes m) fs1 of
             (Inl e2, fs2) \<Rightarrow> e = e2
           | (Inr _, fs2) \<Rightarrow>
               (case se_run env (verify_argv env b blob) fs2 of (r, fs3) \<Rightarrow>
                case fst (se_unlink env blob fs3) of
                  Inl e3 \<Rightarrow> e = e3
                | Inr _ \<Rightarrow> r = Inl e \<and> e \<noteq> OSError \<and> e \<noteq> SubprocessError))))
   \<and> (\<forall>blob fs1 e2 fs2. b \<noteq> [] \<and> fs b \<noteq> None \<and> se_cosign env \<and> se_create env fs = (Inr blob, fs1)
        \<and> se_write env blob (canonical_bytes m) fs1 = (Inl e2, fs2) \<longrightarrow>
        verify env feature m (Some b) fs = (Inl e2, fs2))
   \<and> (\<forall>blob fs1 fs2. b \<noteq> [] \<and> fs b \<noteq> None \<and> se_cosign env \<and> se_create env fs = (Inr blob, fs1)
        \<and> se_write env blob (canonical_bytes m) fs1 = (Inr (), fs2) \<longrightarrow>
        snd (verify env feature m (Some b) fs) = snd (se_unlink env blob (snd (se_run env (verify_argv env b blob) fs2))))"
proof (intro conjI)
  show "\<forall>blob fs1 fs2. b \<noteq> [] \<and> fs b \<noteq> None \<and> se_cosign env \<and> se_create env fs = (Inr blob, fs1)
        \<and> se_write env blob (canonical_bytes m) fs1 = (Inr (), fs2) \<longrightarrow>
        snd (verify env feature m (Some b) fs) = snd (se_unlink env blob (snd (se_run env (verify_argv env b blob) fs2)))"
    by (auto simp: verify_def Let_def bindM_def exists_file_def returnM_run run_cosign_def finallyM_def tryM_def
        split: sum.splits prod.splits option.splits)
next
  show "\<forall>blob fs1 e2 fs2. b \<noteq> [] \<and> fs b \<noteq> None \<and> se_cosign env \<and> se_create env fs = (Inr blob, fs1)
        \<and> se_write env blob (canonical_bytes m) fs1 = (Inl e2, fs2) \<longrightarrow>
        verify env feature m (Some b) fs = (Inl e2, fs2)"
    by (simp add: verify_def Let_def bindM_def exists_file_def)
next
  show "fst (verify env feature m (Some b) fs) = Inl e \<longleftrightarrow>
     b \<noteq> [] \<and> fs b \<noteq> None \<and> se_cosign env \<and>
     (case se_create env fs of
        (Inl e1, fs1) \<Rightarrow> e = e1
      | (Inr blob, fs1) \<Rightarrow>
          (case se_write env blob (canonical_bytes m) fs1 of
             (Inl e2, fs2) \<Rightarrow> e = e2
           | (Inr _, fs2) \<Rightarrow>
               (case se_run env (verify_argv env b blob) fs2 of (r, fs3) \<Rightarrow>
                case fst (se_unlink env blob fs3) of
                  Inl e3 \<Rightarrow> e = e3
                | Inr _ \<Rightarrow> r = Inl e \<and> e \<noteq> OSError \<and> e \<noteq> SubprocessError)))"
    by (auto simp: verify_def Let_def bindM_def exists_file_def returnM_run run_cosign_def finallyM_def tryM_def
        split: sum.splits prod.splits if_splits option.splits)
qed

text \<open>
  A file system in memory with one name for temporary files, and a cosign that accepts a file that is
  there. On the second one every write fails.
\<close>

definition sample_sign_env :: sign_env where
  "sample_sign_env = \<lparr>se_dir = lit ''signatures'', se_identity = [], se_issuer = lit ''https://issuer'',
     se_cosign = True,
     se_create = (\<lambda>fs. (Inr (lit ''/tmp/x.json''), fs(lit ''/tmp/x.json'' \<mapsto> []))),
     se_write = (\<lambda>blob bytes fs. (Inr (), fs(blob \<mapsto> bytes))),
     se_run = (\<lambda>argv fs. (Inr (if fs (last argv) = None then 1 else 0), fs)),
     se_unlink = (\<lambda>blob fs. if fs blob = None then (Inl OSError, fs) else (Inr (), fs(blob := None)))\<rparr>"

lemma sample_temp_works: "fs (lit ''/tmp/x.json'') = None \<Longrightarrow> temp_works sample_sign_env fs"
  by (simp add: temp_works_def sample_sign_env_def)

theorem verify_report_witness:
  "\<exists>r. verify sample_sign_env (lit ''echo'') [] (Some (lit ''signatures/echo.bundle''))
        [lit ''signatures/echo.bundle'' \<mapsto> lit ''sig''] = (Inr r, [lit ''signatures/echo.bundle'' \<mapsto> lit ''sig''])
      \<and> status_of r = Some (JStr (lit ''verified''))"
proof -
  let ?b = "lit ''signatures/echo.bundle''" let ?fs = "[?b \<mapsto> lit ''sig'']"
  have b: "?b \<noteq> []" "?fs ?b \<noteq> None" and t: "?fs (lit ''/tmp/x.json'') = None" by simp_all
  show ?thesis
    using verify_report [of sample_sign_env ?fs "lit ''echo''" "[]" "Some ?b", OF sample_temp_works [of ?fs, OF t]] b
    by (auto simp: sample_sign_env_def verify_argv_def prod_eq_iff)
qed

definition full_disk :: sign_env where
  "full_disk = sample_sign_env\<lparr>se_write := (\<lambda>blob bytes fs. (Inl OSError, fs))\<rparr>"

theorem verify_raises_witness:
  "verify full_disk (lit ''echo'') [] (Some (lit ''echo.bundle'')) [lit ''echo.bundle'' \<mapsto> lit ''sig''] =
    (Inl OSError, [lit ''echo.bundle'' \<mapsto> lit ''sig'', lit ''/tmp/x.json'' \<mapsto> []])"
  using verify_raises [of full_disk "lit ''echo''" "[]" "lit ''echo.bundle''" "[lit ''echo.bundle'' \<mapsto> lit ''sig'']" OSError]
  by (simp add: full_disk_def sample_sign_env_def)

end
