(* ===== verification/Samples.thy ===== *)
theory Samples
  imports Services
begin

text \<open>
  The sample features, \<open>gateway/samples.py\<close>: the calculator with its expression walker, the
  text statistics, the clock and the two greeters, with their manifests and the wiring of the
  development catalog and invoker. The syntax tree comes from \<open>ast.parse\<close>, the arithmetic on
  its constants is that of Python's floats (which leaves them for infinities and complex numbers
  and raises on some arguments), and the current time as text is that of \<open>datetime\<close>; the three
  are parameters, and so is the number of frames left to the expression walker.
\<close>

section \<open>Calculator\<close>

datatype 'n const = CInt int | CBool bool | CFloat 'n | COther

datatype bin_op = Add | Sub | Mult | Div | Pow | Mod | OtherBin

datatype un_op = USub | UAdd | OtherUn

datatype 'n expr =
    Expression "'n expr"
  | Constant "'n const"
  | BinOp bin_op "'n expr" "'n expr"
  | UnaryOp un_op "'n expr"
  | OtherNode

record 'n arith =
  ar_float :: "int \<Rightarrow> exn + 'n"
  ar_bin :: "bin_op \<Rightarrow> 'n \<Rightarrow> 'n \<Rightarrow> exn + 'n"
  ar_un :: "un_op \<Rightarrow> 'n \<Rightarrow> exn + 'n"
  ar_json :: "'n \<Rightarrow> json"

text \<open>The walker, with the number of frames the interpreter still allows; at none a call raises.\<close>

fun safe_eval :: "'n arith \<Rightarrow> nat \<Rightarrow> 'n expr \<Rightarrow> exn + 'n" where
  "safe_eval ar 0 e = Inl RecursionError"
| "safe_eval ar (Suc d) (Expression e) = safe_eval ar d e"
| "safe_eval ar (Suc d) (Constant (CInt i)) = ar_float ar i"
| "safe_eval ar (Suc d) (Constant (CBool b)) = ar_float ar (if b then 1 else 0)"
| "safe_eval ar (Suc d) (Constant (CFloat x)) = Inr x"
| "safe_eval ar (Suc d) (BinOp oper l r) =
     (if oper \<noteq> OtherBin
      then bindE (safe_eval ar d l) (\<lambda>a. bindE (safe_eval ar d r) (\<lambda>b. ar_bin ar oper a b))
      else Inl ValueError)"
| "safe_eval ar (Suc d) (UnaryOp oper e) =
     (if oper \<noteq> OtherUn then bindE (safe_eval ar d e) (ar_un ar oper) else Inl ValueError)"
| "safe_eval ar (Suc d) e = Inl ValueError"

text \<open>The exceptions the calculator turns into an input error, with the text of each.\<close>

definition input_error :: "(exn \<Rightarrow> pystr) \<Rightarrow> exn \<Rightarrow> exn" where
  "input_error exc_text e =
     (case e of
        ValueError \<Rightarrow> FeatureInputError (lit ''invalid expression: '' @ exc_text e)
      | SyntaxError \<Rightarrow> FeatureInputError (lit ''invalid expression: '' @ exc_text e)
      | ZeroDivisionError \<Rightarrow> FeatureInputError (lit ''invalid expression: '' @ exc_text e)
      | _ \<Rightarrow> e)"

definition calculator ::
  "'n arith \<Rightarrow> nat \<Rightarrow> (json \<Rightarrow> exn + 'n expr) \<Rightarrow> (exn \<Rightarrow> pystr) \<Rightarrow> json \<Rightarrow> exn + json_obj" where
  "calculator ar limit ast_parse exc_text payload =
     (case bindE (subscript payload (lit ''expression'')) (\<lambda>src.
           bindE (ast_parse src) (\<lambda>tree.
           bindE (safe_eval ar limit tree) (\<lambda>v. Inr [(lit ''result'', ar_json ar v)]))) of
        Inl e \<Rightarrow> Inl (input_error exc_text e)
      | Inr out \<Rightarrow> Inr out)"

section \<open>Text statistics\<close>

fun as_text :: "json \<Rightarrow> exn + pystr" where
  "as_text (JStr s) = Inr s"
| "as_text v = Inl AttributeError"

definition sentences :: "pystr \<Rightarrow> pystr list" where
  "sentences t =
     filter (\<lambda>s. strip s \<noteq> [])
       (split_on dot (replace (lit ''?'') (lit ''.'') (replace (lit ''!'') (lit ''.'') t)))"

definition text_stats :: "json \<Rightarrow> exn + json_obj" where
  "text_stats payload =
     bindE (subscript payload (lit ''text'')) (\<lambda>v.
     bindE (as_text v) (\<lambda>t.
     Inr [(lit ''characters'', JInt (int (length t))), (lit ''words'', JInt (int (length (split_ws t)))),
          (lit ''sentences'', JInt (int (length (sentences t))))]))"

section \<open>Clock\<close>

text \<open>
  \<open>float(v)\<close>, where the conversion of strings is \<open>float_text\<close>; \<open>timedelta(hours=h)\<close> adds the
  whole hours exactly and the fraction as a rounded product, then rounds to microseconds;
  a \<open>timezone\<close> must be less than a day from UTC.
\<close>

definition py_float :: "(pystr \<Rightarrow> exn + float64) \<Rightarrow> json \<Rightarrow> exn + float64" where
  "py_float float_text v =
     (case v of
        JBool b \<Rightarrow> Inr (if b then 1 else 0)
      | JInt i \<Rightarrow> if \<bar>fl (of_int i)\<bar> < 2 ^ 1024 then Inr (fl (of_int i)) else Inl OverflowError
      | JFloat x \<Rightarrow> Inr x
      | JStr s \<Rightarrow> float_text s
      | _ \<Rightarrow> Inl TypeError)"

definition truncate_rat :: "rat \<Rightarrow> int" where
  "truncate_rat x = (if 0 \<le> x then \<lfloor>x\<rfloor> else - \<lfloor>- x\<rfloor>)"

definition offset_us :: "float64 \<Rightarrow> int" where
  "offset_us h =
     (let n = truncate_rat h in
      round_half_even (of_int n * 3600000000 + fmul (h - of_int n) 3600000000))"

definition timezone :: "float64 \<Rightarrow> exn + int" where
  "timezone h =
     (let us = offset_us h; day = 86400000000 in
      if \<bar>us div day\<bar> > 999999999 then Inl OverflowError
      else if \<bar>us\<bar> < day then Inr us else Inl ValueError)"

definition clock_now ::
  "(pystr \<Rightarrow> exn + float64) \<Rightarrow> (int \<Rightarrow> ('e, pystr) io) \<Rightarrow> 'e handler" where
  "clock_now float_text iso_now payload =
     bindM (liftE (as_dict payload)) (\<lambda>p.
     bindM (liftE (py_float float_text (get_or p (lit ''utc_offset_hours'') (JInt 0)))) (\<lambda>h.
     bindM (liftE (timezone h)) (\<lambda>tz.
     bindM (iso_now tz) (\<lambda>iso.
     returnM [(lit ''iso8601'', JStr iso), (lit ''utc_offset_hours'', JFloat h)]))))"

section \<open>Greeters\<close>

definition greet_acme :: "json \<Rightarrow> exn + json_obj" where
  "greet_acme payload =
     bindE (subscript payload (lit ''name'')) (\<lambda>n.
     Inr [(lit ''greeting'', JStr (lit ''Hello, '' @ py_str n @ lit ''. '' @ EmDash # lit '' Acme''))])"

definition greet_globex :: "json \<Rightarrow> exn + json_obj" where
  "greet_globex payload =
     bindE (subscript payload (lit ''name'')) (\<lambda>n.
     Inr [(lit ''greeting'', JStr (lit ''hey '' @ py_str n @ lit ''!! ~globex''))])"

section \<open>Manifests\<close>

definition typed :: "string \<Rightarrow> json" where
  "typed t = JObj [(lit ''type'', JStr (lit t))]"

definition object_schema :: "json_obj \<Rightarrow> pystr list \<Rightarrow> json_obj" where
  "object_schema props required =
     [(lit ''type'', JStr (lit ''object'')), (lit ''properties'', JObj props)] @
     (if required = [] then [] else [(lit ''required'', JList (map JStr required))])"

definition calculator_manifest :: manifest where
  "calculator_manifest = default_capability ((manifest_defaults (lit ''calculator''))
     \<lparr>m_description := lit ''Safely evaluates an arithmetic expression.'',
      m_tags := [lit ''math'', lit ''utility''],
      m_input_schema := object_schema [(lit ''expression'', typed ''string'')] [lit ''expression''],
      m_output_schema := object_schema [(lit ''result'', typed ''number'')] []\<rparr>)"

definition text_stats_manifest :: manifest where
  "text_stats_manifest = default_capability ((manifest_defaults (lit ''text_stats''))
     \<lparr>m_description := lit ''Counts characters, words and sentences in a block of text.'',
      m_tags := [lit ''text'', lit ''nlp''],
      m_input_schema := object_schema [(lit ''text'', typed ''string'')] [lit ''text''],
      m_output_schema := object_schema [(lit ''characters'', typed ''integer''), (lit ''words'', typed ''integer''),
        (lit ''sentences'', typed ''integer'')] []\<rparr>)"

definition clock_manifest :: manifest where
  "clock_manifest = default_capability ((manifest_defaults (lit ''clock''))
     \<lparr>m_description := lit ''Returns the current time at a given UTC offset.'',
      m_tags := [lit ''time'', lit ''utility''],
      m_input_schema := object_schema [(lit ''utc_offset_hours'',
        JObj [(lit ''type'', JStr (lit ''number'')), (lit ''default'', JInt 0)])] [],
      m_output_schema := object_schema [(lit ''iso8601'', typed ''string''),
        (lit ''utc_offset_hours'', typed ''number'')] []\<rparr>)"

definition greet_manifest :: "string \<Rightarrow> string \<Rightarrow> trust_tier \<Rightarrow> string \<Rightarrow> string \<Rightarrow> manifest" where
  "greet_manifest nm vendor tier version description = default_capability ((manifest_defaults (lit nm))
     \<lparr>m_capability := lit ''greet'', m_vendor := lit vendor, m_trust := tier, m_version := lit version,
      m_description := lit description, m_tags := [lit ''greeting'', lit ''text''],
      m_input_schema := object_schema [(lit ''name'', typed ''string'')] [lit ''name''],
      m_output_schema := object_schema [(lit ''greeting'', typed ''string'')] []\<rparr>)"

definition dev_manifests :: "manifest list" where
  "dev_manifests =
     [calculator_manifest, text_stats_manifest, clock_manifest,
      greet_manifest ''greet-acme'' ''acme'' VERIFIED ''1.0.0'' ''A formal greeting.'',
      greet_manifest ''greet-globex'' ''globex'' COMMUNITY ''1.2.0'' ''A casual greeting.'']"

section \<open>Wiring\<close>

definition dev_handlers ::
  "'n arith \<Rightarrow> nat \<Rightarrow> (json \<Rightarrow> exn + 'n expr) \<Rightarrow> (exn \<Rightarrow> pystr) \<Rightarrow> (pystr \<Rightarrow> exn + float64) \<Rightarrow>
   (int \<Rightarrow> ('e, pystr) io) \<Rightarrow> 'e handler list" where
  "dev_handlers ar limit ast_parse exc_text float_text iso_now =
     [\<lambda>p. liftE (calculator ar limit ast_parse exc_text p), \<lambda>p. liftE (text_stats p), clock_now float_text iso_now,
      \<lambda>p. liftE (greet_acme p), \<lambda>p. liftE (greet_globex p)]"

text \<open>\<open>build_dev_catalog_and_invoker\<close>\<close>

definition dev_catalog :: in_memory_catalog where
  "dev_catalog = in_memory_init dev_manifests"

definition dev_invoker :: "'e handler list \<Rightarrow> 'e invoke_fn" where
  "dev_invoker handlers = local_invoke (dict_of (zip (map m_name dev_manifests) handlers))"

section \<open>Properties\<close>

text \<open>Expressions made of numbers and the listed operators only.\<close>

fun supported :: "'n expr \<Rightarrow> bool" where
  "supported (Expression e) = supported e"
| "supported (Constant c) = (c \<noteq> COther)"
| "supported (BinOp oper l r) = (oper \<noteq> OtherBin \<and> supported l \<and> supported r)"
| "supported (UnaryOp oper e) = (oper \<noteq> OtherUn \<and> supported e)"
| "supported OtherNode = False"

text \<open>The value of an expression under an arithmetic, as a relation on the tree alone.\<close>

inductive denotes :: "'n arith \<Rightarrow> 'n expr \<Rightarrow> 'n \<Rightarrow> bool" for ar where
  den_expression: "denotes ar e v \<Longrightarrow> denotes ar (Expression e) v"
| den_int: "ar_float ar i = Inr v \<Longrightarrow> denotes ar (Constant (CInt i)) v"
| den_bool: "ar_float ar (if b then 1 else 0) = Inr v \<Longrightarrow> denotes ar (Constant (CBool b)) v"
| den_float: "denotes ar (Constant (CFloat v)) v"
| den_bin: "oper \<noteq> OtherBin \<Longrightarrow> denotes ar l a \<Longrightarrow> denotes ar r b \<Longrightarrow> ar_bin ar oper a b = Inr v \<Longrightarrow> denotes ar (BinOp oper l r) v"
| den_un: "oper \<noteq> OtherUn \<Longrightarrow> denotes ar e a \<Longrightarrow> ar_un ar oper a = Inr v \<Longrightarrow> denotes ar (UnaryOp oper e) v"

inductive_simps denotes_simps:
  "denotes ar (Expression e) v" "denotes ar (Constant (CInt i)) v" "denotes ar (Constant (CBool b)) v"
  "denotes ar (Constant (CFloat x)) v" "denotes ar (Constant COther) v" "denotes ar (BinOp oper l r) v"
  "denotes ar (UnaryOp oper e) v" "denotes ar OtherNode v"

lemma denotes_supported: "denotes ar e v \<Longrightarrow> supported e"
  by (induction rule: denotes.induct) auto

text \<open>The frames that a walk over the whole tree takes.\<close>

fun height :: "'n expr \<Rightarrow> nat" where
  "height (Expression e) = Suc (height e)"
| "height (Constant c) = 1"
| "height (BinOp oper l r) = Suc (max (height l) (height r))"
| "height (UnaryOp oper e) = Suc (height e)"
| "height OtherNode = 1"

fun uses :: "bin_op \<Rightarrow> 'n expr \<Rightarrow> bool" where
  "uses x (Expression e) = uses x e"
| "uses x (BinOp oper l r) = (oper = x \<or> uses x l \<or> uses x r)"
| "uses x (UnaryOp oper e) = uses x e"
| "uses x e = False"

text \<open>An integer literal beyond \<open>2 ^ 1023\<close>, of at least 308 digits, occurs.\<close>

fun huge_int :: "'n expr \<Rightarrow> bool" where
  "huge_int (Expression e) = huge_int e"
| "huge_int (Constant (CInt i)) = (2 ^ 1023 < \<bar>i\<bar>)"
| "huge_int (BinOp oper l r) = (huge_int l \<or> huge_int r)"
| "huge_int (UnaryOp oper e) = huge_int e"
| "huge_int e = False"

text \<open>
  What the Python documentation says of the operators on floats and complex numbers: conversion
  of an integer raises only \<open>OverflowError\<close>, on large ones; addition, subtraction,
  multiplication and the signs do not raise; division raises only \<open>ZeroDivisionError\<close>, the
  remainder that or, on a complex operand, \<open>TypeError\<close>, and the power that or \<open>OverflowError\<close>.
\<close>

definition py_arith :: "'n arith \<Rightarrow> bool" where
  "py_arith ar \<longleftrightarrow>
     (\<forall>i e. ar_float ar i = Inl e \<longrightarrow> e = OverflowError \<and> 2 ^ 1023 < \<bar>i\<bar>)
     \<and> (\<forall>a b e. ar_bin ar Add a b \<noteq> Inl e \<and> ar_bin ar Sub a b \<noteq> Inl e \<and> ar_bin ar Mult a b \<noteq> Inl e)
     \<and> (\<forall>a b e. ar_bin ar Div a b = Inl e \<longrightarrow> e = ZeroDivisionError)
     \<and> (\<forall>a b e. ar_bin ar Mod a b = Inl e \<longrightarrow> e = ZeroDivisionError \<or> e = TypeError)
     \<and> (\<forall>a b e. ar_bin ar Pow a b = Inl e \<longrightarrow> e = ZeroDivisionError \<or> e = OverflowError)
     \<and> (\<forall>a e. ar_un ar USub a \<noteq> Inl e \<and> ar_un ar UAdd a \<noteq> Inl e)"

lemma height_pos: "0 < height e"
  by (cases e) auto

lemma safe_eval_denotes: "safe_eval ar d e = Inr v \<longleftrightarrow> height e \<le> d \<and> denotes ar e v"
proof (induction ar d e arbitrary: v rule: safe_eval.induct)
  case (1 ar e)
  then show ?case using height_pos [of e] by simp
qed (simp_all add: denotes_simps bindE_eq_Inr, blast+)

lemma py_arith_bin:
  assumes "py_arith ar" and "oper \<noteq> OtherBin" and "ar_bin ar oper a b = Inl e"
  shows "e = ZeroDivisionError \<and> (oper = Div \<or> oper = Mod \<or> oper = Pow) \<or> e = TypeError \<and> oper = Mod \<or> e = OverflowError \<and> oper = Pow"
  using assms by (cases oper) (auto simp: py_arith_def)

text \<open>The exceptions of the walker.\<close>

lemma safe_eval_raises:
  assumes "py_arith ar" and "safe_eval ar d e = Inl x"
  shows "x = ValueError \<and> \<not> supported e \<or> x = ZeroDivisionError \<and> (uses Div e \<or> uses Mod e \<or> uses Pow e)
    \<or> x = RecursionError \<and> d < height e
    \<or> x = OverflowError \<and> (huge_int e \<or> uses Pow e) \<or> x = TypeError \<and> uses Mod e"
  using assms(2)
proof (induction d arbitrary: e)
  case 0
  then show ?case using height_pos [of e] by simp
next
  case (Suc d)
  have f: "ar_float ar i = Inl e \<Longrightarrow> e = OverflowError \<and> 2 ^ 1023 < \<bar>i\<bar>" for i e
    using assms(1) by (simp add: py_arith_def)
  show ?case
  proof (cases e)
    case (Expression e1)
    with Suc show ?thesis by auto
  next
    case (Constant c)
    have b: "ar_float ar (if b then 1 else 0) \<noteq> Inl z" for b z
    proof -
      have "\<bar>if b then 1 else 0 :: int\<bar> < 2 ^ 1023" by (simp add: one_less_power)
      with f [of "if b then 1 else 0"] show ?thesis by (meson not_less_iff_gr_or_eq)
    qed
    show ?thesis
    proof (cases c)
      case (CInt i)
      with Suc.prems Constant f [of i x] show ?thesis by (simp only: safe_eval.simps huge_int.simps) blast
    next
      case (CBool t)
      with Suc.prems Constant b [of t x] show ?thesis by (simp only: safe_eval.simps)
    qed (use Suc.prems Constant in simp_all)
  next
    case (BinOp oper l r)
    show ?thesis
    proof (cases "oper = OtherBin")
      case False
      with Suc.prems BinOp consider "safe_eval ar d l = Inl x" | "safe_eval ar d r = Inl x"
        | a b where "ar_bin ar oper a b = Inl x"
        by (auto simp: bindE_def split: sum.splits)
      then show ?thesis
      proof cases
        case 1
        from Suc.IH [OF this] BinOp show ?thesis by auto
      next
        case 2
        from Suc.IH [OF this] BinOp show ?thesis by auto
      next
        case 3
        from py_arith_bin [OF assms(1) False this] BinOp show ?thesis by auto
      qed
    qed (use Suc.prems BinOp in auto)
  next
    case (UnaryOp oper e1)
    have "ar_un ar oper a \<noteq> Inl z" if "oper \<noteq> OtherUn" for a z
      using assms(1) that by (cases oper) (auto simp: py_arith_def)
    with Suc UnaryOp show ?thesis by (auto simp: bindE_def split: sum.splits if_splits)
  qed (use Suc.prems in auto)
qed

text \<open>
  C39. The calculator evaluates exactly the whitelisted expressions. It answers exactly when the
  walk fits in the frames left and the tree, made of numbers and listed operators, has a value,
  with that value. Any other tree is never answered. What it raises is an input error unless the
  walk does not fit in the frames left (\<open>RecursionError\<close>), a power or an integer literal overflows
  (\<open>OverflowError\<close>), or the remainder of a complex number is taken (\<open>TypeError\<close>): these three pass
  through, since the handler names none of them. The arithmetic raises what its documentation says.
\<close>

theorem calculator_whitelist:
  assumes "py_arith ar" and "ast_parse src = Inr tree"
  shows "(calculator ar limit ast_parse exc_text (JObj [(lit ''expression'', src)]) = Inr out \<longleftrightarrow>
            height tree \<le> limit \<and> (\<exists>v. denotes ar tree v \<and> out = [(lit ''result'', ar_json ar v)]))
    \<and> (\<not> supported tree \<longrightarrow> calculator ar limit ast_parse exc_text (JObj [(lit ''expression'', src)]) \<noteq> Inr out)
    \<and> (calculator ar limit ast_parse exc_text (JObj [(lit ''expression'', src)]) = Inl e \<longrightarrow>
         (\<exists>m. e = FeatureInputError m) \<and> (supported tree \<longrightarrow> uses Div tree \<or> uses Mod tree \<or> uses Pow tree)
         \<or> e = RecursionError \<and> limit < height tree
         \<or> e = OverflowError \<and> (huge_int tree \<or> uses Pow tree)
         \<or> e = TypeError \<and> uses Mod tree)"
proof -
  let ?c = "calculator ar limit ast_parse exc_text (JObj [(lit ''expression'', src)])"
  have c: "?c = (case safe_eval ar limit tree of Inl e \<Rightarrow> Inl (input_error exc_text e) | Inr v \<Rightarrow> Inr [(lit ''result'', ar_json ar v)])"
    using assms(2) by (simp add: calculator_def dict_get_def bindE_def split: sum.split)
  show ?thesis
  proof (cases "safe_eval ar limit tree")
    case (Inl x)
    then have "\<not> (height tree \<le> limit \<and> denotes ar tree v)" for v
      using safe_eval_denotes [of ar limit tree v] by simp
    with Inl c safe_eval_raises [OF assms(1) Inl] show ?thesis by (auto simp: input_error_def)
  next
    case (Inr v)
    then have "height tree \<le> limit" "denotes ar tree v" using safe_eval_denotes [of ar limit tree v] by simp_all
    moreover have "v' = v" if "denotes ar tree v'" for v'
      using that Inr \<open>height tree \<le> limit\<close> safe_eval_denotes [of ar limit tree v'] by simp
    ultimately have d: "denotes ar tree v' \<longleftrightarrow> v' = v" for v' by blast
    have c: "?c = Inr [(lit ''result'', ar_json ar v)]" using Inr c by simp
    show ?thesis
      using \<open>height tree \<le> limit\<close> denotes_supported [of ar tree v] by (simp add: c d) auto
  qed
qed

text \<open>A rational arithmetic, with division by zero and a power that overflows beyond one digit.\<close>

definition exact_arith :: "rat arith" where
  "exact_arith = \<lparr>ar_float = (\<lambda>i. if 2 ^ 1023 < \<bar>i\<bar> then Inl OverflowError else Inr (of_int i)),
     ar_bin = (\<lambda>oper a b. case oper of
        Add \<Rightarrow> Inr (a + b) | Sub \<Rightarrow> Inr (a - b) | Mult \<Rightarrow> Inr (a * b)
      | Div \<Rightarrow> if b = 0 then Inl ZeroDivisionError else Inr (a / b)
      | Mod \<Rightarrow> if b = 0 then Inl ZeroDivisionError else Inr (a - b * of_int \<lfloor>a / b\<rfloor>)
      | Pow \<Rightarrow> if b < 0 \<or> b \<noteq> of_int \<lfloor>b\<rfloor> \<or> 9 < b then Inl OverflowError else Inr (a ^ nat \<lfloor>b\<rfloor>)
      | OtherBin \<Rightarrow> Inl ValueError),
     ar_un = (\<lambda>oper a. Inr (if oper = USub then - a else a)), ar_json = JFloat\<rparr>"

lemma exact_py_arith: "py_arith exact_arith"
  unfolding py_arith_def exact_arith_def
  by (intro conjI allI impI) (simp_all split: if_splits del: power_numeral)

theorem calculator_whitelist_witness:
  "calculator exact_arith 3 (\<lambda>_. Inr (BinOp Add (Constant (CInt 1)) (UnaryOp USub (Constant (CInt 2))))) (\<lambda>_. [])
     (JObj [(lit ''expression'', JStr (lit ''1 + -2''))]) = Inr [(lit ''result'', JFloat (- 1))]
   \<and> calculator exact_arith 3 (\<lambda>_. Inr OtherNode) (\<lambda>_. []) (JObj [(lit ''expression'', JStr (lit ''x''))])
     = Inl (FeatureInputError (lit ''invalid expression: ''))"
proof (rule conjI)
  let ?tree = "BinOp Add (Constant (CInt 1)) (UnaryOp USub (Constant (CInt 2))) :: rat expr"
  have "denotes exact_arith ?tree (- 1)"
    by (simp add: denotes_simps) (simp add: exact_arith_def)
  moreover have "ar_json exact_arith = JFloat" by (simp add: exact_arith_def)
  ultimately show "calculator exact_arith 3 (\<lambda>_. Inr ?tree) (\<lambda>_. []) (JObj [(lit ''expression'', JStr (lit ''1 + -2''))]) =
      Inr [(lit ''result'', JFloat (- 1))]"
    using calculator_whitelist [OF exact_py_arith, of "\<lambda>_. Inr ?tree" "JStr (lit ''1 + -2'')" ?tree 3 "\<lambda>_. []"]
    by simp
  show "calculator exact_arith 3 (\<lambda>_. Inr OtherNode) (\<lambda>_. []) (JObj [(lit ''expression'', JStr (lit ''x''))])
     = Inl (FeatureInputError (lit ''invalid expression: ''))"
    by code_simp
qed

lemma truncate_bounds:
  "0 \<le> h \<Longrightarrow> of_int (truncate_rat h) \<le> h \<and> h < of_int (truncate_rat h) + 1 \<and> 0 \<le> truncate_rat h"
  by (simp add: truncate_rat_def) linarith

lemma truncate_minus: "truncate_rat (- h) = - truncate_rat h"
  by (auto simp: truncate_rat_def)

lemma offset_minus: "offset_us (- h) = - offset_us h"
proof -
  have "fmul (- h - of_int (truncate_rat (- h))) 3600000000 = - fmul (h - of_int (truncate_rat h)) 3600000000"
    unfolding fmul_def truncate_minus by (simp flip: fl_minus add: algebra_simps)
  then show ?thesis
    unfolding offset_us_def Let_def truncate_minus
    by (simp flip: round_half_even_minus add: algebra_simps)
qed

lemma offset_frac:
  assumes "0 \<le> h"
  shows "0 \<le> fmul (h - of_int (truncate_rat h)) 3600000000" "fmul (h - of_int (truncate_rat h)) 3600000000 \<le> 3600000000"
proof -
  have r: "0 \<le> h - of_int (truncate_rat h)" "h - of_int (truncate_rat h) \<le> 1"
    using truncate_bounds [OF assms] by auto
  then show "0 \<le> fmul (h - of_int (truncate_rat h)) 3600000000" by (simp add: fmul_def fl_nonneg)
  have "fl (3600000000::rat) = 3600000000" using fl_of_int [of 3600000000] by simp
  then show "fmul (h - of_int (truncate_rat h)) 3600000000 \<le> 3600000000"
    using r fl_mono [of "(h - of_int (truncate_rat h)) * 3600000000" 3600000000] by (simp add: fmul_def)
qed

lemma offset_small: "0 \<le> h \<Longrightarrow> h \<le> 23 \<Longrightarrow> 0 \<le> offset_us h \<and> offset_us h \<le> 82800000000"
proof -
  assume h: "0 \<le> h" "h \<le> 23"
  let ?n = "truncate_rat h" and ?t = "of_int (truncate_rat h) * 3600000000 + fmul (h - of_int (truncate_rat h)) 3600000000"
  have n: "0 \<le> ?n" "of_int ?n \<le> h" using truncate_bounds [OF h(1)] by auto
  have "?t \<le> of_int (82800000000::int)"
  proof (cases "?n = 23")
    case True
    then have "h = of_int ?n" using h(2) n by auto
    then have "fmul (h - of_int ?n) 3600000000 = 0" by (simp add: fmul_def)
    then show ?thesis using True by simp
  next
    case False
    then have "?n \<le> 22" using n(2) h(2) by linarith
    then have "of_int ?n \<le> (22::rat)" by linarith
    then show ?thesis using offset_frac(2) [OF h(1)] by simp
  qed
  moreover have "of_int (0::int) \<le> ?t" using offset_frac(1) [OF h(1)] n(1) by simp
  ultimately have "round_half_even (of_int (0::int)) \<le> round_half_even ?t"
      "round_half_even ?t \<le> round_half_even (of_int (82800000000::int))"
    by (blast intro: round_half_even_mono)+
  then show ?thesis unfolding offset_us_def Let_def by (simp only: round_half_even_of_int)
qed

lemma offset_large: "24 \<le> h \<Longrightarrow> 86400000000 \<le> offset_us h"
proof -
  assume h: "24 \<le> h"
  then have "0 \<le> h" by simp
  have "24 \<le> truncate_rat h" using h truncate_bounds [OF \<open>0 \<le> h\<close>] by linarith
  then have "of_int (86400000000::int) \<le> of_int (truncate_rat h) * (3600000000::rat)" by simp
  then have "of_int (86400000000::int) \<le> of_int (truncate_rat h) * 3600000000 + fmul (h - of_int (truncate_rat h)) 3600000000"
    using offset_frac(1) [OF \<open>0 \<le> h\<close>] by simp
  then show ?thesis
    unfolding offset_us_def Let_def
    using round_half_even_mono round_half_even_of_int [of 86400000000] by metis
qed

text \<open>
  The clock accepts every offset of up to 23 hours either way; an offset of 24 hours or
  more, which the schema allows, raises an exception that is neither of the two the invoker
  contract declares.
\<close>

theorem clock_offset_range:
  "(\<bar>h\<bar> \<le> 23 \<longrightarrow> (\<exists>us. timezone h = Inr us \<and> \<bar>us\<bar> \<le> 82800000000)) \<and>
   (24 \<le> \<bar>h\<bar> \<longrightarrow> (\<exists>e. (e = ValueError \<or> e = OverflowError) \<and>
      clock_now float_text iso_now (JObj [(lit ''utc_offset_hours'', JFloat h)]) w = (Inl e, w)))"
proof (intro conjI impI)
  assume "\<bar>h\<bar> \<le> 23"
  then have us: "\<bar>offset_us h\<bar> \<le> 82800000000"
    using offset_small [of h] offset_small [of "- h"] offset_minus [of h] by (cases "0 \<le> h") auto
  then have "offset_us h div 86400000000 = 0 \<or> offset_us h div 86400000000 = - 1" by linarith
  with us show "\<exists>us. timezone h = Inr us \<and> \<bar>us\<bar> \<le> 82800000000" by (auto simp: timezone_def Let_def)
next
  assume "24 \<le> \<bar>h\<bar>"
  then have "86400000000 \<le> \<bar>offset_us h\<bar>"
    using offset_large [of h] offset_large [of "- h"] offset_minus [of h] by (cases "0 \<le> h") auto
  then have "\<exists>e. (e = ValueError \<or> e = OverflowError) \<and> timezone h = Inl e" by (auto simp: timezone_def Let_def)
  then show "\<exists>e. (e = ValueError \<or> e = OverflowError) \<and>
      clock_now float_text iso_now (JObj [(lit ''utc_offset_hours'', JFloat h)]) w = (Inl e, w)"
    by (auto simp: clock_now_def py_float_def get_or_def dict_get_def bindM_liftE)
qed

theorem clock_offset_range_witness: "\<exists>us. timezone (11 / 2) = Inr us \<and> \<bar>us\<bar> \<le> 82800000000"
  using clock_offset_range [of "11 / 2" "\<lambda>_. Inl ValueError" "\<lambda>_. returnM []" "()"] by simp

definition resolved_name :: "exn + feature option \<Rightarrow> pystr option" where
  "resolved_name r = (case r of Inr (Some f) \<Rightarrow> Some (f_name f) | _ \<Rightarrow> None)"

lemma dev_catalog_keys: "set (dict_keys dev_catalog) = set (map m_name dev_manifests)"
  by (simp add: dev_catalog_def in_memory_init_def dict_of_keys image_image)

lemma dev_handler_keys:
  "length hs = length dev_manifests \<Longrightarrow>
   set (dict_keys (dict_of (zip (map m_name dev_manifests) hs))) = set (map m_name dev_manifests)"
  by (simp add: dict_of_keys flip: set_map)

lemma dict_get_ex: "(\<exists>v. dict_get d k = Some v) \<longleftrightarrow> k \<in> set (dict_keys d)"
  using dict_get_None_iff [of d k] by auto

text \<open>
  The development pair is consistent: exactly the catalog's features have a handler, so the
  in-process invoker never reports one of them unavailable; \<open>greet\<close> resolves to the verified
  vendor, and to the community vendor when a version from 1.2.0 on or the vendor is asked for.
\<close>

theorem dev_pair_consistent:
  "((\<exists>f. in_memory_get dev_catalog n = Inr (Some f)) \<longleftrightarrow>
     (\<exists>h. dict_get (dict_of (zip (map m_name dev_manifests)
        (dev_handlers ar limit ast_parse exc_text float_text iso_now))) n = Some h))
   \<and> resolved_name (in_memory_resolve dev_catalog (lit ''greet'') None None) = Some (lit ''greet-acme'')
   \<and> resolved_name (in_memory_resolve dev_catalog (lit ''greet'') (Some (lit ''>=1.2.0'')) None) = Some (lit ''greet-globex'')
   \<and> resolved_name (in_memory_resolve dev_catalog (lit ''greet'') None (Some (lit ''globex''))) = Some (lit ''greet-globex'')"
proof (intro conjI)
  have "length (dev_handlers ar limit ast_parse exc_text float_text iso_now) = length dev_manifests"
    by (simp add: dev_handlers_def dev_manifests_def)
  then show "(\<exists>f. in_memory_get dev_catalog n = Inr (Some f)) \<longleftrightarrow>
     (\<exists>h. dict_get (dict_of (zip (map m_name dev_manifests)
        (dev_handlers ar limit ast_parse exc_text float_text iso_now))) n = Some h)"
    unfolding dict_get_ex by (simp add: in_memory_get_def dict_get_ex dev_handler_keys dev_catalog_keys)
  show "resolved_name (in_memory_resolve dev_catalog (lit ''greet'') None None) = Some (lit ''greet-acme'')"
    by code_simp
  show "resolved_name (in_memory_resolve dev_catalog (lit ''greet'') (Some (lit ''>=1.2.0'')) None) = Some (lit ''greet-globex'')"
    by code_simp
  show "resolved_name (in_memory_resolve dev_catalog (lit ''greet'') None (Some (lit ''globex''))) = Some (lit ''greet-globex'')"
    by code_simp
qed

end
