(* ===== verification/Gateway.thy ===== *)
theory Gateway
  imports Ranking Codegen Mcp Signing Samples
begin

text \<open>
  The application, \<open>gateway/main.py\<close>: its state (the metrics store, the registry of composites
  and the world outside), one operation per route, and \<open>serve\<close>, which answers a request. The
  three faces (REST, the chat stream and MCP) and the composer share the catalog, the invoker
  and the ranking policy. The catalog answers consistently within one request.
\<close>

section \<open>Application and state\<close>

text \<open>
  What \<open>create_app\<close> closes over: the catalog and the invoker, the ranking policy, whether
  \<open>jsonschema\<close> is installed, \<open>json.loads\<close> and the environment of the signing module.
\<close>

record 'e app =
  app_catalog :: catalog_ops
  app_invoke :: "'e invoke_fn"
  app_policy :: policy
  app_validator :: "validator option"
  app_loads :: "pystr \<Rightarrow> exn + json"
  app_sign :: sign_env

text \<open>
  The mutable state: the metrics store, the composites, the files the signing module sees,
  the events sent on the chat stream that is open, and the world.
\<close>

record 'e app_state =
  as_store :: metrics_store
  as_composites :: "(pystr, composite) dict"
  as_files :: files
  as_sent :: "json list"
  as_world :: "'e world"

definition on_world :: "('e world, 'a) io \<Rightarrow> ('e app_state, 'a) io" where
  "on_world m s = (let (r, w) = m (as_world s) in (r, s\<lparr>as_world := w\<rparr>))"

definition on_files :: "(files, 'a) io \<Rightarrow> ('e app_state, 'a) io" where
  "on_files m s = (let (r, fs) = m (as_files s) in (r, s\<lparr>as_files := fs\<rparr>))"

definition store_now :: "('e app_state, metrics_store) io" where
  "store_now s = (Inr (as_store s), s)"

definition store_record :: "pystr \<Rightarrow> bool \<Rightarrow> float64 \<Rightarrow> ('e app_state, unit) io" where
  "store_record fid success latency_ms s =
     (Inr (), s\<lparr>as_store := record_outcome (as_store s) fid success latency_ms\<rparr>)"

definition composites_now :: "('e app_state, (pystr, composite) dict) io" where
  "composites_now s = (Inr (as_composites s), s)"

definition publish :: "composite \<Rightarrow> ('e app_state, unit) io" where
  "publish k s = (Inr (), s\<lparr>as_composites := dict_set (k_name k) k (as_composites s)\<rparr>)"

definition send :: "json \<Rightarrow> ('e app_state, unit) io" where
  "send event s = (Inr (), s\<lparr>as_sent := as_sent s @ [event]\<rparr>)"

definition http_error :: "nat \<Rightarrow> pystr \<Rightarrow> ('s, 'a) io" where
  "http_error code detail = raiseM (HTTPException code (Inl detail))"

section \<open>Providers\<close>

text \<open>\<open>_providers\<close>\<close>

definition providers :: "'e app \<Rightarrow> pystr \<Rightarrow> pystr option \<Rightarrow> pystr option \<Rightarrow> exn + feature list" where
  "providers a capability vendor version =
     bindE (cat_list (app_catalog a) None None) (\<lambda>fs.
     let out = filter (\<lambda>f. f_capability f = capability) fs;
         out1 = (if given vendor then filter (\<lambda>f. f_vendor f = the vendor) out else out) in
     if given version then filterE (\<lambda>f. match_version (f_version f) (the version)) out1 else Inr out1)"

text \<open>\<open>policy.rank(_providers(...), store)\<close>\<close>

definition ranked_providers ::
  "'e app \<Rightarrow> pystr \<Rightarrow> pystr option \<Rightarrow> pystr option \<Rightarrow> ('e app_state, feature list) io" where
  "ranked_providers a capability vendor version =
     bindM (liftE (providers a capability vendor version)) (\<lambda>fs.
     bindM store_now (\<lambda>store.
     liftE (policy_rank (app_policy a) store fs)))"

section \<open>Discovery\<close>

definition info :: json where
  "info =
     JObj [(lit ''service'', JStr (lit ''agent-features-gateway'')), (lit ''version'', JStr (lit ''0.1.0'')),
       (lit ''ui'', JStr (lit ''/ui'')),
       (lit ''endpoints'', JList [JStr (lit ''/health''), JStr (lit ''/features''), JStr (lit ''/features/{name}''),
         JStr (lit ''/features/{name}/invoke''), JStr (lit ''/mcp'')])]"

definition health :: json where
  "health = JObj [(lit ''status'', JStr (lit ''ok''))]"

definition list_features :: "'e app \<Rightarrow> pystr option \<Rightarrow> pystr option \<Rightarrow> ('e app_state, feature list) io" where
  "list_features a tag q =
     liftE (cat_list (app_catalog a) q (if given tag then Some [the tag] else None))"

definition unknown_feature :: "pystr \<Rightarrow> ('s, 'a) io" where
  "unknown_feature name = http_error 404 (lit ''unknown feature: '' @ name)"

definition get_feature :: "'e app \<Rightarrow> pystr \<Rightarrow> ('e app_state, feature) io" where
  "get_feature a name =
     bindM (liftE (cat_get (app_catalog a) name)) (\<lambda>feature.
     case feature of None \<Rightarrow> unknown_feature name | Some f \<Rightarrow> returnM f)"

definition feature_signature :: "'e app \<Rightarrow> pystr \<Rightarrow> ('e app_state, json_obj) io" where
  "feature_signature a name =
     bindM (liftE (cat_get (app_catalog a) name)) (\<lambda>feature.
     case feature of
       None \<Rightarrow> unknown_feature name
     | Some f \<Rightarrow>
         bindM (liftE (cat_list (app_catalog a) None None)) (\<lambda>fs.
         let sig_bundle = resolve_bundle (app_sign a) (f_name f) (map f_name fs) in
         on_files (verify (app_sign a) (f_name f) (manifest_json (f_manifest f)) sig_bundle)))"

definition list_capabilities :: "'e app \<Rightarrow> ('e app_state, capability_summary list) io" where
  "list_capabilities a = liftE (cat_capabilities (app_catalog a))"

definition unknown_capability :: "pystr \<Rightarrow> ('s, 'a) io" where
  "unknown_capability capability = http_error 404 (lit ''unknown capability: '' @ capability)"

definition get_capability :: "'e app \<Rightarrow> pystr \<Rightarrow> ('e app_state, feature list) io" where
  "get_capability a capability =
     bindM (liftE (providers a capability None None)) (\<lambda>fs.
     if fs = [] then unknown_capability capability
     else bindM store_now (\<lambda>store. liftE (policy_rank (app_policy a) store fs)))"

definition score_entry :: "policy \<Rightarrow> metrics_store \<Rightarrow> feature \<Rightarrow> provider_score" where
  "score_entry pol store f =
     (let m = store (feature_id f) in
      \<lparr>ps_feature_id = feature_id f, ps_vendor = f_vendor f, ps_version = f_version f,
       ps_score = py_round (policy_score pol store f) 4,
       ps_invocations = (case m of None \<Rightarrow> 0 | Some x \<Rightarrow> fm_invocations x),
       ps_success_rate = (case m of None \<Rightarrow> None | Some x \<Rightarrow> success_rate x),
       ps_avg_latency_ms =
         (case m of
            None \<Rightarrow> None
          | Some x \<Rightarrow> (case avg_latency_ms x of
              None \<Rightarrow> None | Some l \<Rightarrow> if l \<noteq> 0 then Some (py_round l 3) else None))\<rparr>)"

definition capability_ranking :: "'e app \<Rightarrow> pystr \<Rightarrow> ('e app_state, provider_score list) io" where
  "capability_ranking a capability =
     bindM (liftE (providers a capability None None)) (\<lambda>fs.
     if fs = [] then unknown_capability capability
     else bindM store_now (\<lambda>store.
       bindM (liftE (policy_rank (app_policy a) store fs)) (\<lambda>ranked.
       returnM (map (score_entry (app_policy a) store) ranked))))"

section \<open>Invocation\<close>

text \<open>
  The steps the three invocation paths share: \<open>invoker.invoke\<close>, a rejected input answered
  without recording, an unavailable feature recorded as a failure, and a success recorded
  with its latency. Any other exception passes.
\<close>

definition attempt ::
  "'e app \<Rightarrow> feature \<Rightarrow> json \<Rightarrow> request_context \<Rightarrow> ('e app_state, 'a) io \<Rightarrow> ('e app_state, 'a) io \<Rightarrow>
   (invoke_result \<Rightarrow> ('e app_state, 'a) io) \<Rightarrow> ('e app_state, 'a) io" where
  "attempt a feature payload context rejected unavailable answer =
     bindM (tryM (bindM (on_world (app_invoke a (f_name feature) payload context)) (\<lambda>r. returnM (Inr r)))
        (except_feature
           (bindM rejected (\<lambda>x. returnM (Inl x)))
           (bindM (store_record (feature_id feature) False 0) (\<lambda>_. bindM unavailable (\<lambda>x. returnM (Inl x))))))
     (\<lambda>outcome. case outcome of
        Inl x \<Rightarrow> returnM x
      | Inr result \<Rightarrow>
          bindM (store_record (feature_id feature) True (res_latency_ms result)) (\<lambda>_. answer result))"

text \<open>\<open>_invoke\<close>\<close>

definition gw_invoke :: "'e app \<Rightarrow> feature \<Rightarrow> invoke_request \<Rightarrow> ('e app_state, invoke_response) io" where
  "gw_invoke a feature body =
     bindM (liftE (collect_errors (app_validator a) (JObj (r_input body)) (m_input_schema (f_manifest feature))))
     (\<lambda>input_errors.
     if input_errors \<noteq> [] then raiseM (HTTPException 422 (Inr input_errors))
     else attempt a feature (JObj (r_input body)) (r_context body)
       (http_error 422 (lit ''feature '' @ quoted (f_name feature) @ lit '' rejected the input''))
       (http_error 503 (lit ''feature '' @ quoted (f_name feature) @ lit '' is currently unavailable''))
       (\<lambda>result. returnM
          \<lparr>ir_feature = f_name feature, ir_version = f_version feature, ir_output = res_output result,
           ir_latency_ms = res_latency_ms result, ir_vendor = f_vendor feature\<rparr>))"

definition invoke_feature :: "'e app \<Rightarrow> pystr \<Rightarrow> invoke_request \<Rightarrow> ('e app_state, invoke_response) io" where
  "invoke_feature a name body =
     bindM (liftE (cat_get (app_catalog a) name)) (\<lambda>feature.
     case feature of None \<Rightarrow> unknown_feature name | Some f \<Rightarrow> gw_invoke a f body)"

definition pin_text :: "string \<Rightarrow> pystr option \<Rightarrow> pystr" where
  "pin_text label pin = (if given pin then lit '' ('' @ lit label @ lit ''='' @ the pin @ lit '')'' else [])"

definition no_provider :: "pystr \<Rightarrow> pystr" where
  "no_provider capability = lit ''no provider for capability '' @ quoted capability"

definition invoke_capability ::
  "'e app \<Rightarrow> pystr \<Rightarrow> invoke_request \<Rightarrow> pystr option \<Rightarrow> pystr option \<Rightarrow> ('e app_state, invoke_response) io" where
  "invoke_capability a capability body vendor version =
     bindM (ranked_providers a capability vendor version) (\<lambda>ranked.
     case ranked of
       [] \<Rightarrow> http_error 404 (no_provider capability @ pin_text ''vendor'' vendor @ pin_text ''version'' version)
     | f # _ \<Rightarrow> gw_invoke a f body)"

section \<open>Composition\<close>

text \<open>\<open>_run_capability\<close>\<close>

definition run_capability :: "'e app \<Rightarrow> 'e app_state capability_invoke" where
  "run_capability a capability input_dict vendor version =
     bindM (ranked_providers a capability vendor version) (\<lambda>ranked.
     case ranked of
       [] \<Rightarrow> returnM (None, Some (no_provider capability))
     | feature # _ \<Rightarrow>
         bindM (liftE (collect_errors (app_validator a) (JObj input_dict) (m_input_schema (f_manifest feature))))
         (\<lambda>errors.
         if errors \<noteq> [] then returnM (None, Some (lit ''invalid input: '' @ join (lit ''; '') errors))
         else attempt a feature (JObj input_dict) default_context
           (returnM (None, Some (lit ''the feature rejected the input'')))
           (returnM (None, Some (lit ''the provider is currently unavailable'')))
           (\<lambda>result. returnM (Some (res_output result), None))))"

definition initial_composites :: "(pystr, composite) dict" where
  "initial_composites = dict_of (map (\<lambda>c. (k_name c, c)) build_dev_composites)"

text \<open>\<open>_composite_summary\<close>\<close>

definition summary_of_composite :: "composite \<Rightarrow> composite_summary" where
  "summary_of_composite c =
     \<lparr>q_name = k_name c, q_capability = k_capability c, q_description = k_description c,
      q_steps = map (\<lambda>s. (s_name s, s_capability s)) (k_steps c)\<rparr>"

definition list_composites :: "('e app_state, composite_summary list) io" where
  "list_composites =
     bindM composites_now (\<lambda>composites. returnM (map summary_of_composite (dict_values composites)))"

definition unknown_composite :: "pystr \<Rightarrow> ('s, 'a) io" where
  "unknown_composite name = http_error 404 (lit ''unknown composite: '' @ name)"

definition get_composite :: "pystr \<Rightarrow> ('e app_state, composite) io" where
  "get_composite name =
     bindM composites_now (\<lambda>composites.
     case dict_get composites name of None \<Rightarrow> unknown_composite name | Some c \<Rightarrow> returnM c)"

definition compose :: "composite \<Rightarrow> ('e app_state, composite_summary) io" where
  "compose spec = bindM (publish spec) (\<lambda>_. returnM (summary_of_composite spec))"

definition invoke_composite ::
  "'e app \<Rightarrow> pystr \<Rightarrow> invoke_request \<Rightarrow> ('e app_state, composite_result) io" where
  "invoke_composite a name body =
     bindM composites_now (\<lambda>composites.
     case dict_get composites name of
       None \<Rightarrow> unknown_composite name
     | Some c \<Rightarrow>
         bindM (liftE (collect_errors (app_validator a) (JObj (r_input body)) (k_input_schema c))) (\<lambda>errors.
         if errors \<noteq> [] then raiseM (HTTPException 422 (Inr errors))
         else composer_run (run_capability a) c (r_input body)))"

section \<open>Compiling agents\<close>

text \<open>\<open>model_dump()\<close> of a summary and of a composite.\<close>

definition opt_json :: "pystr option \<Rightarrow> json" where
  "opt_json v = (case v of None \<Rightarrow> JNull | Some s \<Rightarrow> JStr s)"

definition refs_json :: "(pystr, pystr) dict \<Rightarrow> json" where
  "refs_json d = JObj (map (\<lambda>(k, r). (k, JStr r)) d)"

definition summary_json :: "composite_summary \<Rightarrow> json" where
  "summary_json q =
     JObj [(lit ''name'', JStr (q_name q)), (lit ''capability'', JStr (q_capability q)),
       (lit ''description'', JStr (q_description q)),
       (lit ''steps'', JList (map (\<lambda>(n, c). JObj [(lit ''name'', JStr n), (lit ''capability'', JStr c)]) (q_steps q)))]"

definition composite_json :: "composite \<Rightarrow> json" where
  "composite_json c =
     JObj [(lit ''name'', JStr (k_name c)), (lit ''capability'', JStr (k_capability c)),
       (lit ''description'', JStr (k_description c)), (lit ''input_schema'', JObj (k_input_schema c)),
       (lit ''steps'', JList (map (\<lambda>s. JObj [(lit ''name'', JStr (s_name s)),
          (lit ''capability'', JStr (s_capability s)), (lit ''vendor'', opt_json (s_vendor s)),
          (lit ''version'', opt_json (s_version s)), (lit ''inputs'', refs_json (s_inputs s))]) (k_steps c))),
       (lit ''output'', refs_json (k_output c))]"

definition compile_agent :: "json \<Rightarrow> ('e app_state, json) io" where
  "compile_agent body =
     bindM (liftE (as_dict body)) (\<lambda>b.
     let source = py_str (get_or b (lit ''source'') (JStr []));
         publishes = truthy (get_or b (lit ''publish'') JNull) in
     case parse source of
       (None, errors) \<Rightarrow>
         returnM (JObj [(lit ''ok'', JBool False), (lit ''errors'', JList (map JStr errors)),
           (lit ''agent'', JNull), (lit ''composite'', JNull), (lit ''code'', JObj [])])
     | (Some c, errors) \<Rightarrow>
         bindM (if publishes then publish c else returnM ()) (\<lambda>_.
         bindM (liftE (mapE (\<lambda>lang. bindE (codegen c lang) (\<lambda>code. Inr (lang, JStr code))) LANGUAGES)) (\<lambda>code.
         returnM (JObj [(lit ''ok'', JBool True), (lit ''errors'', JList []),
           (lit ''published'', JBool publishes), (lit ''agent'', summary_json (summary_of_composite c)),
           (lit ''composite'', composite_json c), (lit ''code'', JObj code)]))))"

section \<open>Chat\<close>

definition status_event :: "pystr \<Rightarrow> json" where
  "status_event t = JObj [(lit ''type'', JStr (lit ''status'')), (lit ''text'', JStr t)]"

definition error_event :: "pystr \<Rightarrow> json" where
  "error_event t = JObj [(lit ''type'', JStr (lit ''error'')), (lit ''message'', JStr t)]"

definition result_event :: "feature \<Rightarrow> invoke_result \<Rightarrow> json" where
  "result_event f r =
     JObj [(lit ''type'', JStr (lit ''result'')), (lit ''feature'', JStr (f_name f)), (lit ''vendor'', JStr (f_vendor f)),
       (lit ''output'', JObj (res_output r)), (lit ''latency_ms'', JFloat (res_latency_ms r))]"

fun send_all :: "json list \<Rightarrow> ('e app_state, unit) io" where
  "send_all [] = returnM ()"
| "send_all (e # es) = bindM (send e) (\<lambda>_. send_all es)"

definition help_lines :: "pystr list" where
  "help_lines =
     [lit ''Commands:'',
      lit ''  <feature> {json}         invoke a feature'',
      lit ''  cap:<capability> {json}  invoke the best-ranked provider'',
      lit ''  list                     list available features'']"

text \<open>The feature a command names; an error event has been sent when there is none.\<close>

definition chat_target :: "'e app \<Rightarrow> pystr \<Rightarrow> ('e app_state, feature option) io" where
  "chat_target a hd_word =
     (if startswith hd_word (lit ''cap:'') then
        (let capability = drop 4 hd_word in
         bindM (send (status_event (lit ''resolving capability '' @ quoted capability @ [Ellipsis]))) (\<lambda>_.
         bindM (ranked_providers a capability None None) (\<lambda>ranked.
         case ranked of
           [] \<Rightarrow> bindM (send (error_event (no_provider capability))) (\<lambda>_. returnM None)
         | f # _ \<Rightarrow> returnM (Some f))))
      else
        bindM (liftE (cat_get (app_catalog a) hd_word)) (\<lambda>feature.
        case feature of
          None \<Rightarrow> bindM (send (error_event (lit ''unknown feature '' @ quoted hd_word @
                    lit '' (try '' @ quoted (lit ''list'') @ lit '')''))) (\<lambda>_. returnM None)
        | Some f \<Rightarrow> returnM (Some f)))"

definition chat_invoke :: "'e app \<Rightarrow> feature \<Rightarrow> json \<Rightarrow> ('e app_state, unit) io" where
  "chat_invoke a feature payload =
     bindM (send (status_event (lit ''invoking '' @ f_vendor feature @ lit ''/'' @ f_name feature @ [Ellipsis]))) (\<lambda>_.
     bindM (liftE (collect_errors (app_validator a) payload (m_input_schema (f_manifest feature)))) (\<lambda>errors.
     if errors \<noteq> [] then send (error_event (lit ''invalid input: '' @ join (lit ''; '') errors))
     else attempt a feature payload default_context
       (send (error_event (lit ''the feature rejected the input'')))
       (send (error_event (lit ''the feature is currently unavailable'')))
       (\<lambda>result. send (result_event feature result))))"

definition chat_command :: "'e app \<Rightarrow> pystr \<Rightarrow> ('e app_state, unit) io" where
  "chat_command a t =
     (let (hd_word, tail) = partition_on (Lat (CHR '' '')) t in
      case (if strip tail \<noteq> [] then app_loads a tail else Inr (JObj [])) of
        Inl ValueError \<Rightarrow> send (error_event (lit ''the text after the command must be valid JSON''))
      | Inl e \<Rightarrow> raiseM e
      | Inr payload \<Rightarrow>
          bindM (chat_target a hd_word) (\<lambda>target.
          case target of None \<Rightarrow> returnM () | Some f \<Rightarrow> chat_invoke a f payload))"

text \<open>\<open>_chat\<close>\<close>

definition chat :: "'e app \<Rightarrow> pystr \<Rightarrow> ('e app_state, unit) io" where
  "chat a txt =
     (let t = strip txt in
      if t = [] \<or> t = lit ''help'' then send_all (map status_event help_lines)
      else if t = lit ''list'' then
        bindM (send (status_event (lit ''features:''))) (\<lambda>_.
        bindM (liftE (cat_list (app_catalog a) None None)) (\<lambda>fs.
        send_all (map (\<lambda>f. status_event (lit ''  '' @ f_name f @ lit '' ('' @ f_capability f @ lit '')'')) fs)))
      else chat_command a t)"

definition sse :: "json \<Rightarrow> pystr" where
  "sse event = lit ''data: '' @ dumps event @ [Lat (CHR 0x0A), Lat (CHR 0x0A)]"

text \<open>
  The response has started when the generator runs: an exception in it cuts the stream after
  the frames sent so far. The answer is those frames and the exception, if any.
\<close>

definition stream_events :: "'e app \<Rightarrow> pystr \<Rightarrow> ('e app_state, pystr list \<times> exn option) io" where
  "stream_events a txt s =
     (let (r, s') = chat a txt (s\<lparr>as_sent := []\<rparr>) in
      (Inr (map sse (as_sent s'), (case r of Inl e \<Rightarrow> Some e | Inr _ \<Rightarrow> None)), s'\<lparr>as_sent := []\<rparr>))"

definition chat_stream :: "'e app \<Rightarrow> json \<Rightarrow> ('e app_state, pystr list \<times> exn option) io" where
  "chat_stream a body =
     bindM (liftE (as_dict body)) (\<lambda>b. stream_events a (py_str (get_or b (lit ''message'') (JStr []))))"

section \<open>MCP\<close>

definition mcp_endpoint :: "'e app \<Rightarrow> json \<Rightarrow> ('e app_state, json option) io" where
  "mcp_endpoint a message = on_world (handle (app_validator a) (app_catalog a) (app_invoke a) message)"

section \<open>Routes\<close>

definition ui_redirect :: pystr where
  "ui_redirect = lit ''/ui/''"

datatype request =
    GetInfo | GetHealth | GetUi
  | GetFeatures "pystr option" "pystr option"
  | GetFeature pystr
  | GetSignature pystr
  | PostInvoke pystr invoke_request
  | GetCapabilities
  | GetCapability pystr
  | GetRanking pystr
  | PostCapability pystr invoke_request "pystr option" "pystr option"
  | GetComposites
  | GetComposite pystr
  | PostCompose composite
  | PostCompile json
  | PostComposite pystr invoke_request
  | PostChat json
  | PostMcp json

datatype response =
    Doc json
  | Redirect pystr
  | Features "feature list"
  | OneFeature feature
  | Invoked invoke_response
  | Capabilities "capability_summary list"
  | Ranked "provider_score list"
  | Summaries "composite_summary list"
  | OneComposite composite
  | Published composite_summary
  | Ran composite_result
  | Streamed "pystr list" "exn option"
  | Rpc "json option"

definition answer :: "('s, 'a) io \<Rightarrow> ('a \<Rightarrow> response) \<Rightarrow> ('s, response) io" where
  "answer m r = bindM m (\<lambda>x. returnM (r x))"

text \<open>The routes. A composite in a request body is constructed, which completes it.\<close>

fun serve :: "'e app \<Rightarrow> request \<Rightarrow> ('e app_state, response) io" where
  "serve a GetInfo = answer (returnM info) Doc"
| "serve a GetHealth = answer (returnM health) Doc"
| "serve a GetUi = answer (returnM ui_redirect) Redirect"
| "serve a (GetFeatures tag q) = answer (list_features a tag q) Features"
| "serve a (GetFeature name) = answer (get_feature a name) OneFeature"
| "serve a (GetSignature name) = answer (feature_signature a name) (\<lambda>d. Doc (JObj d))"
| "serve a (PostInvoke name body) = answer (invoke_feature a name body) Invoked"
| "serve a GetCapabilities = answer (list_capabilities a) Capabilities"
| "serve a (GetCapability c) = answer (get_capability a c) Features"
| "serve a (GetRanking c) = answer (capability_ranking a c) Ranked"
| "serve a (PostCapability c body vendor version) = answer (invoke_capability a c body vendor version) Invoked"
| "serve a GetComposites = answer list_composites Summaries"
| "serve a (GetComposite name) = answer (get_composite name) OneComposite"
| "serve a (PostCompose spec) = answer (compose (post_init spec)) Published"
| "serve a (PostCompile body) = answer (compile_agent body) Doc"
| "serve a (PostComposite name body) = answer (invoke_composite a name body) Ran"
| "serve a (PostChat body) = answer (chat_stream a body) (\<lambda>(frames, cut). Streamed frames cut)"
| "serve a (PostMcp message) = answer (mcp_endpoint a message) Rpc"

section \<open>create_app\<close>

text \<open>The environment variables the module reads.\<close>

type_synonym environ = "pystr \<rightharpoonup> pystr"

definition choose_policy :: "environ \<Rightarrow> policy" where
  "choose_policy env =
     (if env (lit ''AGENT_FEATURES_RANKING'') = Some (lit ''baseline'') then BaselinePolicy
      else MetricsPolicy metrics_policy_init)"

definition features_namespace :: "environ \<Rightarrow> pystr" where
  "features_namespace env =
     (case env (lit ''FEATURES_NAMESPACE'') of None \<Rightarrow> lit ''features'' | Some ns \<Rightarrow> ns)"

text \<open>The Kubernetes catalog of a namespace and the gRPC invoker that resolves through it.\<close>

definition cluster_pair ::
  "(pystr \<Rightarrow> exn + json) \<Rightarrow> (pystr \<Rightarrow> k8s_api) \<Rightarrow> (json \<Rightarrow> exn + unit) \<Rightarrow> ('c, 'q, 'r, 'x) grpc_api \<Rightarrow>
   environ \<Rightarrow> catalog_ops \<times> ('c, 'x) grpc_env invoke_fn" where
  "cluster_pair loads api other grpc env =
     (let k8s_catalog = k8s_ops loads (api (features_namespace env)) other in
      (k8s_catalog, grpc_invoke grpc (cluster_resolve (cat_get k8s_catalog))))"

definition dev_pair :: "'e handler list \<Rightarrow> catalog_ops \<times> 'e invoke_fn" where
  "dev_pair handlers = (in_memory_ops dev_catalog, dev_invoker handlers)"

definition choose_services ::
  "environ \<Rightarrow> catalog_ops \<times> 'e invoke_fn \<Rightarrow> catalog_ops \<times> 'e invoke_fn \<Rightarrow>
   catalog_ops option \<Rightarrow> 'e invoke_fn option \<Rightarrow> catalog_ops \<times> 'e invoke_fn" where
  "choose_services env cluster dev given_catalog given_invoker =
     (let (catalog1, invoke1) =
        (if Option.is_none given_catalog \<and> Option.is_none given_invoker \<and> env (lit ''AGENT_FEATURES_MODE'') = Some (lit ''cluster'')
         then (Some (fst cluster), Some (snd cluster)) else (given_catalog, given_invoker)) in
      (case catalog1 of None \<Rightarrow> fst dev | Some c \<Rightarrow> c, case invoke1 of None \<Rightarrow> snd dev | Some i \<Rightarrow> i))"

definition create_app ::
  "environ \<Rightarrow> catalog_ops \<times> 'e invoke_fn \<Rightarrow> catalog_ops \<times> 'e invoke_fn \<Rightarrow> validator option \<Rightarrow>
   (pystr \<Rightarrow> exn + json) \<Rightarrow> sign_env \<Rightarrow> catalog_ops option \<Rightarrow> 'e invoke_fn option \<Rightarrow> 'e app" where
  "create_app env cluster dev vld loads sign given_catalog given_invoker =
     (let (c, i) = choose_services env cluster dev given_catalog given_invoker in
      \<lparr>app_catalog = c, app_invoke = i, app_policy = choose_policy env, app_validator = vld,
       app_loads = loads, app_sign = sign\<rparr>)"

text \<open>The state it starts in: an empty store and the composites that ship with the gateway.\<close>

definition start_state :: "files \<Rightarrow> 'e world \<Rightarrow> 'e app_state" where
  "start_state fs w =
     \<lparr>as_store = Map.empty, as_composites = initial_composites, as_files = fs, as_sent = [], as_world = w\<rparr>"

end
