(* ===== verification/Requests.thy ===== *)
theory Requests
  imports Gateway
begin

text \<open>
  What a request can do to the application. One invocation is summarised by the state it
  leaves; from it the locale \<open>request_bound\<close> derives, once, that a bound on the single effects
  is a bound on every request. Its interpretations are the invariant of the state and the
  bookkeeping of invocations.
\<close>

section \<open>One invocation\<close>

text \<open>The state after the invoker has answered and the outcome has been recorded.\<close>

fun after_call :: "feature \<Rightarrow> 'e app_state \<Rightarrow> exn + invoke_result \<Rightarrow> 'e world \<Rightarrow> 'e app_state" where
  "after_call f s (Inr res) w =
     s\<lparr>as_world := w, as_store := record_outcome (as_store s) (feature_id f) True (res_latency_ms res)\<rparr>"
| "after_call f s (Inl (FeatureUnavailable m)) w =
     s\<lparr>as_world := w, as_store := record_outcome (as_store s) (feature_id f) False 0\<rparr>"
| "after_call f s (Inl e) w = s\<lparr>as_world := w\<rparr>"

lemma attempt_run:
  assumes "app_invoke a (f_name f) p c (as_world s) = (r, w)"
  shows "attempt a f p c rejected unavailable ans s =
     (case r of
        Inr res \<Rightarrow> ans res (after_call f s r w)
      | Inl (FeatureInputError m) \<Rightarrow> rejected (after_call f s r w)
      | Inl (FeatureUnavailable m) \<Rightarrow> unavailable (after_call f s r w)
      | Inl e \<Rightarrow> (Inl e, after_call f s r w))"
proof (cases r)
  case (Inl e)
  then show ?thesis using assms
    by (cases e) (auto simp: attempt_def bindM_def tryM_def on_world_def except_feature_def store_record_def
        returnM_run split: sum.splits prod.splits)
next
  case (Inr res)
  then show ?thesis using assms
    by (auto simp: attempt_def bindM_def tryM_def on_world_def store_record_def returnM_run)
qed

section \<open>Bounds on requests\<close>

text \<open>A feature the catalog answers with, by name or in its list.\<close>

definition offers :: "catalog_ops \<Rightarrow> feature \<Rightarrow> bool" where
  "offers cat f \<longleftrightarrow>
     (\<exists>n. cat_get cat n = Inr (Some f)) \<or> (\<exists>fs. cat_list cat None None = Inr fs \<and> f \<in> set fs)"

lemma providers_set:
  "providers a c v r = Inr fs \<Longrightarrow> f \<in> set fs \<Longrightarrow> \<exists>all. cat_list (app_catalog a) None None = Inr all \<and> f \<in> set all"
  by (auto simp: providers_def Let_def exn_simps split: if_splits dest!: filterE_eq_Inr)

lemma ranked_offers:
  assumes "ranked_providers a c v r s = (Inr fs, s')" and "f \<in> set fs"
  shows "offers (app_catalog a) f"
proof -
  from assms(1) obtain ps where "providers a c v r = Inr ps" "policy_rank (app_policy a) (as_store s) ps = Inr fs"
    by (auto simp: ranked_providers_def bindM_liftE liftE_run bindM_def store_now_def split: sum.splits)
  with assms(2) show ?thesis using providers_set [of a c v r ps f] active.rank_set [of "app_policy a" "as_store s" ps fs]
    by (auto simp: offers_def)
qed

lemma ranked_first: "ranked_providers a c v r s = (Inr (f # fs), s') \<Longrightarrow> offers (app_catalog a) f"
  by (erule ranked_offers) simp

text \<open>A payload that may reach a feature: the feature is offered and its schema finds no error.\<close>

definition admitted :: "'e app \<Rightarrow> feature \<Rightarrow> json \<Rightarrow> bool" where
  "admitted a f p \<longleftrightarrow> offers (app_catalog a) f
     \<and> collect_errors (app_validator a) p (m_input_schema (f_manifest f)) = Inr []"

locale request_bound = effect_bound R
  for R :: "'e app_state \<Rightarrow> 'e app_state \<Rightarrow> bool" +
  fixes a :: "'e app"
  assumes sends: "R s (s\<lparr>as_sent := es\<rparr>)"
    and publishes: "post_init k = k \<Longrightarrow> R s (s\<lparr>as_composites := dict_set (k_name k) k (as_composites s)\<rparr>)"
    and writes: "R s (s\<lparr>as_files := fs\<rparr>)"
    and invokes: "admitted a f p \<Longrightarrow> app_invoke a (f_name f) p c (as_world s) = (r, w) \<Longrightarrow> R s (after_call f s r w)"
begin

lemma moves_attempt:
  assumes "admitted a f p" "moves R rejected" "moves R unavailable" "\<And>res. moves R (ans res)"
  shows "moves R (attempt a f p c rejected unavailable ans)"
  unfolding moves_def
proof
  fix s :: "'e app_state"
  obtain r w where r: "app_invoke a (f_name f) p c (as_world s) = (r, w)" by (cases "app_invoke a (f_name f) p c (as_world s)")
  have step: "R s (after_call f s r w)" using assms(1) r by (rule invokes)
  have on: "moves R m \<Longrightarrow> R s (snd (m (after_call f s r w)))" for m :: "('e app_state, 'b) io"
    using R_trans [OF step] by (simp add: moves_def)
  show "R s (snd (attempt a f p c rejected unavailable ans s))"
    unfolding attempt_run [OF r] using on [OF assms(2)] on [OF assms(3)] on [OF assms(4)] step
    by (auto split: sum.splits exn.splits)
qed

lemma moves_prims:
  "moves R store_now" "moves R composites_now" "moves R (send e)" "moves R (on_files m)"
  by (auto simp: moves_def store_now_def composites_now_def send_def on_files_def R_refl sends writes split: prod.splits)

lemma moves_publish: "post_init k = k \<Longrightarrow> moves R (publish k)"
  by (simp add: moves_def publish_def publishes)

lemma moves_bind_returned:
  "moves R m \<Longrightarrow> (\<And>s x s'. m s = (Inr x, s') \<Longrightarrow> moves R (k x)) \<Longrightarrow> moves R (bindM m k)"
  unfolding moves_def bindM_def
  by (auto split: prod.splits sum.splits) (metis R_trans snd_conv)+

lemma moves_list_case:
  "moves R m \<Longrightarrow> (\<And>y ys. moves R (k y ys)) \<Longrightarrow> moves R (case xs of [] \<Rightarrow> m | y # ys \<Rightarrow> k y ys)"
  by (cases xs) auto

lemma moves_http_error: "moves R (http_error c d)"
  by (simp add: http_error_def moves_raise)

lemmas moves_steps = moves_prims moves_http_error moves_attempt moves_list_case moves_intros

lemma moves_ranked: "moves R (ranked_providers a c v r)"
  unfolding ranked_providers_def by (intro moves_steps)

lemma moves_checked:
  assumes "offers (app_catalog a) f" "\<And>es. moves R (bad es)" "admitted a f p \<Longrightarrow> moves R k"
  shows "moves R (bindM (liftE (collect_errors (app_validator a) p (m_input_schema (f_manifest f))))
     (\<lambda>es. if es \<noteq> [] then bad es else k))"
  by (rule moves_bind_returned [OF moves_lift]) (auto intro!: assms simp: admitted_def liftE_run)

lemma moves_gw_invoke: "offers (app_catalog a) f \<Longrightarrow> moves R (gw_invoke a f body)"
  unfolding gw_invoke_def by (intro moves_checked moves_steps)

lemma moves_best:
  assumes "moves R m" "\<And>f. offers (app_catalog a) f \<Longrightarrow> moves R (k f)"
  shows "moves R (bindM (ranked_providers a c v r) (\<lambda>fs. case fs of [] \<Rightarrow> m | f # _ \<Rightarrow> k f))"
  by (rule moves_bind_returned [OF moves_ranked])
    (auto intro!: assms dest!: ranked_first split: list.splits)

lemma moves_found:
  assumes "moves R m" "\<And>f. offers (app_catalog a) f \<Longrightarrow> moves R (k f)"
  shows "moves R (bindM (liftE (cat_get (app_catalog a) n)) (\<lambda>r. case r of None \<Rightarrow> m | Some f \<Rightarrow> k f))"
  by (rule moves_bind_returned [OF moves_lift])
    (auto intro!: assms simp: offers_def liftE_run split: option.splits)

lemma moves_run_capability: "moves R (run_capability a c i v r)"
  unfolding run_capability_def by (intro moves_best moves_checked moves_steps)

lemma moves_compile: "moves R (compile_agent body)"
proof -
  have "post_init k = k" if "parse t = (Some k, es)" for t k es
    using parse_result_wf [of t] that by (simp add: post_init_def)
  then show ?thesis
    unfolding compile_agent_def
    by (auto intro!: moves_steps moves_publish simp: Let_def split: prod.splits option.splits)
qed

lemma moves_send_all: "moves R (send_all es)"
  by (induction es) (auto intro!: moves_steps)

lemma moves_chat_target: "moves R (chat_target a h)"
  unfolding chat_target_def Let_def by (intro moves_steps moves_ranked)

lemma chat_target_offers:
  assumes "chat_target a h s = (Inr (Some f), s')"
  shows "offers (app_catalog a) f"
proof (cases "startswith h (lit ''cap:'')")
  case True
  with assms obtain fs s1 s2 where "ranked_providers a (drop 4 h) None None s1 = (Inr (f # fs), s2)"
    by (auto simp: chat_target_def Let_def bindM_eq_Inr send_def returnM_run neq_Nil_conv split: list.split_asm)
  then show ?thesis by (rule ranked_first)
next
  case False
  with assms show ?thesis
    by (auto simp: chat_target_def bindM_eq_Inr liftE_run send_def returnM_run offers_def split: option.splits)
qed

lemma moves_chat_invoke: "offers (app_catalog a) f \<Longrightarrow> moves R (chat_invoke a f p)"
  unfolding chat_invoke_def
  by (rule moves_bind [OF moves_prims(3)], intro moves_checked moves_prims moves_attempt)

lemma moves_chat_command: "moves R (chat_command a t)"
proof -
  have "moves R (bindM (chat_target a h) (\<lambda>x. case x of None \<Rightarrow> returnM () | Some f \<Rightarrow> chat_invoke a f p))" for h p
    by (rule moves_bind_returned [OF moves_chat_target])
      (auto intro!: moves_return moves_chat_invoke chat_target_offers split: option.splits)
  then show ?thesis
    unfolding chat_command_def by (auto intro!: moves_steps split: prod.splits sum.splits exn.splits)
qed

lemma moves_chat: "moves R (chat a t)"
  unfolding chat_def Let_def by (intro moves_steps moves_send_all moves_chat_command)

lemma moves_stream: "moves R (stream_events a t)"
  unfolding moves_def
proof
  fix s :: "'e app_state"
  have "R s (snd (chat a t (s\<lparr>as_sent := []\<rparr>)))"
    using moves_chat [of t] sends [of s "[]"] R_trans by (auto simp: moves_def)
  then show "R s (snd (stream_events a t s))"
    using sends [of "snd (chat a t (s\<lparr>as_sent := []\<rparr>))" "[]"] R_trans
    by (fastforce simp: stream_events_def split: prod.splits)
qed

lemma moves_serve:
  assumes "\<And>m. req = PostMcp m \<Longrightarrow> moves R (mcp_endpoint a m)"
  shows "moves R (serve a req)"
proof (cases req)
  case (PostComposite name body)
  then show ?thesis
    by (auto simp: answer_def invoke_composite_def unknown_composite_def
        intro!: moves_steps moves_composer_run moves_run_capability)
next
  case (PostCompose spec)
  have "post_init (post_init spec) = post_init spec" by (simp add: post_init_def)
  then show ?thesis using PostCompose by (auto simp: answer_def compose_def intro!: moves_steps moves_publish)
next
  case (PostInvoke name body)
  then show ?thesis
    unfolding PostInvoke serve.simps answer_def invoke_feature_def unknown_feature_def
    by (intro moves_bind moves_found moves_gw_invoke moves_steps)
next
  case (PostCapability c body v r)
  then show ?thesis
    unfolding PostCapability serve.simps answer_def invoke_capability_def
    by (intro moves_bind moves_best moves_gw_invoke moves_steps)
next
  case (PostChat body)
  then show ?thesis by (auto simp: answer_def chat_stream_def intro!: moves_steps moves_stream split: prod.splits)
next
  case (PostMcp m)
  then show ?thesis using assms by (auto simp: answer_def intro!: moves_steps)
qed (auto simp: answer_def list_features_def get_feature_def unknown_feature_def feature_signature_def Let_def
    list_capabilities_def get_capability_def unknown_capability_def capability_ranking_def
    list_composites_def get_composite_def unknown_composite_def
    intro!: moves_steps moves_ranked moves_compile)

end

section \<open>The invariant of the state\<close>

text \<open>
  The counters are sound, the registry has one entry per name, and every registered composite
  is complete and stands under its own name.
\<close>

definition app_inv :: "'e app_state \<Rightarrow> bool" where
  "app_inv s \<longleftrightarrow> store_ok (as_store s) \<and> dict_ok (as_composites s)
     \<and> (\<forall>(n, k) \<in> set (as_composites s). k_name k = n \<and> post_init k = k)"

text \<open>
  How the state evolves: the invariant is kept, composites are replaced but not removed,
  counters and time do not go back.
\<close>

definition evolves :: "'e app_state \<Rightarrow> 'e app_state \<Rightarrow> bool" where
  "evolves s s' \<longleftrightarrow> (app_inv s \<longrightarrow> app_inv s')
     \<and> set (dict_keys (as_composites s)) \<subseteq> set (dict_keys (as_composites s'))
     \<and> (\<forall>fid. fst (counts (as_store s) fid) \<le> fst (counts (as_store s') fid)
            \<and> snd (counts (as_store s) fid) \<le> snd (counts (as_store s') fid))
     \<and> w_ns (as_world s) \<le> w_ns (as_world s')"

lemma app_inv_start [simp]: "app_inv (start_state fs w)"
  by (simp add: app_inv_def start_state_def initial_composites_def build_dev_composites_def dict_of_def dict_set_def
      dict_ok_def dict_keys_def post_init_def)

lemma publish_set:
  "dict_ok d \<Longrightarrow> set (dict_set k v d) = {(k', v') \<in> set d. k' \<noteq> k} \<union> {(k, v)}"
proof (induction d)
  case (Cons kv d)
  then show ?case by (auto simp: dict_set_def dict_ok_def dict_keys_def image_iff)
qed (simp add: dict_set_def)

lemma evolves_publish:
  "post_init k = k \<Longrightarrow> evolves s (s\<lparr>as_composites := dict_set (k_name k) k (as_composites s)\<rparr>)"
  by (auto simp: evolves_def app_inv_def publish_set set_dict_keys_set intro: dict_ok_set)

lemma evolves_frame:
  "as_store s' = as_store s \<Longrightarrow> as_composites s' = as_composites s \<Longrightarrow>
   w_ns (as_world s) \<le> w_ns (as_world s') \<Longrightarrow> evolves s s'"
  by (simp add: evolves_def app_inv_def)

lemma evolves_record:
  assumes "0 \<le> l" "as_store s' = record_outcome (as_store s) fid b l" "as_composites s' = as_composites s"
    "w_ns (as_world s) \<le> w_ns (as_world s')"
  shows "evolves s s'"
  using assms by (auto simp: evolves_def app_inv_def counts_record intro: store_ok_record)

interpretation evolution: effect_bound evolves
  by unfold_locales (auto simp: evolves_def intro: order_trans)

locale gateway = invoker "app_invoke a" for a :: "'e app"
begin

lemma evolves_call:
  assumes "app_invoke a n p c (as_world s) = (r, w)"
  shows "evolves s (after_call f s r w)"
proof -
  have t: "w_ns (as_world s) \<le> w_ns w" using movesD [OF clock_forward assms] .
  show ?thesis
  proof (cases r)
    case (Inl e)
    then show ?thesis using t by (cases e) (auto intro: evolves_frame evolves_record [where l = 0 and b = False])
  next
    case (Inr res)
    have "0 \<le> res_latency_ms res" using assms Inr latency_nonneg by blast
    then show ?thesis using t Inr by (auto intro!: evolves_record [where l = "res_latency_ms res" and b = True])
  qed
qed

end

sublocale gateway \<subseteq> bound: request_bound evolves a
  by unfold_locales (auto intro: evolves_frame evolves_publish evolves_call)

context gateway
begin

lemma mcp_evolves: "moves evolves (mcp_endpoint a m)"
proof -
  have "moves (\<lambda>w w'. w_ns w \<le> w_ns w') (call_tool vld cat (app_invoke a) i ps)" for vld cat i ps
    unfolding call_tool_def Let_def tool_failure_def except_feature_def
    by (auto intro!: clock.moves_intros clock_forward split: option.splits prod.splits exn.splits)
  then have "moves (\<lambda>w w'. w_ns w \<le> w_ns w') (handle (app_validator a) (app_catalog a) (app_invoke a) m)"
    unfolding handle_def Let_def by (intro clock.moves_intros)
  then show ?thesis
    by (auto simp: moves_def mcp_endpoint_def on_world_def intro!: evolves_frame split: prod.splits) (metis snd_conv)
qed

lemma serve_evolves: "moves evolves (serve a req)"
  by (rule bound.moves_serve) (rule mcp_evolves)

end

section \<open>The application of the module\<close>

text \<open>\<open>app = create_app()\<close>\<close>

definition module_app ::
  "environ \<Rightarrow> (pystr \<Rightarrow> exn + json) \<Rightarrow> (pystr \<Rightarrow> k8s_api) \<Rightarrow> (json \<Rightarrow> exn + unit) \<Rightarrow> ('c, 'q, 'r, 'x) grpc_api \<Rightarrow>
   ('c, 'x) grpc_env handler list \<Rightarrow> validator option \<Rightarrow> sign_env \<Rightarrow> ('c, 'x) grpc_env app" where
  "module_app env loads api other grpc handlers vld sign =
     create_app env (cluster_pair loads api other grpc env) (dev_pair handlers) vld loads sign None None"

lemma module_app_invoke:
  "app_invoke (module_app env loads api other grpc handlers vld sign) =
     (if env (lit ''AGENT_FEATURES_MODE'') = Some (lit ''cluster'')
      then grpc_invoke grpc (cluster_resolve (k8s_get loads (api (features_namespace env))))
      else local_invoke (dict_of (zip (map m_name dev_manifests) handlers)))"
  by (simp add: module_app_def create_app_def choose_services_def cluster_pair_def dev_pair_def dev_invoker_def
      k8s_ops_def Let_def)

interpretation served: gateway "module_app env loads api other grpc handlers vld sign"
  for env loads api other grpc handlers vld sign
  unfolding gateway_def module_app_invoke
  by (cases "env (lit ''AGENT_FEATURES_MODE'') = Some (lit ''cluster'')")
    (simp_all add: local_invoker.invoker_axioms grpc_invoker.invoker_axioms)

section \<open>Runs\<close>

text \<open>
  A run of the application: requests are served one after another; between them time passes,
  files change and the cluster may offer other features behind another invoker.
\<close>

datatype event = Serve request "exn + response" | Outside

inductive step_app :: "'e app \<times> 'e app_state \<Rightarrow> event \<Rightarrow> 'e app \<times> 'e app_state \<Rightarrow> bool" where
  step_serve: "serve a req s = (x, s') \<Longrightarrow> step_app (a, s) (Serve req x) (a, s')"
| step_outside: "w_ns (as_world s) \<le> w_ns w \<Longrightarrow> invoker run \<Longrightarrow>
     step_app (a, s) Outside (a\<lparr>app_catalog := cat, app_invoke := run\<rparr>, s\<lparr>as_world := w, as_files := fs\<rparr>)"

inductive run_app :: "'e app \<times> 'e app_state \<Rightarrow> event list \<Rightarrow> 'e app \<times> 'e app_state \<Rightarrow> bool" where
  run_none: "run_app c [] c"
| run_more: "step_app c e c1 \<Longrightarrow> run_app c1 es c2 \<Longrightarrow> run_app c (e # es) c2"

inductive_cases step_appE: "step_app c e c'"

lemma step_app_evolves:
  "step_app c e c' \<Longrightarrow> gateway (fst c) \<Longrightarrow> gateway (fst c') \<and> evolves (snd c) (snd c')"
proof (induction rule: step_app.induct)
  case (step_serve a req s x s')
  then show ?case using movesD [OF gateway.serve_evolves] by fastforce
next
  case (step_outside s w run a cat fs)
  then show ?case by (auto simp: gateway_def intro: evolves_frame)
qed

lemma run_app_evolves:
  "run_app c es c' \<Longrightarrow> gateway (fst c) \<Longrightarrow> gateway (fst c') \<and> evolves (snd c) (snd c')"
proof (induction rule: run_app.induct)
  case (run_none c)
  then show ?case by (simp add: evolution.R_refl)
next
  case (run_more c e c1 es c2)
  then show ?case using step_app_evolves evolution.R_trans by blast
qed

end
