(* ===== verification/Bookkeeping.thy ===== *)
theory Bookkeeping
  imports Requests
begin

text \<open>
  Which invocations reach the metrics store. The application is run over an invoker that keeps
  a log of its calls; logging changes no answer, and the store is shown to follow the log.
\<close>

section \<open>An invoker with a log\<close>

type_synonym call = "pystr \<times> json \<times> (exn + invoke_result)"

definition unlog_world :: "('e \<times> call list) world \<Rightarrow> 'e world" where
  "unlog_world w = \<lparr>w_ns = w_ns w, w_delays = w_delays w, w_reads = w_reads w, w_env = fst (w_env w)\<rparr>"

definition logged :: "'e invoke_fn \<Rightarrow> ('e \<times> call list) invoke_fn" where
  "logged invoke n p c w =
     (let (r, w1) = invoke n p c (unlog_world w) in
      (r, \<lparr>w_ns = w_ns w1, w_delays = w_delays w1, w_reads = w_reads w1,
           w_env = (w_env w1, snd (w_env w) @ [(n, p, r)])\<rparr>))"

definition logged_app :: "'e app \<Rightarrow> ('e \<times> call list) app" where
  "logged_app a =
     \<lparr>app_catalog = app_catalog a, app_invoke = logged (app_invoke a), app_policy = app_policy a,
      app_validator = app_validator a, app_loads = app_loads a, app_sign = app_sign a\<rparr>"

definition unlog :: "('e \<times> call list) app_state \<Rightarrow> 'e app_state" where
  "unlog s =
     \<lparr>as_store = as_store s, as_composites = as_composites s, as_files = as_files s, as_sent = as_sent s,
      as_world = unlog_world (as_world s)\<rparr>"

definition call_log :: "('e \<times> call list) app_state \<Rightarrow> call list" where
  "call_log s = snd (w_env (as_world s))"

lemma logged_app_sel [simp]:
  "app_catalog (logged_app a) = app_catalog a" "app_invoke (logged_app a) = logged (app_invoke a)"
  "app_policy (logged_app a) = app_policy a" "app_validator (logged_app a) = app_validator a"
  "app_loads (logged_app a) = app_loads a" "app_sign (logged_app a) = app_sign a"
  by (simp_all add: logged_app_def)

lemma unlog_sel [simp]:
  "as_store (unlog s) = as_store s" "as_composites (unlog s) = as_composites s" "as_files (unlog s) = as_files s"
  "as_sent (unlog s) = as_sent s" "as_world (unlog s) = unlog_world (as_world s)"
  by (simp_all add: unlog_def)

lemma unlog_upd [simp]:
  "unlog (s\<lparr>as_store := st\<rparr>) = (unlog s)\<lparr>as_store := st\<rparr>"
  "unlog (s\<lparr>as_composites := d\<rparr>) = (unlog s)\<lparr>as_composites := d\<rparr>"
  "unlog (s\<lparr>as_files := fs\<rparr>) = (unlog s)\<lparr>as_files := fs\<rparr>"
  "unlog (s\<lparr>as_sent := es\<rparr>) = (unlog s)\<lparr>as_sent := es\<rparr>"
  "unlog (s\<lparr>as_world := w\<rparr>) = (unlog s)\<lparr>as_world := unlog_world w\<rparr>"
  by (simp_all add: unlog_def)

section \<open>Logging changes no answer\<close>

text \<open>\<open>m'\<close> is \<open>m\<close> with the part of the state that \<open>u\<close> drops forgotten.\<close>

definition mirrors :: "('s \<Rightarrow> 't) \<Rightarrow> ('s, 'a) io \<Rightarrow> ('t, 'a) io \<Rightarrow> bool" where
  "mirrors u m m' \<longleftrightarrow> (\<forall>s. m' (u s) = (fst (m s), u (snd (m s))))"

named_theorems mirror_intros \<open>forgetting passes through the operations\<close>

lemma mirrors_return [mirror_intros]: "mirrors u (returnM x) (returnM x)"
  by (simp add: mirrors_def returnM_run)

lemma mirrors_raise [mirror_intros]: "mirrors u (raiseM e) (raiseM e)"
  by (simp add: mirrors_def raiseM_run)

lemma mirrors_lift [mirror_intros]: "mirrors u (liftE r) (liftE r)"
  by (simp add: mirrors_def liftE_run)

lemma mirrors_http [mirror_intros]: "mirrors u (http_error c d) (http_error c d)"
  by (simp add: http_error_def mirrors_raise)

lemma mirrors_bind [mirror_intros]:
  "mirrors u m m' \<Longrightarrow> (\<And>x. mirrors u (k x) (k' x)) \<Longrightarrow> mirrors u (bindM m k) (bindM m' k')"
  by (auto simp: mirrors_def bindM_def split: prod.splits sum.splits)

lemma mirrors_try [mirror_intros]:
  assumes "mirrors u m m'" "mirrors u i i'" "mirrors u v v'"
  shows "mirrors u (tryM m (except_feature i v)) (tryM m' (except_feature i' v'))"
  using assms
  by (auto simp: mirrors_def tryM_def except_feature_def split: prod.splits sum.splits exn.splits option.splits)

lemma mirrors_if [mirror_intros]:
  "mirrors u m m' \<Longrightarrow> mirrors u n n' \<Longrightarrow> mirrors u (if b then m else n) (if b then m' else n')"
  by simp

lemma mirrors_option [mirror_intros]:
  "mirrors u m m' \<Longrightarrow> (\<And>y. mirrors u (k y) (k' y)) \<Longrightarrow>
   mirrors u (case x of None \<Rightarrow> m | Some y \<Rightarrow> k y) (case x of None \<Rightarrow> m' | Some y \<Rightarrow> k' y)"
  by (cases x) auto

lemma mirrors_list [mirror_intros]:
  "mirrors u m m' \<Longrightarrow> (\<And>y ys. mirrors u (k y ys) (k' y ys)) \<Longrightarrow>
   mirrors u (case xs of [] \<Rightarrow> m | y # ys \<Rightarrow> k y ys) (case xs of [] \<Rightarrow> m' | y # ys \<Rightarrow> k' y ys)"
  by (cases xs) auto

lemma mirrors_sum [mirror_intros]:
  "(\<And>x. mirrors u (m x) (m' x)) \<Longrightarrow> (\<And>y. mirrors u (k y) (k' y)) \<Longrightarrow>
   mirrors u (case z of Inl x \<Rightarrow> m x | Inr y \<Rightarrow> k y) (case z of Inl x \<Rightarrow> m' x | Inr y \<Rightarrow> k' y)"
  by (cases z) auto

lemma mirrors_prod [mirror_intros]:
  "(\<And>x y. mirrors u (m x y) (m' x y)) \<Longrightarrow> mirrors u (case z of (x, y) \<Rightarrow> m x y) (case z of (x, y) \<Rightarrow> m' x y)"
  by (cases z) auto

lemma mirrors_prims [mirror_intros]:
  "mirrors unlog store_now store_now" "mirrors unlog composites_now composites_now"
  "mirrors unlog (publish k) (publish k)" "mirrors unlog (send e) (send e)" "mirrors unlog (on_files v) (on_files v)"
  "mirrors unlog (store_record f b l) (store_record f b l)"
  by (auto simp: mirrors_def store_now_def composites_now_def publish_def send_def on_files_def store_record_def
      split: prod.splits)

lemma mirrors_on_world [mirror_intros]: "mirrors unlog_world m m' \<Longrightarrow> mirrors unlog (on_world m) (on_world m')"
  by (auto simp: mirrors_def on_world_def split: prod.splits)

lemma mirrors_logged [mirror_intros]: "mirrors unlog_world (logged invoke n p c) (invoke n p c)"
  by (auto simp: mirrors_def logged_def unlog_world_def split: prod.splits)

lemma mirrors_attempt [mirror_intros]:
  assumes "mirrors unlog rejected rejected'" "mirrors unlog unavailable unavailable'"
    "\<And>res. mirrors unlog (ans res) (ans' res)"
  shows "mirrors unlog (attempt (logged_app a) f p c rejected unavailable ans)
    (attempt a f p c rejected' unavailable' ans')"
  unfolding attempt_def by (simp only: logged_app_sel, intro mirror_intros assms)

lemma providers_logged [simp]: "providers (logged_app a) = providers a"
  by (intro ext) (simp add: providers_def)

lemma mirrors_ranked [mirror_intros]: "mirrors unlog (ranked_providers (logged_app a) c v r) (ranked_providers a c v r)"
  unfolding ranked_providers_def by (simp, intro mirror_intros)

lemma mirrors_gw_invoke [mirror_intros]: "mirrors unlog (gw_invoke (logged_app a) f b) (gw_invoke a f b)"
  unfolding gw_invoke_def by (simp only: logged_app_sel, intro mirror_intros)

lemma mirrors_run_capability [mirror_intros]: "mirrors unlog (run_capability (logged_app a) c i v r) (run_capability a c i v r)"
  unfolding run_capability_def by (simp only: logged_app_sel, intro mirror_intros)

lemma mirrors_run_steps:
  "mirrors unlog (run_steps (run_capability (logged_app a)) k sts ctx tr) (run_steps (run_capability a) k sts ctx tr)"
  by (induction sts arbitrary: ctx tr) (auto simp: Let_def intro!: mirror_intros split: sum.splits)

lemma mirrors_composer_run [mirror_intros]:
  "mirrors unlog (composer_run (run_capability (logged_app a)) k i) (composer_run (run_capability a) k i)"
  unfolding composer_run_def by (intro mirror_intros mirrors_run_steps)

lemma mirrors_send_all [mirror_intros]: "mirrors unlog (send_all es) (send_all es)"
  by (induction es) (auto intro!: mirror_intros)

lemma mirrors_chat_command [mirror_intros]: "mirrors unlog (chat_command (logged_app a) t) (chat_command a t)"
proof -
  have "mirrors unlog (chat_target (logged_app a) h) (chat_target a h)" for h
    unfolding chat_target_def Let_def by (simp only: logged_app_sel, intro mirror_intros)
  moreover have "mirrors unlog (chat_invoke (logged_app a) f p) (chat_invoke a f p)" for f p
    unfolding chat_invoke_def by (simp only: logged_app_sel, intro mirror_intros)
  ultimately show ?thesis
    unfolding chat_command_def by (auto intro!: mirror_intros split: prod.splits sum.splits exn.splits)
qed

lemma mirrors_stream [mirror_intros]: "mirrors unlog (stream_events (logged_app a) t) (stream_events a t)"
proof -
  have "mirrors unlog (chat (logged_app a) t) (chat a t)"
    unfolding chat_def Let_def by (simp only: logged_app_sel, intro mirror_intros)
  then have run: "chat a t (unlog z) = (fst (chat (logged_app a) t z), unlog (snd (chat (logged_app a) t z)))" for z
    by (simp add: mirrors_def)
  show ?thesis
    unfolding mirrors_def
  proof
    fix s :: "('a \<times> call list) app_state"
    obtain r z where z: "chat (logged_app a) t (s\<lparr>as_sent := []\<rparr>) = (r, z)" by (cases "chat (logged_app a) t (s\<lparr>as_sent := []\<rparr>)")
    then have "chat a t ((unlog s)\<lparr>as_sent := []\<rparr>) = (r, unlog z)" using run [of "s\<lparr>as_sent := []\<rparr>"] by simp
    with z show "stream_events a t (unlog s) =
        (fst (stream_events (logged_app a) t s), unlog (snd (stream_events (logged_app a) t s)))"
      by (simp add: stream_events_def)
  qed
qed

lemma mirrors_mcp [mirror_intros]: "mirrors unlog (mcp_endpoint (logged_app a) m) (mcp_endpoint a m)"
proof -
  have "mirrors unlog_world (call_tool vld cat (logged invoke) i ps) (call_tool vld cat invoke i ps)" for vld cat i ps invoke
    unfolding call_tool_def Let_def tool_failure_def by (intro mirror_intros)
  then show ?thesis
    unfolding mcp_endpoint_def handle_def Let_def by (simp only: logged_app_sel, intro mirror_intros)
qed

lemmas route_defs = answer_def list_features_def get_feature_def unknown_feature_def feature_signature_def
  invoke_feature_def list_capabilities_def get_capability_def unknown_capability_def capability_ranking_def
  invoke_capability_def list_composites_def get_composite_def unknown_composite_def compose_def invoke_composite_def
  compile_agent_def chat_stream_def

lemma mirrors_serve: "mirrors unlog (serve (logged_app a) req) (serve a req)"
  by (cases req; simp only: serve.simps route_defs logged_app_sel providers_logged Let_def; intro mirror_intros)

section \<open>The store follows the log\<close>

text \<open>What the store is owed for a call: nothing for a rejected input or an unexpected exception.\<close>

inductive accounted :: "catalog_ops \<Rightarrow> call \<Rightarrow> outcome list \<Rightarrow> bool" for cat :: catalog_ops where
  owed_success: "offers cat f \<Longrightarrow> accounted cat (f_name f, p, Inr res) [(feature_id f, True, res_latency_ms res)]"
| owed_failure: "offers cat f \<Longrightarrow> accounted cat (f_name f, p, Inl (FeatureUnavailable m)) [(feature_id f, False, 0)]"
| owed_nothing: "\<forall>m. e \<noteq> FeatureUnavailable m \<Longrightarrow> accounted cat (n, p, Inl e) []"

definition books :: "catalog_ops \<Rightarrow> ('e \<times> call list) app_state \<Rightarrow> ('e \<times> call list) app_state \<Rightarrow> bool" where
  "books cat s s' \<longleftrightarrow>
     (\<exists>calls owed. call_log s' = call_log s @ calls \<and> list_all2 (accounted cat) calls owed
        \<and> as_store s' = record_all (concat owed) (as_store s))"

lemma record_all_append: "record_all (xs @ ys) store = record_all ys (record_all xs store)"
  by (simp add: record_all_def)

lemma books_same: "as_store s' = as_store s \<Longrightarrow> as_world s' = as_world s \<Longrightarrow> books cat s s'"
  unfolding books_def call_log_def by (rule exI [of _ "[]"], rule exI [of _ "[]"]) simp

lemma books_trans: "books cat s t \<Longrightarrow> books cat t u \<Longrightarrow> books cat s u"
  unfolding books_def
  by (elim exE conjE, rule_tac x = "calls @ callsa" in exI, rule_tac x = "owed @ oweda" in exI)
    (simp add: record_all_append list_all2_appendI)

lemma books_call:
  assumes "offers cat f" "logged invoke (f_name f) p c (as_world s) = (r, w)"
  shows "books cat s (after_call f s r w)"
proof -
  have l: "snd (w_env w) = call_log s @ [(f_name f, p, r)]"
    using assms(2) by (auto simp: logged_def call_log_def split: prod.splits)
  have "\<exists>owed. accounted cat (f_name f, p, r) owed \<and> as_store (after_call f s r w) = record_all owed (as_store s)
      \<and> as_world (after_call f s r w) = w"
  proof (cases r)
    case (Inl e)
    then show ?thesis using assms(1) by (cases e) (auto intro!: exI accounted.intros)
  next
    case (Inr res)
    then show ?thesis using assms(1) by (auto intro!: exI accounted.intros)
  qed
  then obtain owed where "accounted cat (f_name f, p, r) owed"
    "as_store (after_call f s r w) = record_all owed (as_store s)" "as_world (after_call f s r w) = w" by blast
  with l show ?thesis
    unfolding books_def call_log_def
    by (intro exI [of _ "[(f_name f, p, r)]"] exI [of _ "[owed]"]) simp
qed

interpretation ledger: request_bound "books (app_catalog a)" "logged_app a" for a
  by unfold_locales (auto simp: admitted_def intro: books_same books_trans books_call)

lemma serve_books:
  "\<forall>m. req \<noteq> PostMcp m \<Longrightarrow> moves (books (app_catalog a)) (serve (logged_app a) req)"
  by (rule ledger.moves_serve) simp

lemma mcp_store: "mcp_endpoint a m s = (x, s') \<Longrightarrow> as_store s' = as_store s"
  by (auto simp: mcp_endpoint_def on_world_def split: prod.splits)

section \<open>Only checked input reaches a feature\<close>

definition checked_call :: "'e app \<Rightarrow> call \<Rightarrow> bool" where
  "checked_call a call =
     (\<exists>f. admitted a f (fst (snd call))
        \<and> (f_name f = fst call \<or> cat_get (app_catalog a) (fst call) = Inr (Some f)))"

definition checked_calls :: "'e app \<Rightarrow> ('e \<times> call list) app_state \<Rightarrow> ('e \<times> call list) app_state \<Rightarrow> bool" where
  "checked_calls a s s' \<longleftrightarrow> (\<exists>calls. call_log s' = call_log s @ calls \<and> list_all (checked_call a) calls)"

lemma checked_calls_same: "as_world s' = as_world s \<Longrightarrow> checked_calls a s s'"
  by (simp add: checked_calls_def call_log_def)

lemma checked_calls_trans: "checked_calls a s t \<Longrightarrow> checked_calls a t u \<Longrightarrow> checked_calls a s u"
  unfolding checked_calls_def by (metis append.assoc list_all_append)

lemma after_call_world [simp]: "as_world (after_call f s r w) = w"
  by (cases "(f, s, r, w)" rule: after_call.cases) auto

lemma logged_log: "snd (w_env (snd (logged invoke n p c w))) = snd (w_env w) @ [(n, p, fst (logged invoke n p c w))]"
  by (simp add: logged_def split: prod.splits)

lemma admitted_logged [simp]: "admitted (logged_app a) = admitted a"
  by (intro ext) (simp add: admitted_def)

lemma checked_calls_call:
  assumes "admitted a f p" "logged (app_invoke a) (f_name f) p c (as_world s) = (r, w)"
  shows "checked_calls a s (after_call f s r w)"
proof -
  have "snd (w_env w) = call_log s @ [(f_name f, p, r)]"
    using logged_log [of "app_invoke a" "f_name f" p c "as_world s"] assms(2) by (simp add: call_log_def)
  moreover have "checked_call a (f_name f, p, r)" using assms(1) by (auto simp: checked_call_def)
  ultimately show ?thesis by (auto simp: checked_calls_def call_log_def intro!: exI [of _ "[(f_name f, p, r)]"])
qed

interpretation checks: request_bound "checked_calls a" "logged_app a" for a
  by unfold_locales (auto intro: checked_calls_same checked_calls_trans checked_calls_call)

lemma mcp_checked: "moves (checked_calls a) (mcp_endpoint (logged_app a) m)"
  unfolding moves_def
proof
  fix s :: "('a \<times> call list) app_state"
  let ?handle = "handle (app_validator a) (app_catalog a) (logged (app_invoke a)) m"
  obtain x w where x: "?handle (as_world s) = (x, w)" by (cases "?handle (as_world s)")
  have "checked_calls a s (s\<lparr>as_world := w\<rparr>)"
  proof (cases "w = as_world s")
    case True
    then show ?thesis by (intro checked_calls_same) simp
  next
    case False
    then obtain msg where m: "m = JObj msg" using x by (cases m) (auto simp: handle_def bindM_liftE)
    from handle_world [OF x [unfolded m] False] obtain n p c f where
      f: "cat_get (app_catalog a) n = Inr (Some f)"
        "collect_errors (app_validator a) p (m_input_schema (f_manifest f)) = Inr []"
        "w = snd (logged (app_invoke a) n p c (as_world s))" by blast
    then have "checked_call a (n, p, fst (logged (app_invoke a) n p c (as_world s)))"
      by (auto simp: checked_call_def admitted_def offers_def intro!: exI [of _ f])
    with f(3) show ?thesis
      by (auto simp: checked_calls_def call_log_def logged_log)
  qed
  then show "checked_calls a s (snd (mcp_endpoint (logged_app a) m s))"
    using x by (simp add: mcp_endpoint_def on_world_def)
qed

lemma serve_checked: "moves (checked_calls a) (serve (logged_app a) req)"
  by (rule checks.moves_serve) (rule mcp_checked)

end
