(* ===== verification/Faces.thy ===== *)
theory Faces
  imports Requests
begin

text \<open>
  How the ways into a feature agree: the texts of exceptions reach no face, a step of a
  composite is a direct invocation, the provider of a capability is the one the catalog would
  resolve, and the events of the chat stream.
\<close>

section \<open>Texts of exceptions\<close>

definition hide :: "'e app \<Rightarrow> 'e app" where
  "hide a = a\<lparr>app_invoke := erased (app_invoke a)\<rparr>"

lemma hide_sel [simp]:
  "app_catalog (hide a) = app_catalog a" "app_invoke (hide a) = erased (app_invoke a)"
  "app_policy (hide a) = app_policy a" "app_validator (hide a) = app_validator a"
  "app_loads (hide a) = app_loads a" "app_sign (hide a) = app_sign a"
  by (simp_all add: hide_def)

lemma attempt_hide: "attempt (hide a) f p c rejected unavailable ans = attempt a f p c rejected unavailable ans"
proof
  fix s :: "'a app_state"
  obtain r w where r: "app_invoke a (f_name f) p c (as_world s) = (r, w)"
    by (cases "app_invoke a (f_name f) p c (as_world s)")
  let ?r = "case r of Inl e \<Rightarrow> Inl (erase_text e) | Inr x \<Rightarrow> Inr x"
  have h: "app_invoke (hide a) (f_name f) p c (as_world s) = (?r, w)"
    using r by (simp add: erased_def split: sum.splits)
  show "attempt (hide a) f p c rejected unavailable ans s = attempt a f p c rejected unavailable ans s"
    unfolding attempt_run [OF r] attempt_run [OF h] by (auto split: sum.splits exn.splits)
qed

lemma providers_hide: "providers (hide a) = providers a"
  by (intro ext) (simp add: providers_def)

lemma ranked_hide: "ranked_providers (hide a) = ranked_providers a"
  by (intro ext) (simp add: ranked_providers_def providers_hide)

lemma gw_invoke_hide: "gw_invoke (hide a) = gw_invoke a"
  unfolding gw_invoke_def [abs_def] attempt_hide hide_sel by (rule refl)

lemma run_capability_hide: "run_capability (hide a) = run_capability a"
  unfolding run_capability_def [abs_def] ranked_hide attempt_hide hide_sel by (rule refl)

lemma chat_hide: "chat (hide a) = chat a"
  unfolding chat_def [abs_def] chat_command_def [abs_def] chat_target_def [abs_def] chat_invoke_def [abs_def]
    ranked_hide attempt_hide hide_sel by (rule refl)

lemma serve_hide: "serve (hide a) req = serve a req"
  by (cases req; simp only: serve.simps; unfold list_features_def get_feature_def feature_signature_def invoke_feature_def
      list_capabilities_def get_capability_def capability_ranking_def invoke_capability_def invoke_composite_def
      chat_stream_def stream_events_def [abs_def] mcp_endpoint_def providers_hide ranked_hide gw_invoke_hide
      run_capability_hide chat_hide handle_erased hide_sel; rule refl)

section \<open>HTTP errors\<close>

text \<open>
  \<open>HTTPException\<close> is for the routes of the gateway to raise. An application whose catalog, invoker
  and validator keep to exceptions of their own:
\<close>

fun is_http :: "exn \<Rightarrow> bool" where
  "is_http (HTTPException code detail) = True"
| "is_http e = False"

definition no_http :: "'e app \<Rightarrow> bool" where
  "no_http a \<longleftrightarrow>
     (\<forall>query tags e. cat_list (app_catalog a) query tags = Inl e \<longrightarrow> \<not> is_http e)
     \<and> (\<forall>n e. cat_get (app_catalog a) n = Inl e \<longrightarrow> \<not> is_http e)
     \<and> (\<forall>n p c w e. fst (app_invoke a n p c w) = Inl e \<longrightarrow> \<not> is_http e)
     \<and> (\<forall>v schema p e. app_validator a = Some v \<longrightarrow> v schema p = Inl e \<longrightarrow> \<not> is_http e)"

lemma providers_error: "providers a c v r = Inl e \<Longrightarrow> e = ValueError \<or> cat_list (app_catalog a) None None = Inl e"
  by (auto simp: providers_def Let_def exn_simps dest!: filterE_Inl_source match_version_error split: if_splits)

lemma collect_error:
  "collect_errors vld p schema = Inl e \<Longrightarrow> e = TypeError \<or> (\<exists>v. vld = Some v \<and> v schema p = Inl e)"
proof -
  have i: "iter_json j = Inl e' \<Longrightarrow> e' = TypeError" for j e' by (cases j) auto
  have n: "py_in k j = Inl e' \<Longrightarrow> e' = TypeError" for k j e' by (cases "(k, j)" rule: py_in.cases) auto
  assume "collect_errors vld p schema = Inl e"
  then show ?thesis
    by (auto simp: collect_errors_def required_errors_def missing_message_def sorted_by_path_def exn_simps
        dest!: mapE_Inl_source i n split: if_splits option.splits)
qed

text \<open>Operations that raise no \<open>HTTPException\<close>.\<close>

definition quiet :: "('s, 'a) io \<Rightarrow> bool" where
  "quiet m \<longleftrightarrow> (\<forall>s e. fst (m s) = Inl e \<longrightarrow> \<not> is_http e)"

lemma quietD: "quiet m \<Longrightarrow> fst (m s) = Inl e \<Longrightarrow> \<not> is_http e"
  by (simp add: quiet_def)

lemma quiet_return [intro]: "quiet (returnM x)"
  by (simp add: quiet_def returnM_run)

lemma quiet_send [intro]: "quiet (send e)"
  by (simp add: quiet_def send_def)

lemma quiet_lift: "(\<And>e. r = Inl e \<Longrightarrow> \<not> is_http e) \<Longrightarrow> quiet (liftE r)"
  by (simp add: quiet_def liftE_run)

lemma quiet_bind: "quiet m \<Longrightarrow> (\<And>x. quiet (k x)) \<Longrightarrow> quiet (bindM m k)"
  unfolding quiet_def bindM_def by (auto split: prod.splits sum.splits) (metis fst_conv)+

lemma quiet_attempt:
  assumes "no_http a" and "quiet rejected" and "quiet unavailable" and "\<And>res. quiet (ans res)"
  shows "quiet (attempt a f p c rejected unavailable ans)"
  unfolding quiet_def
proof (intro allI impI)
  fix s :: "'a app_state" and e
  obtain r w where r: "app_invoke a (f_name f) p c (as_world s) = (r, w)"
    by (cases "app_invoke a (f_name f) p c (as_world s)")
  then have "r = Inl x \<Longrightarrow> \<not> is_http x" for x using assms(1) unfolding no_http_def by (metis fst_conv)
  moreover assume "fst (attempt a f p c rejected unavailable ans s) = Inl e"
  ultimately show "\<not> is_http e"
    using quietD [OF assms(2)] quietD [OF assms(3)] quietD [OF assms(4)]
    unfolding attempt_run [OF r] by (auto split: sum.splits exn.splits)
qed

lemma quiet_ranked: "no_http a \<Longrightarrow> quiet (ranked_providers a c v r)"
  unfolding ranked_providers_def
  by (intro quiet_bind quiet_lift)
    (auto simp: no_http_def quiet_def store_now_def dest!: providers_error active.rank_error)

lemma quiet_collect: "no_http a \<Longrightarrow> quiet (liftE (collect_errors (app_validator a) p schema))"
  by (rule quiet_lift) (auto simp: no_http_def dest!: collect_error)

lemma quiet_get: "no_http a \<Longrightarrow> quiet (liftE (cat_get (app_catalog a) n))"
  by (rule quiet_lift) (auto simp: no_http_def)

lemma quiet_run_capability: "no_http a \<Longrightarrow> quiet (run_capability a c i v r)"
  unfolding run_capability_def
  by (rule quiet_bind [OF quiet_ranked])
    (auto split: list.split intro!: quiet_bind quiet_collect quiet_attempt)

section \<open>Steps of composites and direct invocations\<close>

text \<open>The message of a step for the answer of a direct invocation that failed.\<close>

definition step_answer :: "pystr \<Rightarrow> nat \<Rightarrow> pystr + pystr list \<Rightarrow> pystr" where
  "step_answer capability code detail =
     (case detail of
        Inr errors \<Rightarrow> lit ''invalid input: '' @ join (lit ''; '') errors
      | Inl _ \<Rightarrow> if code = 404 then no_provider capability
                 else if code = 422 then lit ''the feature rejected the input''
                 else lit ''the provider is currently unavailable'')"

definition same_run :: "pystr \<Rightarrow> (exn + json_obj option \<times> pystr option) \<times> 's \<Rightarrow> (exn + invoke_response) \<times> 's \<Rightarrow> bool" where
  "same_run capability x y \<longleftrightarrow> snd x = snd y \<and>
     ((\<exists>resp. fst y = Inr resp \<and> fst x = Inr (Some (ir_output resp), None)) \<or>
      (\<exists>code detail. fst y = Inl (HTTPException code detail) \<and> code \<in> {404, 422, 503}
         \<and> fst x = Inr (None, Some (step_answer capability code detail))) \<or>
      (\<exists>e. fst y = Inl e \<and> fst x = Inl e))"

lemma same_run_cases:
  "same_run c (Inr (Some (ir_output resp), None), s) (Inr resp, s)"
  "same_run c (Inl e, s) (Inl e, s)"
  "same_run c (Inr (None, Some (lit ''invalid input: '' @ join (lit ''; '') es)), s) (Inl (HTTPException 422 (Inr es)), s)"
  "same_run c (Inr (None, Some (no_provider c)), s) (Inl (HTTPException 404 (Inl t)), s)"
  "same_run c (Inr (None, Some (lit ''the feature rejected the input'')), s) (Inl (HTTPException 422 (Inl t)), s)"
  "same_run c (Inr (None, Some (lit ''the provider is currently unavailable'')), s) (Inl (HTTPException 503 (Inl t)), s)"
  unfolding same_run_def by (simp_all add: step_answer_def)

lemma same_run_attempt:
  "same_run c
     (attempt a f p ctx (returnM (None, Some (lit ''the feature rejected the input'')))
        (returnM (None, Some (lit ''the provider is currently unavailable'')))
        (\<lambda>result. returnM (Some (res_output result), None)) s)
     (attempt a f p ctx (http_error 422 t) (http_error 503 t')
        (\<lambda>result. returnM \<lparr>ir_feature = n, ir_version = v, ir_output = res_output result,
           ir_latency_ms = res_latency_ms result, ir_vendor = vd\<rparr>) s)"
proof -
  obtain r w where r: "app_invoke a (f_name f) p ctx (as_world s) = (r, w)"
    by (cases "app_invoke a (f_name f) p ctx (as_world s)")
  show ?thesis
    unfolding attempt_run [OF r] http_error_def
    using same_run_cases(1) [where resp = "\<lparr>ir_feature = n, ir_version = v, ir_output = res_output res,
        ir_latency_ms = res_latency_ms res, ir_vendor = vd\<rparr>" for res]
    by (auto simp: raiseM_run returnM_run same_run_cases split: sum.splits exn.splits)
qed

lemma step_is_direct:
  "same_run capability (run_capability a capability i vendor version s)
     (invoke_capability a capability \<lparr>r_input = i, r_context = default_context\<rparr> vendor version s)"
proof (cases "ranked_providers a capability vendor version s")
  case (Pair r s1)
  show ?thesis
  proof (cases r)
    case (Inl e)
    then show ?thesis using Pair by (auto simp: same_run_cases run_capability_def invoke_capability_def bindM_def)
  next
    case (Inr fs)
    show ?thesis
    proof (cases fs)
      case Nil
      then show ?thesis using Pair Inr
        by (auto simp: same_run_cases run_capability_def invoke_capability_def bindM_def http_error_def raiseM_run
            returnM_run)
    next
      case (Cons f rest)
      then have x: "run_capability a capability i vendor version s =
           bindM (liftE (collect_errors (app_validator a) (JObj i) (m_input_schema (f_manifest f)))) (\<lambda>errors.
             if errors \<noteq> [] then returnM (None, Some (lit ''invalid input: '' @ join (lit ''; '') errors))
             else attempt a f (JObj i) default_context
               (returnM (None, Some (lit ''the feature rejected the input'')))
               (returnM (None, Some (lit ''the provider is currently unavailable'')))
               (\<lambda>result. returnM (Some (res_output result), None))) s1"
        and y: "invoke_capability a capability \<lparr>r_input = i, r_context = default_context\<rparr> vendor version s =
           gw_invoke a f \<lparr>r_input = i, r_context = default_context\<rparr> s1"
        using Pair Inr by (simp_all add: run_capability_def invoke_capability_def bindM_Inr)
      show ?thesis
        unfolding x y gw_invoke_def bindM_liftE
        by (auto simp: same_run_attempt same_run_cases raiseM_run returnM_run split: sum.splits)
    qed
  qed
qed

lemma step_of_http_error:
  assumes "no_http a"
    and "fst (invoke_capability a c \<lparr>r_input = i, r_context = default_context\<rparr> v r s) = Inl (HTTPException code detail)"
  shows "code \<in> {404, 422, 503} \<and> fst (run_capability a c i v r s) = Inr (None, Some (step_answer c code detail))"
  using step_is_direct [of c a i v r s] assms(2) quietD [OF quiet_run_capability, OF assms(1), of c i v r s]
  by (auto simp: same_run_def)

interpretation steps: capability_invoker "run_capability a" for a
proof
  fix c i v r s out err s'
  assume run: "run_capability a c i v r s = (Inr (out, err), s')"
  have "no_provider c \<noteq> []" "lit ''the provider is currently unavailable'' \<noteq> []"
    "lit ''the feature rejected the input'' \<noteq> []" "lit ''invalid input: '' @ t \<noteq> []" for t
    by (simp_all add: no_provider_def)
  then have "step_answer c code detail \<noteq> []" for code detail by (simp add: step_answer_def split: sum.splits)
  with step_is_direct [of c a i v r s] run
  show "(\<exists>o'. out = Some o') \<and> err = None \<or> out = None \<and> (\<exists>m. err = Some m \<and> m \<noteq> [])"
    by (auto simp: same_run_def)
qed

section \<open>The provider of a capability\<close>

lemma providers_pins:
  "cat_list (app_catalog a) None None = Inr fs \<Longrightarrow>
   providers a c v r = pin_version r (pin_vendor v (filter (\<lambda>f. f_capability f = c) fs))"
  by (simp add: providers_def Let_def pin_version_def pin_vendor_def)

lemma providers_eligible:
  "cat_list (app_catalog a) None None = Inr fs \<Longrightarrow> providers a c v r = Inr ps \<Longrightarrow> ps = filter (eligible c r v) fs"
  using pins_eligible by (simp add: providers_pins)

lemma ranked_run:
  "ranked_providers a c v r s =
     (bindE (providers a c v r) (\<lambda>fs. policy_rank (app_policy a) (as_store s) fs), s)"
  by (auto simp: ranked_providers_def bindM_liftE bindM_def store_now_def liftE_run split: sum.splits)

lemma static_rank:
  "app_policy a = BaselinePolicy \<or> as_store s = Map.empty \<Longrightarrow>
   policy_rank (app_policy a) (as_store s) fs = rank_features fs"
  by (cases "app_policy a") (auto simp: baseline_rank_def metrics_rank_cold_start)

lemma capability_run:
  "invoke_capability a c body v r s =
     (case bindE (providers a c v r) (\<lambda>fs. policy_rank (app_policy a) (as_store s) fs) of
        Inl e \<Rightarrow> (Inl e, s)
      | Inr [] \<Rightarrow> (Inl (HTTPException 404 (Inl (no_provider c @ pin_text ''vendor'' v @ pin_text ''version'' r))), s)
      | Inr (f # _) \<Rightarrow> gw_invoke a f body s)"
  by (auto simp: invoke_capability_def bindM_def ranked_run http_error_def raiseM_run split: sum.splits list.splits)

lemma static_capability_run:
  assumes "cat_list (app_catalog a) None None = Inr fs" "app_policy a = BaselinePolicy \<or> as_store s = Map.empty"
  shows "invoke_capability a c body v r s =
     (case resolve_feature fs c r v of
        Inl e \<Rightarrow> (Inl e, s)
      | Inr None \<Rightarrow> (Inl (HTTPException 404 (Inl (no_provider c @ pin_text ''vendor'' v @ pin_text ''version'' r))), s)
      | Inr (Some f) \<Rightarrow> gw_invoke a f body s)"
proof -
  have "bindE (providers a c v r) (\<lambda>fs. policy_rank (app_policy a) (as_store s) fs) = bindE (providers a c v r) rank_features"
    by (simp add: static_rank [OF assms(2)] bindE_def split: sum.splits)
  then show ?thesis
    unfolding capability_run resolve_feature_def Let_def providers_pins [OF assms(1)]
    by (auto simp: bindE_def split: sum.splits list.splits)
qed

text \<open>Invoking what a resolution found, as the route does.\<close>

definition invoke_found ::
  "'e app \<Rightarrow> pystr \<Rightarrow> invoke_request \<Rightarrow> pystr option \<Rightarrow> pystr option \<Rightarrow> exn + feature option \<Rightarrow> ('e app_state, invoke_response) io" where
  "invoke_found a capability body vendor version found s =
     (case found of
        Inl e \<Rightarrow> (Inl e, s)
      | Inr None \<Rightarrow>
          (Inl (HTTPException 404 (Inl (no_provider capability @ pin_text ''vendor'' vendor @ pin_text ''version'' version))), s)
      | Inr (Some f) \<Rightarrow> gw_invoke a f body s)"

lemma static_capability_found:
  assumes "app_policy a = BaselinePolicy \<or> as_store s = Map.empty"
  shows "invoke_capability a c body v r s =
     invoke_found a c body v r (bindE (cat_list (app_catalog a) None None) (\<lambda>fs. resolve_feature fs c r v)) s"
proof (cases "cat_list (app_catalog a) None None")
  case (Inl e)
  then show ?thesis by (simp add: capability_run providers_def invoke_found_def)
next
  case (Inr fs)
  then show ?thesis using static_capability_run [OF Inr assms] by (simp add: invoke_found_def)
qed

lemma in_memory_found:
  assumes "app_catalog a = in_memory_ops d"
  shows "bindE (cat_list (app_catalog a) None None) (\<lambda>fs. resolve_feature fs c r v) =
    resolve_feature (sort_key f_name (dict_values d)) c r v"
  using assms by (simp add: in_memory_ops_def in_memory_list_def list_results_all)

lemma gw_invoke_response:
  assumes "gw_invoke a f body s = (Inr resp, s')"
  shows "ir_feature resp = f_name f \<and> ir_version resp = f_version f \<and> ir_vendor resp = f_vendor f
    \<and> (\<exists>res w. app_invoke a (f_name f) (JObj (r_input body)) (r_context body) (as_world s) = (Inr res, w)
         \<and> ir_output resp = res_output res \<and> ir_latency_ms resp = res_latency_ms res
         \<and> s' = s\<lparr>as_world := w, as_store := record_outcome (as_store s) (feature_id f) True (res_latency_ms res)\<rparr>)"
proof -
  obtain r w where r: "app_invoke a (f_name f) (JObj (r_input body)) (r_context body) (as_world s) = (r, w)"
    by (cases "app_invoke a (f_name f) (JObj (r_input body)) (r_context body) (as_world s)")
  with assms show ?thesis
    by (auto simp: gw_invoke_def bindM_liftE raiseM_run attempt_run [OF r] http_error_def returnM_run
        split: sum.splits if_splits exn.splits)
qed

section \<open>Chat events\<close>

definition event_type :: "json \<Rightarrow> pystr" where
  "event_type e = (case e of JObj d \<Rightarrow> (case dict_get d (lit ''type'') of Some (JStr t) \<Rightarrow> t | _ \<Rightarrow> []) | _ \<Rightarrow> [])"

lemma event_type_simps [simp]:
  "event_type (status_event t) = lit ''status''" "event_type (error_event t) = lit ''error''"
  "event_type (result_event f r) = lit ''result''"
  by (simp_all add: event_type_def status_event_def error_event_def result_event_def dict_get_def)

text \<open>Status events, then one verdict: an error, or a result when a success has been recorded.\<close>

definition verdict :: "'e app_state \<Rightarrow> 'e app_state \<Rightarrow> bool" where
  "verdict s s' \<longleftrightarrow> (\<exists>ss e. as_sent s' = as_sent s @ ss @ [e] \<and> (\<forall>x \<in> set ss. event_type x = lit ''status'')
     \<and> (event_type e = lit ''error'' \<and>
          (as_store s' = as_store s \<or> (\<exists>f. as_store s' = record_outcome (as_store s) (feature_id f) False 0))
        \<or> (\<exists>f res. e = result_event f res \<and> as_store s' = record_outcome (as_store s) (feature_id f) True (res_latency_ms res))))"

lemma verdict_error:
  "as_sent s' = as_sent s @ [error_event t] \<Longrightarrow> as_store s' = as_store s \<Longrightarrow> verdict s s'"
  unfolding verdict_def by (rule exI [of _ "[]"], rule exI [of _ "error_event t"]) simp

lemma verdict_same: "as_sent s1 = as_sent s \<Longrightarrow> as_store s1 = as_store s \<Longrightarrow> verdict s1 s' \<Longrightarrow> verdict s s'"
  by (simp add: verdict_def)

lemma verdict_status:
  "as_sent s1 = as_sent s @ [status_event t] \<Longrightarrow> as_store s1 = as_store s \<Longrightarrow> verdict s1 s' \<Longrightarrow> verdict s s'"
  unfolding verdict_def
  by (elim exE conjE, rule_tac x = "status_event t # ss" in exI, rule_tac x = e in exI) auto

lemma attempt_verdict:
  assumes "attempt a f p c (send (error_event t)) (send (error_event t')) (\<lambda>res. send (result_event f res)) s = (Inr (), s')"
  shows "verdict s s'"
proof -
  obtain r w where r: "app_invoke a (f_name f) p c (as_world s) = (r, w)" by (cases "app_invoke a (f_name f) p c (as_world s)")
  show ?thesis
    using assms unfolding attempt_run [OF r] verdict_def
    by (auto simp: send_def split: sum.splits exn.splits) blast
qed

lemma chat_invoke_verdict:
  assumes "chat_invoke a f p s = (Inr (), s')"
  shows "verdict s s'"
proof (rule verdict_status)
  let ?t = "lit ''invoking '' @ f_vendor f @ lit ''/'' @ f_name f @ [Ellipsis]"
  let ?s = "s\<lparr>as_sent := as_sent s @ [status_event ?t]\<rparr>"
  show "as_sent ?s = as_sent s @ [status_event ?t]" "as_store ?s = as_store s" by simp_all
  from assms obtain es where "(if es \<noteq> [] then send (error_event (lit ''invalid input: '' @ join (lit ''; '') es))
      else attempt a f p default_context (send (error_event (lit ''the feature rejected the input'')))
        (send (error_event (lit ''the feature is currently unavailable'')))
        (\<lambda>result. send (result_event f result))) ?s = (Inr (), s')"
    by (auto simp: chat_invoke_def bindM_eq_Inr send_def liftE_run)
  then show "verdict ?s s'"
    by (cases "es \<noteq> []") (auto simp: send_def intro: verdict_error attempt_verdict)
qed

text \<open>Naming a feature: found, or the verdict is out.\<close>

lemma chat_target_verdict:
  assumes "chat_target a h s = (Inr x, s1)"
  shows "(x = None \<longrightarrow> verdict s s1) \<and>
    (x \<noteq> None \<longrightarrow> as_store s1 = as_store s \<and> (as_sent s1 = as_sent s \<or> (\<exists>t. as_sent s1 = as_sent s @ [status_event t])))"
proof (cases "startswith h (lit ''cap:'')")
  case True
  let ?s = "s\<lparr>as_sent := as_sent s @ [status_event (lit ''resolving capability '' @ quoted (drop 4 h) @ [Ellipsis])]\<rparr>"
  from True assms obtain fs where r: "ranked_providers a (drop 4 h) None None ?s = (Inr fs, ?s)"
    and k: "(case fs of [] \<Rightarrow> bindM (send (error_event (no_provider (drop 4 h)))) (\<lambda>_. returnM None)
         | f # _ \<Rightarrow> returnM (Some f)) ?s = (Inr x, s1)"
    by (auto simp: chat_target_def Let_def bindM_eq_Inr send_def ranked_run)
  show ?thesis
  proof (cases fs)
    case Nil
    with k have "x = None" "verdict ?s s1"
      by (auto simp: bindM_eq_Inr send_def returnM_run intro: verdict_error)
    then show ?thesis using verdict_status [of ?s s _ s1] by simp
  next
    case (Cons f rest)
    with k show ?thesis by (auto simp: returnM_run)
  qed
next
  case False
  with assms show ?thesis
    by (auto simp: chat_target_def bindM_eq_Inr liftE_run send_def returnM_run intro: verdict_error split: option.splits)
qed

lemma chat_command_verdict:
  assumes "chat_command a t s = (Inr (), s')"
  shows "verdict s s'"
proof -
  obtain h tl where ht: "partition_on (Lat (CHR '' '')) t = (h, tl)" by (cases "partition_on (Lat (CHR '' '')) t")
  show ?thesis
  proof (cases "if strip tl \<noteq> [] then app_loads a tl else Inr (JObj [])")
    case (Inl e)
    with assms ht show ?thesis
      by (auto simp: chat_command_def send_def raiseM_run intro: verdict_error split: exn.splits)
  next
    case (Inr p)
    with assms ht obtain x s1 where x: "chat_target a h s = (Inr x, s1)"
      "(case x of None \<Rightarrow> returnM () | Some f \<Rightarrow> chat_invoke a f p) s1 = (Inr (), s')"
      by (auto simp: chat_command_def bindM_eq_Inr)
    show ?thesis
    proof (cases x)
      case None
      then show ?thesis using x chat_target_verdict [OF x(1)] by (simp add: returnM_run)
    next
      case (Some f)
      then have v: "verdict s1 s'" using x(2) by (auto intro: chat_invoke_verdict)
      from chat_target_verdict [OF x(1)] Some v show ?thesis
        by (auto intro: verdict_status verdict_same)
    qed
  qed
qed

section \<open>Compiling agents\<close>

definition compiled :: "pystr \<Rightarrow> bool \<Rightarrow> json" where
  "compiled source publishes = JObj [(lit ''source'', JStr source), (lit ''publish'', JBool publishes)]"

definition doc_get :: "json \<Rightarrow> string \<Rightarrow> json" where
  "doc_get d k = (case d of JObj kvs \<Rightarrow> get_or kvs (lit k) JNull | _ \<Rightarrow> JNull)"

lemma compile_error:
  "parse source = (None, errors) \<Longrightarrow>
   \<exists>doc. compile_agent (compiled source publishes) s = (Inr doc, s) \<and> doc_get doc ''ok'' = JBool False
     \<and> doc_get doc ''errors'' = JList (map JStr errors)"
  by (simp add: compile_agent_def compiled_def bindM_liftE get_or_def dict_get_def returnM_run doc_get_def)

lemma compile_ok:
  assumes "parse source = (Some k, errors)"
  shows "\<exists>doc code. compile_agent (compiled source publishes) s =
        (Inr doc, if publishes then s\<lparr>as_composites := dict_set (k_name k) k (as_composites s)\<rparr> else s)
     \<and> doc_get doc ''ok'' = JBool True \<and> doc_get doc ''composite'' = composite_json k
     \<and> doc_get doc ''code'' = JObj code \<and> dict_keys code = LANGUAGES
     \<and> (\<forall>lang \<in> set LANGUAGES. \<exists>stub. codegen k lang = Inr stub \<and> (lang, JStr stub) \<in> set code)"
proof -
  let ?gen = "\<lambda>lang. bindE (codegen k lang) (\<lambda>code. Inr (lang, JStr code))"
  have total: "\<exists>stub. codegen k lang = Inr stub" if "lang \<in> set LANGUAGES" for lang
    using assms that by (rule codegen_total)
  let ?code = "map (\<lambda>lang. (lang, JStr (projr (codegen k lang)))) LANGUAGES"
  have "mapE ?gen LANGUAGES = Inr ?code"
    by (rule mapE_Inr) (use total in fastforce)
  then have "\<exists>doc. compile_agent (compiled source publishes) s =
        (Inr doc, if publishes then s\<lparr>as_composites := dict_set (k_name k) k (as_composites s)\<rparr> else s)
     \<and> doc_get doc ''ok'' = JBool True \<and> doc_get doc ''composite'' = composite_json k \<and> doc_get doc ''code'' = JObj ?code"
    using assms
    by (simp add: compile_agent_def compiled_def bindM_liftE get_or_def dict_get_def doc_get_def)
      (simp add: bindM_def publish_def returnM_run liftE_run dict_get_def get_or_def)
  moreover have "dict_keys ?code = LANGUAGES" by (simp add: dict_keys_def comp_def)
  moreover have "\<forall>lang \<in> set LANGUAGES. \<exists>stub. codegen k lang = Inr stub \<and> (lang, JStr stub) \<in> set ?code"
    using total by (fastforce simp: image_iff)
  ultimately show ?thesis by blast
qed

end
