(* ===== verification/Interleaving.thy ===== *)
theory Interleaving
  imports Faces
begin

text \<open>
  Requests in flight together. A route gives up control only while it awaits the invoker, so
  \<open>_invoke\<close> is two atomic parts: the checks before the call, and the handling of its outcome. In
  between other invocations start and finish, in any order.
\<close>

section \<open>The two parts of an invocation\<close>

definition invoke_begin :: "'e app \<Rightarrow> feature \<Rightarrow> invoke_request \<Rightarrow> exn + unit" where
  "invoke_begin a feature body =
     bindE (collect_errors (app_validator a) (JObj (r_input body)) (m_input_schema (f_manifest feature)))
     (\<lambda>input_errors. if input_errors \<noteq> [] then Inl (HTTPException 422 (Inr input_errors)) else Inr ())"

definition invoke_end ::
  "feature \<Rightarrow> exn + invoke_result \<Rightarrow> ('e app_state, invoke_response) io" where
  "invoke_end feature r =
     (case r of
        Inl (FeatureInputError _) \<Rightarrow>
          http_error 422 (lit ''feature '' @ quoted (f_name feature) @ lit '' rejected the input'')
      | Inl (FeatureUnavailable _) \<Rightarrow>
          bindM (store_record (feature_id feature) False 0) (\<lambda>_.
          http_error 503 (lit ''feature '' @ quoted (f_name feature) @ lit '' is currently unavailable''))
      | Inl e \<Rightarrow> raiseM e
      | Inr result \<Rightarrow>
          bindM (store_record (feature_id feature) True (res_latency_ms result)) (\<lambda>_.
          returnM
            \<lparr>ir_feature = f_name feature, ir_version = f_version feature, ir_output = res_output result,
             ir_latency_ms = res_latency_ms result, ir_vendor = f_vendor feature\<rparr>))"

lemma invoke_end_state: "snd (invoke_end f r (s\<lparr>as_world := w\<rparr>)) = after_call f s r w"
  by (auto simp: invoke_end_def http_error_def raiseM_run bindM_def store_record_def returnM_run
      split: sum.splits exn.splits)

text \<open>Without anything in between, the two parts are the invocation.\<close>

lemma invoke_split:
  "gw_invoke a f body s =
     (case invoke_begin a f body of
        Inl e \<Rightarrow> (Inl e, s)
      | Inr _ \<Rightarrow>
          let (r, w) = app_invoke a (f_name f) (JObj (r_input body)) (r_context body) (as_world s) in
          invoke_end f r (s\<lparr>as_world := w\<rparr>))"
proof -
  obtain r w where r: "app_invoke a (f_name f) (JObj (r_input body)) (r_context body) (as_world s) = (r, w)"
    by (cases "app_invoke a (f_name f) (JObj (r_input body)) (r_context body) (as_world s)")
  have e: "attempt a f (JObj (r_input body)) (r_context body)
       (http_error 422 (lit ''feature '' @ quoted (f_name f) @ lit '' rejected the input''))
       (http_error 503 (lit ''feature '' @ quoted (f_name f) @ lit '' is currently unavailable''))
       (\<lambda>result. returnM
          \<lparr>ir_feature = f_name f, ir_version = f_version f, ir_output = res_output result,
           ir_latency_ms = res_latency_ms result, ir_vendor = f_vendor f\<rparr>) s = invoke_end f r (s\<lparr>as_world := w\<rparr>)"
    unfolding attempt_run [OF r] invoke_end_def
    by (auto simp: bindM_def store_record_def raiseM_run split: sum.splits exn.splits)
  show ?thesis
    by (auto simp: gw_invoke_def invoke_begin_def bindM_liftE e r raiseM_run bindE_def split: sum.splits)
qed

section \<open>Interleaved runs\<close>

text \<open>
  Invocations in flight carry a ticket. One may start whenever its input is accepted, and any
  of them may finish next, with whatever outcome and after whatever time.
\<close>

type_synonym flight = "nat \<times> feature"

datatype cevent = Started nat feature | Finished nat feature "exn + invoke_result"

inductive cstep :: "'e app \<Rightarrow> 'e app_state \<times> flight list \<Rightarrow> cevent \<Rightarrow> 'e app_state \<times> flight list \<Rightarrow> bool"
  for a :: "'e app" where
  c_start: "offers (app_catalog a) f \<Longrightarrow> invoke_begin a f body = Inr () \<Longrightarrow> n \<notin> fst ` set air \<Longrightarrow>
     cstep a (s, air) (Started n f) (s, air @ [(n, f)])"
| c_finish: "(n, f) \<in> set air \<Longrightarrow> (\<forall>res. r = Inr res \<longrightarrow> 0 \<le> res_latency_ms res) \<Longrightarrow>
     invoke_end f r (s\<lparr>as_world := w\<rparr>) = (x, s') \<Longrightarrow>
     cstep a (s, air) (Finished n f r) (s', filter (\<lambda>z. fst z \<noteq> n) air)"

inductive cruns :: "'e app \<Rightarrow> 'e app_state \<times> flight list \<Rightarrow> cevent list \<Rightarrow> 'e app_state \<times> flight list \<Rightarrow> bool"
  for a :: "'e app" where
  c_none: "cruns a c [] c"
| c_more: "cruns a c es c1 \<Longrightarrow> cstep a c1 e c2 \<Longrightarrow> cruns a c (es @ [e]) c2"

inductive_cases cstep_startE: "cstep a c (Started n f) c'"
inductive_cases cstep_finishE: "cstep a c (Finished n f r) c'"

text \<open>What an event owes the store.\<close>

fun owed :: "cevent \<Rightarrow> outcome list" where
  "owed (Finished n f (Inr res)) = [(feature_id f, True, res_latency_ms res)]"
| "owed (Finished n f (Inl (FeatureUnavailable m))) = [(feature_id f, False, 0)]"
| "owed e = []"

lemma after_call_owed: "as_store (after_call f s r w) = record_all (owed (Finished n f r)) (as_store s)"
  by (cases "Finished n f r" rule: owed.cases) auto

lemma owed_nonneg:
  assumes "cstep a c e c'" and "z \<in> set (owed e)"
  shows "0 \<le> snd (snd z)"
  using assms(1)
proof (cases rule: cstep.cases)
  case (c_start f body n air s)
  then show ?thesis using assms(2) by simp
next
  case (c_finish n f air r w s x s')
  then show ?thesis using assms(2) by (cases "Finished n f r" rule: owed.cases) auto
qed

fun starts :: "nat \<Rightarrow> cevent \<Rightarrow> bool" where
  "starts n (Started m f) = (m = n)"
| "starts n e = False"

fun finishes :: "nat \<Rightarrow> cevent \<Rightarrow> bool" where
  "finishes n (Finished m f r) = (m = n)"
| "finishes n e = False"

text \<open>The state of the run: distinct tickets, one start more than finishes for those in flight.\<close>

definition flights_ok :: "cevent list \<Rightarrow> flight list \<Rightarrow> bool" where
  "flights_ok es air \<longleftrightarrow> distinct (map fst air) \<and>
     (\<forall>n. length (filter (starts n) es) = length (filter (finishes n) es) + (if n \<in> fst ` set air then 1 else 0))"

lemma flights_step:
  assumes "cstep a c e c'" and "flights_ok es (snd c)"
  shows "flights_ok (es @ [e]) (snd c')"
  using assms
proof (induction rule: cstep.induct)
  case (c_start f body n air s)
  then show ?case by (auto simp: flights_ok_def)
next
  case (c_finish n f air r w s x s')
  have d: "distinct (map fst (filter (\<lambda>z. fst z \<noteq> n) air))"
    using c_finish.prems by (auto simp: flights_ok_def distinct_map_filter)
  have m: "m \<in> fst ` set (filter (\<lambda>z. fst z \<noteq> n) air) \<longleftrightarrow> m \<in> fst ` set air \<and> m \<noteq> n" for m by auto
  have n: "n \<in> fst ` set air" using c_finish.hyps(1) by force
  show ?case using c_finish.prems d n unfolding flights_ok_def snd_conv m by auto
qed

lemma cruns_books:
  assumes "cruns a c es c'" and "c = (s, [])"
  shows "as_store (fst c') = record_all (concat (map owed es)) (as_store s) \<and> flights_ok es (snd c')
    \<and> (store_ok (as_store s) \<longrightarrow> store_ok (as_store (fst c')))"
  using assms
proof (induction rule: cruns.induct)
  case (c_none c)
  then show ?case by (simp add: flights_ok_def)
next
  case (c_more c es c1 e c2)
  have st: "as_store (fst c2) = record_all (owed e) (as_store (fst c1))"
    using c_more.hyps(2)
  proof (cases rule: cstep.cases)
    case (c_start f body n air s)
    then show ?thesis by simp
  next
    case (c_finish n f air r w s x s')
    then have "s' = after_call f s r w" using invoke_end_state [of f r w s] by simp
    then show ?thesis using c_finish after_call_owed by simp
  qed
  have ok: "store_ok (as_store (fst c1)) \<longrightarrow> store_ok (as_store (fst c2))"
    unfolding st using owed_nonneg [OF c_more.hyps(2)] by (auto intro: store_ok_record_all)
  have app: "record_all (concat (map owed (es @ [e]))) (as_store s) =
      record_all (owed e) (record_all (concat (map owed es)) (as_store s))" by (simp add: record_all_def)
  from c_more.IH [OF c_more.prems] have ih: "as_store (fst c1) = record_all (concat (map owed es)) (as_store s)"
    "flights_ok es (snd c1)" "store_ok (as_store s) \<longrightarrow> store_ok (as_store (fst c1))" by blast+
  from flights_step [OF c_more.hyps(2) ih(2)] ih(3) ok show ?case
    unfolding app using st unfolding ih(1) by blast
qed

section \<open>Properties\<close>

text \<open>
  C40. Interleaved invocations are neither lost nor counted twice: however the parts of the
  invocations in flight are ordered, the store is the outcomes recorded in the order of
  completion, every ticket that is not in flight has finished as often as it was started, each
  one in flight once less, and the counters stay sound.
\<close>

theorem interleaving_serialises:
  assumes "cruns a (s, []) es (s', air)"
  shows "as_store s' = record_all (concat (map owed es)) (as_store s)
    \<and> distinct (map fst air)
    \<and> (\<forall>n. length (filter (starts n) es) = length (filter (finishes n) es) + (if n \<in> fst ` set air then 1 else 0))
    \<and> (store_ok (as_store s) \<longrightarrow> store_ok (as_store s'))"
  using cruns_books [OF assms refl] unfolding flights_ok_def fst_conv snd_conv by blast

definition echo_feature :: feature where
  "echo_feature = \<lparr>f_manifest = manifest_defaults (lit ''echo''), f_phase = READY, f_endpoint = None\<rparr>"

definition echo_app :: "int app" where
  "echo_app = \<lparr>app_catalog = in_memory_ops [(lit ''echo'', echo_feature)], app_invoke = sample_invoke, app_policy = BaselinePolicy,
     app_validator = None, app_loads = (\<lambda>_. Inl ValueError), app_sign = sample_sign_env\<rparr>"

theorem interleaving_serialises_witness:
  "\<exists>s'. cruns echo_app (start_state Map.empty start_world, [])
      [Started 0 echo_feature, Started 1 echo_feature, Finished 1 echo_feature (Inl (FeatureUnavailable []))] (s', [(0, echo_feature)])
    \<and> as_store s' = record_all [(feature_id echo_feature, False, 0)] Map.empty"
proof -
  let ?s = "start_state Map.empty start_world"
  let ?a = "echo_feature"
  let ?r = "Inl (FeatureUnavailable []) :: exn + invoke_result"
  have o: "offers (app_catalog echo_app) ?a"
    unfolding offers_def echo_app_def in_memory_ops_def in_memory_get_def
    by (rule disjI1, rule exI [of _ "lit ''echo''"]) (simp add: dict_get_def)
  have b: "invoke_begin echo_app ?a \<lparr>r_input = [], r_context = default_context\<rparr> = Inr ()"
    by (simp add: invoke_begin_def collect_errors_def echo_feature_def manifest_defaults_def)
  obtain x s' where e: "invoke_end ?a ?r (?s\<lparr>as_world := start_world\<rparr>) = (x, s')"
    by (cases "invoke_end ?a ?r (?s\<lparr>as_world := start_world\<rparr>)")
  have "cruns echo_app (?s, []) [Started 0 ?a] (?s, [(0, ?a)])"
    using cruns.c_more [OF cruns.c_none cstep.c_start [OF o b, of 0 "[]" ?s]] by simp
  from cruns.c_more [OF this cstep.c_start [OF o b]]
  have "cruns echo_app (?s, []) [Started 0 ?a, Started 1 ?a] (?s, [(0, ?a), (1, ?a)])" by simp
  from cruns.c_more [OF this cstep.c_finish [where n = 1, OF _ _ e]]
  have r: "cruns echo_app (?s, []) [Started 0 ?a, Started 1 ?a, Finished 1 ?a ?r] (s', [(0, ?a)])" by simp
  from interleaving_serialises [OF r] r show ?thesis by (auto simp: start_state_def)
qed

end
