(* ===== verification/Failover.thy ===== *)
theory Failover
  imports Faces
begin

text \<open>
  Liveness of the metrics policy: while the first provider of a capability keeps failing, each
  failure lowers its score, and after a number of calls that its recorded successes bound
  another provider is ranked first.
\<close>

section \<open>Scores after failures\<close>

text \<open>The store entries of a feature after \<open>k\<close> more failures.\<close>

definition failures :: "nat \<Rightarrow> pystr \<Rightarrow> outcome list" where
  "failures k fid = replicate k (fid, False, 0)"

lemma failures_Suc: "record_all (failures (Suc k) fid) store = record_outcome (record_all (failures k fid) store) fid False 0"
proof -
  have "failures (Suc k) fid = failures k fid @ [(fid, False, 0)]"
    by (simp add: failures_def replicate_append_same)
  then show ?thesis by (simp add: record_all_def)
qed

lemma failures_other: "g \<noteq> fid \<Longrightarrow> record_all (failures k fid) store g = store g"
proof (induction k)
  case 0
  then show ?case by (simp add: failures_def)
next
  case (Suc k)
  then show ?case by (simp add: failures_Suc record_outcome_other)
qed

lemma failures_counts:
  "counts (record_all (failures k fid) store) fid = (fst (counts store fid) + k, snd (counts store fid))"
  by (simp add: counts_record_all failures_def)

lemma failures_ok: "store_ok store \<Longrightarrow> store_ok (record_all (failures k fid) store)"
  by (rule store_ok_record_all) (auto simp: failures_def)

lemma rate_after_failures:
  assumes "0 < n" and "K * s \<le> n" and "0 < K"
  shows "int_div (int s) (int n) \<le> 1 / of_nat K + 1 / 2 ^ 53" and "0 \<le> int_div (int s) (int n)"
proof -
  have "of_nat (K * s) \<le> (of_nat n :: rat)" using assms(2) by (simp only: of_nat_le_iff)
  then have q: "of_nat s / of_nat n \<le> (1 :: rat) / of_nat K" using assms by (simp add: field_simps)
  also have "(1 :: rat) / of_nat K \<le> 1" using assms(3) by (simp add: divide_le_eq_1)
  finally have "\<bar>of_nat s / of_nat n\<bar> < (2 :: rat)" by simp
  from fl_near [OF this] q show "int_div (int s) (int n) \<le> 1 / of_nat K + 1 / 2 ^ 53"
    by (simp add: int_div_def)
  show "0 \<le> int_div (int s) (int n)" by (simp add: int_div_def fl_nonneg)
qed

lemma score_after_failures:
  assumes "store_ok store" and "0 \<le> latency_weight p" and "0 < K" and "K \<le> 2 ^ 50"
    and "K * snd (counts store (feature_id h)) < k"
  shows "metrics_score p (record_all (failures k (feature_id h)) store) h < trust_prior (f_trust h) + 2 / of_nat K"
proof -
  let ?st = "record_all (failures k (feature_id h)) store" and ?t = "trust_prior (f_trust h)"
  let ?n = "fst (counts store (feature_id h)) + k" and ?s = "snd (counts store (feature_id h))"
  let ?r = "int_div (int ?s) (int ?n)"
  have c: "counts ?st (feature_id h) = (?n, ?s)" by (rule failures_counts)
  then obtain m where m: "?st (feature_id h) = Some m" "fm_invocations m = ?n" "fm_successes m = ?s"
    using assms(5) by (auto simp: counts_def split: option.splits)
  have ok: "metrics_ok m" using failures_ok [OF assms(1)] m(1) by (auto simp: store_ok_def)
  have r: "success_rate m = Some ?r" using m assms(5) by (simp add: success_rate_def)
  have bound: "?r \<le> 1 / of_nat K + 1 / 2 ^ 53" "0 \<le> ?r"
    using rate_after_failures [of ?n K ?s] assms(3,5) by simp_all
  have "(2::rat) ^ 50 = of_nat (2 ^ 50)" by simp
  then have K: "of_nat K \<le> (2::rat) ^ 50" using assms(4) by (simp only: of_nat_le_iff)
  have K1: "1 / 2 ^ 50 \<le> 1 / (of_nat K :: rat)" using K assms(3) by (simp add: divide_left_mono)
  have "1 / (of_nat K :: rat) \<le> 1" using assms(3) by simp
  then have "\<bar>?r + ?t\<bar> < 2" using bound trust_prior_bounds(1) [of "f_trust h"] trust_prior_le [of "f_trust h"] by simp
  from fl_near [OF this] have a: "fadd ?r ?t \<le> ?r + ?t + 1 / 2 ^ 53" by (simp add: fadd_def)
  have "metrics_score p ?st h \<le> fsub (fadd ?r ?t) 0"
    unfolding score_known [where store = ?st and f = h, OF m(1) r]
    using latency_penalty_nonneg [OF ok assms(2)] by (intro fsub_mono) simp_all
  also have "\<dots> = fadd ?r ?t" by (simp add: fsub_def fadd_def)
  also have "\<dots> \<le> 1 / of_nat K + 2 / 2 ^ 53 + ?t" using a bound by simp
  also have "\<dots> < ?t + 2 / of_nat K" using K1 by simp
  finally show ?thesis .
qed

section \<open>Repeated calls\<close>

text \<open>The state after \<open>n\<close> invocations of a capability with the same request.\<close>

fun after_calls :: "'e app \<Rightarrow> pystr \<Rightarrow> invoke_request \<Rightarrow> nat \<Rightarrow> 'e app_state \<Rightarrow> 'e app_state" where
  "after_calls a c body 0 s = s"
| "after_calls a c body (Suc n) s = snd (invoke_capability a c body None None (after_calls a c body n s))"

text \<open>A feature that accepts the request and is unavailable whenever it is called.\<close>

definition dead :: "'e app \<Rightarrow> invoke_request \<Rightarrow> feature \<Rightarrow> bool" where
  "dead a body h \<longleftrightarrow> collect_errors (app_validator a) (JObj (r_input body)) (m_input_schema (f_manifest h)) = Inr []
     \<and> (\<forall>w. \<exists>m w'. app_invoke a (f_name h) (JObj (r_input body)) (r_context body) w = (Inl (FeatureUnavailable m), w'))"

lemma dead_call:
  assumes "dead a body h"
  shows "as_store (snd (gw_invoke a h body s)) = record_outcome (as_store s) (feature_id h) False 0"
proof -
  obtain m w' where r: "app_invoke a (f_name h) (JObj (r_input body)) (r_context body) (as_world s) = (Inl (FeatureUnavailable m), w')"
    using assms unfolding dead_def by blast
  with assms show ?thesis
    by (simp add: dead_def gw_invoke_def bindM_liftE attempt_run [OF r] http_error_def raiseM_run)
qed

lemma calls_while_first:
  assumes ps: "providers a c None None = Inr fs"
    and dead: "\<And>h. h \<in> set fs \<Longrightarrow> feature_id h = gid \<Longrightarrow> dead a body h"
    and first: "\<And>m. m < n \<Longrightarrow> \<exists>h hs. policy_rank (app_policy a) (as_store (after_calls a c body m s)) fs = Inr (h # hs) \<and> feature_id h = gid"
  shows "as_store (after_calls a c body n s) = record_all (failures n gid) (as_store s)"
  using first
proof (induction n)
  case 0
  show ?case by (simp add: failures_def)
next
  case (Suc n)
  let ?s = "after_calls a c body n s"
  obtain h hs where h: "policy_rank (app_policy a) (as_store ?s) fs = Inr (h # hs)" "feature_id h = gid"
    using Suc.prems [of n] by auto
  then have "h \<in> set fs" using active.rank_set [of "app_policy a" "as_store ?s" fs "h # hs"] by auto
  then have "dead a body h" using dead h(2) by blast
  then have "as_store (after_calls a c body (Suc n) s) = record_outcome (as_store ?s) gid False 0"
    using h by (simp add: capability_run ps dead_call)
  then show ?case using Suc.IH Suc.prems by (simp only: failures_Suc less_SucI)
qed

text \<open>
  C9. A provider that is down is given up after a bounded number of calls, if there is an
  alternative. Take the metrics policy with a latency weight that is not negative, a sound store and
  providers whose versions parse. Let every provider recorded under one id accept the payload and
  always answer \<open>FeatureUnavailable\<close>, and let a provider under another id score at least their trust
  prior plus \<open>2 / K\<close>, for some \<open>K\<close> up to \<open>2 ^ 50\<close>. Then, repeating the same request for the capability,
  after at most \<open>K\<close> calls for each outcome recorded of that id so far, and one more, the first
  provider of the ranking has another id. Scores are the rounded floats of the code.
\<close>

theorem capability_fails_over:
  assumes "app_policy a = MetricsPolicy p" and "0 \<le> latency_weight p" and "store_ok (as_store s)"
    and "providers a c None None = Inr fs" and "list_all version_ok fs" and "f \<in> set fs" and "feature_id f \<noteq> gid"
    and "0 < K" and "K \<le> 2 ^ 50"
    and "\<forall>h \<in> set fs. feature_id h = gid \<longrightarrow>
      dead a body h \<and> trust_prior (f_trust h) + 2 / of_nat K \<le> metrics_score p (as_store s) f"
  shows "\<exists>n \<le> K * snd (counts (as_store s) gid) + 1. \<exists>h hs.
    ranked_providers a c None None (after_calls a c body n s) = (Inr (h # hs), after_calls a c body n s) \<and> feature_id h \<noteq> gid"
proof (rule ccontr)
  assume no: "\<not> ?thesis"
  let ?N = "K * snd (counts (as_store s) gid) + 1"
  let ?st = "\<lambda>n. as_store (after_calls a c body n s)"
  have ranked: "\<exists>h hs. policy_rank (app_policy a) (?st n) fs = Inr (h # hs)" for n
    using active.rank_ok [OF assms(5), of "app_policy a" "?st n"] active.rank_Nil [of "app_policy a" "?st n" fs] assms(6)
    by (metis list.exhaust list.distinct(1) list.set_cases)
  have first: "\<exists>h hs. policy_rank (app_policy a) (?st n) fs = Inr (h # hs) \<and> feature_id h = gid" if "n \<le> ?N" for n
    using ranked [of n] no that by (auto simp: ranked_run assms(4))
  have st: "?st ?N = record_all (failures ?N gid) (as_store s)"
    by (rule calls_while_first [OF assms(4)]) (use assms(10) first in auto)
  obtain h hs where h: "metrics_rank p (?st ?N) fs = Inr (h # hs)" "feature_id h = gid"
    using first [of ?N] assms(1) by auto
  have hf: "h \<in> set fs" using metrics.rank_set [OF h(1)] by auto
  have "metrics_score p (?st ?N) f = metrics_score p (as_store s) f"
    using failures_other [OF assms(7)] unfolding st by (simp add: metrics_score_def)
  moreover have "metrics_score p (?st ?N) h < trust_prior (f_trust h) + 2 / of_nat K"
    using score_after_failures [OF assms(3,2,8,9), of h ?N] h(2) unfolding st by simp
  moreover have "metrics_score p (?st ?N) f \<le> metrics_score p (?st ?N) h" by (rule metrics.rank_top [OF h(1) assms(6)])
  ultimately show False using assms(10) hf h(2) by fastforce
qed

text \<open>Two providers of one capability, the more trusted of which is always down.\<close>

definition down :: feature where
  "down = sample_feature ''a'' ''acme'' VERIFIED ''1.0.0''"

definition spare :: feature where
  "spare = sample_feature ''g'' ''globex'' COMMUNITY ''1.2.0''"

definition failing_app :: "int app" where
  "failing_app =
     \<lparr>app_catalog = in_memory_ops [(lit ''a'', down), (lit ''g'', spare)], app_invoke = (\<lambda>n p c w. (Inl (FeatureUnavailable []), w)),
      app_policy = MetricsPolicy metrics_policy_init, app_validator = None, app_loads = (\<lambda>_. Inl ValueError), app_sign = sample_sign_env\<rparr>"

definition down_body :: invoke_request where
  "down_body = \<lparr>r_input = [], r_context = default_context\<rparr>"

theorem capability_fails_over_witness:
  "\<exists>n \<le> 1. \<exists>h hs. ranked_providers failing_app (f_capability down) None None
      (after_calls failing_app (f_capability down) down_body n (start_state Map.empty start_world)) =
      (Inr (h # hs), after_calls failing_app (f_capability down) down_body n (start_state Map.empty start_world))
    \<and> feature_id h \<noteq> feature_id down"
proof -
  let ?s = "start_state Map.empty start_world :: int app_state"
  have p: "app_policy failing_app = MetricsPolicy metrics_policy_init" by (simp add: failing_app_def)
  have w: "0 \<le> latency_weight metrics_policy_init" by (simp add: metrics_policy_init_def fl_nonneg)
  have e: "as_store ?s = Map.empty" by (simp add: start_state_def)
  have ok: "store_ok (as_store ?s)" by (simp add: e)
  let ?fs = "[down, spare]"
  have ps: "providers failing_app (f_capability down) None None = Inr ?fs"
  proof -
    have "lit ''a'' \<le> lit ''g''" by (simp add: lit_def less_uchar_def)
    then have "sort_key f_name [down, spare] = [down, spare]"
      by (intro sort_key_id_if_sorted) (simp add: down_def spare_def sample_feature_def manifest_defaults_def)
    then show ?thesis
      by (simp add: providers_def failing_app_def in_memory_ops_def in_memory_list_def list_results_def given_def
          dict_values_def) (simp add: down_def spare_def sample_feature_def)
  qed
  have fs: "list_all version_ok ?fs" "spare \<in> set ?fs" "feature_id spare \<noteq> feature_id down"
    using sample_version_ok by (simp_all add: down_def spare_def sample_feature_def feature_id_def lit_def)
  have "metrics_score metrics_policy_init Map.empty spare = fl (7 / 10)"
    by (simp add: score_unknown metrics_policy_init_def spare_def sample_feature_def fadd_def fsub_def)
  moreover have "trust_prior (f_trust down) = fl (5 / 100)" by (simp add: down_def sample_feature_def)
  ultimately have "trust_prior (f_trust down) + 2 / of_nat 4 \<le> metrics_score metrics_policy_init Map.empty spare"
    using fl_near [of "5 / 100"] fl_near [of "7 / 10"] by simp
  moreover have "collect_errors None (JObj []) (m_input_schema (f_manifest down)) = Inr []"
    by (simp add: collect_errors_def down_def sample_feature_def manifest_defaults_def)
  ultimately have "list_all (\<lambda>h. feature_id h = feature_id down \<longrightarrow>
      trust_prior (f_trust h) + 2 / of_nat 4 \<le> metrics_score metrics_policy_init Map.empty spare
      \<and> collect_errors None (JObj []) (m_input_schema (f_manifest h)) = Inr []) ?fs" using fs(3) by simp
  then have d: "\<forall>h \<in> set ?fs. feature_id h = feature_id down \<longrightarrow> dead failing_app down_body h
      \<and> trust_prior (f_trust h) + 2 / of_nat 4 \<le> metrics_score metrics_policy_init (as_store ?s) spare"
    by (simp add: list_all_iff dead_def failing_app_def down_body_def e)
  have "(4::nat) \<le> 2 ^ 50" by simp
  from capability_fails_over [OF p w ok ps fs _ this d] show ?thesis by (simp add: e counts_def)
qed

end
