(* ===== verification/JsonParser.thy ===== *)
theory JsonParser
  imports JsonContent
begin

text \<open>
  The exceptions of \<open>json.loads\<close>: only \<open>ValueError\<close> and \<open>RecursionError\<close>, the second never on a
  text with no more opening brackets than the limit and always on one that starts with more;
  and the parsers of the application, which agree with the scanner.
\<close>

section \<open>Exceptions of the parser\<close>

definition parse_error :: "exn \<Rightarrow> bool" where
  "parse_error e \<longleftrightarrow> e = ValueError \<or> e = RecursionError"

lemma parse_error_simps [simp]: "parse_error ValueError" "parse_error RecursionError"
  by (simp_all add: parse_error_def)

lemma bindS_eq_Failed:
  "bindS m k = Failed e \<longleftrightarrow> m = Failed e \<or> (\<exists>v r. m = Scanned v r \<and> k v r = Failed e)"
  by (cases m) auto

lemma scan_escape_fails: "scan_escape s = Failed e \<Longrightarrow> e = ValueError"
  by (cases s) (auto split: option.splits if_splits)

lemma scanstring_fails: "scanstring s = Failed e \<Longrightarrow> e = ValueError"
  by (induction s rule: scanstring.induct) (auto simp: bindS_eq_Failed dest: scan_escape_fails split: if_splits)

lemma scan_number_fails: "scan_number s = Failed e \<Longrightarrow> e = ValueError"
  by (auto simp: scan_number_def scan_unsigned_def scan_float_def Let_def py_int_def
      split: if_splits option.splits prod.splits sum.splits)

lemma scan_rest_fails:
  "scan_rest close v r more = Failed e \<Longrightarrow> (\<And>t. length t < length r \<Longrightarrow> more t = Failed e \<Longrightarrow> parse_error e) \<Longrightarrow> parse_error e"
  using skip_ws_Cons_less [of r]
  by (auto simp: scan_rest_def bindS_eq_Failed parse_error_def split: list.splits if_splits)

lemma scan_fails:
  "scan_once d s = Failed e \<Longrightarrow> parse_error e"
  "scan_items d s = Failed e \<Longrightarrow> parse_error e"
  "scan_members d s = Failed e \<Longrightarrow> parse_error e"
proof (induction d s and d s and d s rule: scan_once_scan_items_scan_members.induct)
  case (2 d c s)
  then show ?case
    by (auto simp: bindS_eq_Failed dest: scanstring_fails scan_number_fails split: if_splits nat.splits)
next
  case (3 d s)
  then show ?case by (auto simp: scan_items.simps [of d s] bindS_eq_Failed intro: scan_rest_fails)
next
  case (5 d q s)
  then show ?case
    by (auto simp: bindS_eq_Failed dest: scanstring_fails split: if_splits intro: scan_rest_fails)
qed (simp_all add: parse_error_def)

lemma json_loads_fails: "json_loads limit s = Failed e \<Longrightarrow> parse_error e"
  by (auto simp: json_loads_def bindS_eq_Failed parse_error_def dest: scan_fails split: if_splits)

text \<open>Opening brackets bound the nesting, so a text with no more of them than the limit is safe.\<close>

definition opens :: "pystr \<Rightarrow> nat" where
  "opens s = length (filter (\<lambda>c. c = Lat (CHR ''['') \<or> c = Lat (CHR 0x7B)) s)"

lemma opens_Cons [simp]: "opens (c # s) = (if c = Lat (CHR ''['') \<or> c = Lat (CHR 0x7B) then 1 else 0) + opens s"
  by (simp add: opens_def)

lemma opens_append [simp]: "opens (a @ b) = opens a + opens b"
  by (simp add: opens_def)

lemma opens_drop: "opens (drop n s) \<le> opens s"
  using opens_append [of "take n s" "drop n s"] by simp

lemma opens_skip_ws: "opens (skip_ws s) \<le> opens s"
  using opens_append [of "takeWhile json_ws s" "skip_ws s"] by (simp add: skip_ws_def)

lemma opens_tl: "opens (tl s) \<le> opens s"
  using opens_drop [of 1 s] by (simp add: drop_Suc)

lemma scan_escape_opens: "scan_escape s = Scanned c r \<Longrightarrow> opens r \<le> opens s"
  by (cases s) (auto simp: le_SucI opens_drop split: option.splits if_splits)

lemma scanstring_opens: "scanstring s = Scanned v r \<Longrightarrow> opens r \<le> opens s"
proof (induction s arbitrary: v r rule: scanstring.induct)
  case (2 c s)
  then show ?case by (fastforce simp: bindS_eq_Scanned dest: scan_escape_opens split: if_splits)
qed simp

lemma scan_number_opens: "scan_number s = Scanned v r \<Longrightarrow> opens r \<le> opens s"
proof -
  assume s: "scan_number s = Scanned v r"
  have "\<exists>n. r = drop n t" if "scan_unsigned neg t = Scanned v r" for neg t
    using that by (auto simp: scan_unsigned_def scan_float_def Let_def drop_drop simp del: drop_Suc_Cons
        split: option.splits prod.splits sum.splits if_splits)
  then obtain n where "r = drop n s \<or> r = drop n (tl s)" using s by (auto simp: scan_number_def split: if_splits)
  then show ?thesis using opens_drop [of n s] opens_drop [of n "tl s"] opens_tl [of s] by auto
qed

lemma scan_rest_opens:
  assumes "scan_rest close v r more = Scanned vs u"
    and "\<And>t vs u. length t < length r \<Longrightarrow> more t = Scanned vs u \<Longrightarrow> opens u \<le> opens t"
  shows "opens u \<le> opens r"
proof (cases "skip_ws r")
  case Nil
  with assms(1) show ?thesis by (simp add: scan_rest_def)
next
  case (Cons c t)
  then have o: "opens t \<le> opens r" using opens_skip_ws [of r] by simp
  show ?thesis
  proof (cases "c = close")
    case True
    with assms(1) Cons o show ?thesis by (simp add: scan_rest_def)
  next
    case False
    then obtain vs' where "more (skip_ws t) = Scanned vs' u"
      using assms(1) Cons by (auto simp: scan_rest_def bindS_eq_Scanned split: if_splits)
    then have "opens u \<le> opens (skip_ws t)" using assms(2) skip_ws_Cons_less [OF Cons] by blast
    then show ?thesis using o opens_skip_ws [of t] by linarith
  qed
qed

lemma scan_opens:
  "scan_once d s = Scanned v r \<Longrightarrow> opens r \<le> opens s"
  "scan_items d s = Scanned vs r \<Longrightarrow> opens r \<le> opens s"
  "scan_members d s = Scanned kvs r \<Longrightarrow> opens r \<le> opens s"
proof (induction d s and d s and d s arbitrary: v r and vs r and kvs r rule: scan_once_scan_items_scan_members.induct)
  case (2 d c s)
  note le = opens_skip_ws [of s] opens_tl [of "skip_ws s"]
  consider "c = Lat (CHR 0x22)" | "c = Lat (CHR 0x7B)" | "c = Lat (CHR ''['')"
    | "c \<noteq> Lat (CHR 0x22)" "c \<noteq> Lat (CHR 0x7B)" "c \<noteq> Lat (CHR ''['')" by blast
  then show ?case
  proof cases
    case 1
    with 2(3) show ?thesis by (auto simp: bindS_eq_Scanned dest: scanstring_opens)
  next
    case 2
    with "2.prems" "2.IH" le show ?thesis by (fastforce simp: bindS_eq_Scanned split: nat.splits if_splits)
  next
    case 3
    with "2.prems" "2.IH" le show ?thesis by (fastforce simp: bindS_eq_Scanned split: nat.splits if_splits)
  next
    case 4
    with "2.prems" show ?thesis
      using opens_drop [of 4 "c # s"] opens_drop [of 5 "c # s"] by (auto dest: scan_number_opens split: if_splits)
  qed
next
  case (3 d s)
  from 3(3) obtain v t where t: "scan_once d s = Scanned v t" "scan_rest (Lat (CHR '']'')) v t (scan_items d) = Scanned vs r"
    by (auto simp: scan_items.simps [of d s] bindS_eq_Scanned)
  have "opens r \<le> opens t" by (rule scan_rest_opens [OF t(2)]) (rule 3(2) [OF t(1)])
  also have "\<dots> \<le> opens s" by (rule 3(1) [OF t(1)])
  finally show ?case .
next
  case (5 d q s)
  from 5(3) obtain k a v t where q: "\<not> q \<noteq> Lat (CHR 0x22)" and a: "scanstring s = Scanned k a" "\<not> \<not> startswith (skip_ws a) [Lat (CHR '':'')]"
    and t: "scan_once d (skip_ws (tl (skip_ws a))) = Scanned v t" "scan_rest (Lat (CHR 0x7D)) (k, v) t (scan_members d) = Scanned kvs r"
    by (auto simp: bindS_eq_Scanned split: if_splits)
  have "opens r \<le> opens t" by (rule scan_rest_opens [OF t(2)]) (rule 5(2) [OF q a t(1)])
  also have "\<dots> \<le> opens (skip_ws (tl (skip_ws a)))" by (rule 5(1) [OF q a t(1)])
  also have "\<dots> \<le> opens a" using opens_skip_ws [of "tl (skip_ws a)"] opens_tl [of "skip_ws a"] opens_skip_ws [of a] by linarith
  also have "\<dots> \<le> opens (q # s)" using scanstring_opens [OF a(1)] by simp
  finally show ?case .
qed simp_all

lemma scan_rest_limit:
  assumes "scan_rest close v r more = Failed RecursionError" and "opens r \<le> d"
    and "\<And>t. length t < length r \<Longrightarrow> opens t \<le> d \<Longrightarrow> more t \<noteq> Failed RecursionError"
  shows False
proof (cases "skip_ws r")
  case Nil
  with assms(1) show ?thesis by (simp add: scan_rest_def)
next
  case (Cons c t)
  then have "opens (skip_ws t) \<le> d" using opens_skip_ws [of r] opens_skip_ws [of t] assms(2) by simp
  then show ?thesis using assms(1) assms(3) [of "skip_ws t"] Cons skip_ws_Cons_less [OF Cons]
    by (auto simp: scan_rest_def bindS_eq_Failed split: if_splits)
qed

lemma scan_within_limit:
  "opens s \<le> d \<Longrightarrow> scan_once d s \<noteq> Failed RecursionError"
  "opens s \<le> d \<Longrightarrow> scan_items d s \<noteq> Failed RecursionError"
  "opens s \<le> d \<Longrightarrow> scan_members d s \<noteq> Failed RecursionError"
proof (induction d s and d s and d s rule: scan_once_scan_items_scan_members.induct)
  case (2 d c s)
  note le = opens_skip_ws [of s]
  consider "c = Lat (CHR 0x22)" | "c = Lat (CHR 0x7B)" | "c = Lat (CHR ''['')"
    | "c \<noteq> Lat (CHR 0x22)" "c \<noteq> Lat (CHR 0x7B)" "c \<noteq> Lat (CHR ''['')" by blast
  then show ?case
  proof cases
    case 1
    then show ?thesis by (auto simp: bindS_eq_Failed dest: scanstring_fails)
  next
    case 2
    with "2.prems" "2.IH" le show ?thesis by (fastforce simp: bindS_eq_Failed split: nat.splits if_splits)
  next
    case 3
    with "2.prems" "2.IH" le show ?thesis by (fastforce simp: bindS_eq_Failed split: nat.splits if_splits)
  next
    case 4
    then show ?thesis by (auto dest: scan_number_fails split: if_splits)
  qed
next
  case (3 d s)
  show ?case
  proof
    assume "scan_items d s = Failed RecursionError"
    then obtain v t where t: "scan_once d s = Scanned v t" "scan_rest (Lat (CHR '']'')) v t (scan_items d) = Failed RecursionError"
      using 3(1,3) by (auto simp: scan_items.simps [of d s] bindS_eq_Failed)
    have "opens t \<le> d" using scan_opens(1) [OF t(1)] 3(3) by linarith
    from scan_rest_limit [OF t(2) this 3(2) [OF t(1)]] show False .
  qed
next
  case (5 d q s)
  show ?case
  proof
    assume r: "scan_members d (q # s) = Failed RecursionError"
    then have q: "\<not> q \<noteq> Lat (CHR 0x22)" by (auto split: if_splits)
    with r obtain k a where a: "scanstring s = Scanned k a" "\<not> \<not> startswith (skip_ws a) [Lat (CHR '':'')]"
      by (auto simp: bindS_eq_Failed dest: scanstring_fails split: if_splits)
    have le: "opens (skip_ws (tl (skip_ws a))) \<le> d"
      using opens_skip_ws [of "tl (skip_ws a)"] opens_tl [of "skip_ws a"] opens_skip_ws [of a] scanstring_opens [OF a(1)] 5(3) by simp
    with r q a 5(1) [OF q a] obtain v t where t: "scan_once d (skip_ws (tl (skip_ws a))) = Scanned v t"
      "scan_rest (Lat (CHR 0x7D)) (k, v) t (scan_members d) = Failed RecursionError"
      by (auto simp: bindS_eq_Failed)
    have "opens t \<le> d" using scan_opens(1) [OF t(1)] le by linarith
    from scan_rest_limit [OF t(2) this 5(2) [OF q a t(1)]] show False .
  qed
qed simp_all

lemma json_loads_within_limit: "opens s \<le> limit \<Longrightarrow> json_loads limit s \<noteq> Failed RecursionError"
  using scan_within_limit(1) [of "skip_ws s" limit] opens_skip_ws [of s]
  by (auto simp: json_loads_def bindS_eq_Failed split: if_splits)

text \<open>A scan that the limit does not cut off is the same under every larger limit.\<close>

lemma scan_rest_mono:
  assumes "scan_rest close v r more \<noteq> Failed RecursionError"
    and "\<And>t. length t < length r \<Longrightarrow> more t \<noteq> Failed RecursionError \<Longrightarrow> more' t = more t"
  shows "scan_rest close v r more' = scan_rest close v r more"
proof (cases "skip_ws r")
  case Nil
  then show ?thesis by (simp add: scan_rest_def)
next
  case (Cons c t)
  then show ?thesis using assms(1) assms(2) [of "skip_ws t"] skip_ws_Cons_less [OF Cons]
    by (auto simp: scan_rest_def bindS_eq_Failed)
qed

lemma scan_mono:
  "scan_once d s \<noteq> Failed RecursionError \<Longrightarrow> d \<le> d' \<Longrightarrow> scan_once d' s = scan_once d s"
  "scan_items d s \<noteq> Failed RecursionError \<Longrightarrow> d \<le> d' \<Longrightarrow> scan_items d' s = scan_items d s"
  "scan_members d s \<noteq> Failed RecursionError \<Longrightarrow> d \<le> d' \<Longrightarrow> scan_members d' s = scan_members d s"
proof (induction d s and d s and d s arbitrary: d' and d' and d' rule: scan_once_scan_items_scan_members.induct)
  case (2 d c s)
  consider "c = Lat (CHR 0x22)" | "c = Lat (CHR 0x7B)" | "c = Lat (CHR ''['')"
    | "c \<noteq> Lat (CHR 0x22)" "c \<noteq> Lat (CHR 0x7B)" "c \<noteq> Lat (CHR ''['')" by blast
  then show ?case
  proof cases
    case 2
    with "2.prems" obtain n n' where "d = Suc n" "d' = Suc n'" "n \<le> n'" by (cases d; cases d') auto
    with 2 "2.prems"(1) "2.IH"(1) [of n n'] show ?thesis by (auto simp: bindS_eq_Failed)
  next
    case 3
    with "2.prems" obtain n n' where "d = Suc n" "d' = Suc n'" "n \<le> n'" by (cases d; cases d') auto
    with 3 "2.prems"(1) "2.IH"(2) [of n n'] show ?thesis by (auto simp: bindS_eq_Failed)
  qed simp_all
next
  case (3 d s)
  have once: "scan_once d' s = scan_once d s"
    by (rule "3.IH"(1) [OF _ "3.prems"(2)]) (use "3.prems"(1) in \<open>simp add: scan_items.simps [of d s] bindS_eq_Failed\<close>)
  show ?case
  proof (cases "scan_once d s")
    case (Scanned v r)
    with "3.prems" have "scan_rest (Lat (CHR '']'')) v r (scan_items d) \<noteq> Failed RecursionError"
      by (simp add: scan_items.simps [of d s])
    then have "scan_rest (Lat (CHR '']'')) v r (scan_items d') = scan_rest (Lat (CHR '']'')) v r (scan_items d)"
      by (rule scan_rest_mono) (rule "3.IH"(2) [OF Scanned _ _ "3.prems"(2)])
    with once Scanned show ?thesis by (simp add: scan_items.simps [of _ s])
  qed (use once in \<open>simp_all add: scan_items.simps [of _ s]\<close>)
next
  case (5 d q s)
  note ih = "5.IH" and ne = "5.prems"(1) and le = "5.prems"(2)
  show ?case
  proof (cases "q \<noteq> Lat (CHR 0x22)")
    case q: False
    show ?thesis
    proof (cases "scanstring s")
      case k: (Scanned k a)
      show ?thesis
      proof (cases "\<not> startswith (skip_ws a) [Lat (CHR '':'')]")
        case colon: False
        let ?t = "skip_ws (tl (skip_ws a))"
        have step: "scan_members e (q # s) =
            bindS (scan_once e ?t) (\<lambda>v t. scan_rest (Lat (CHR 0x7D)) (k, v) t (scan_members e))" for e
          using q k colon by simp
        have "scan_once d ?t \<noteq> Failed RecursionError" using ne unfolding step by (simp add: bindS_eq_Failed)
        with ih(1) [OF q k colon _ le] have once: "scan_once d' ?t = scan_once d ?t" .
        show ?thesis
        proof (cases "scan_once d ?t")
          case (Scanned v r)
          have "scan_rest (Lat (CHR 0x7D)) (k, v) r (scan_members d) \<noteq> Failed RecursionError"
            using ne unfolding step Scanned bindS_simps .
          then have "scan_rest (Lat (CHR 0x7D)) (k, v) r (scan_members d') = scan_rest (Lat (CHR 0x7D)) (k, v) r (scan_members d)"
            by (rule scan_rest_mono) (rule ih(2) [OF q k colon Scanned _ _ le])
          then show ?thesis unfolding step once Scanned bindS_simps .
        qed (simp_all only: step once bindS_simps)
      qed (use q k in simp)
    qed (use q in simp_all)
  qed simp
qed simp_all

lemma json_loads_mono:
  assumes "json_loads limit s \<noteq> Failed RecursionError" and "limit \<le> limit'"
  shows "json_loads limit' s = json_loads limit s"
proof -
  have "scan_once limit (skip_ws s) \<noteq> Failed RecursionError" using assms(1) by (auto simp: json_loads_def)
  from scan_mono(1) [OF this assms(2)] show ?thesis by (simp add: json_loads_def)
qed

lemma json_loads_enough: "opens s \<le> limit \<Longrightarrow> json_loads limit s = json_loads (opens s) s"
  by (rule json_loads_mono [OF json_loads_within_limit [OF order_refl]])

text \<open>Deeper nesting raises, whatever follows.\<close>

lemma scan_too_deep: "scan_once d (replicate (Suc d) (Lat (CHR ''['')) @ s) = Failed RecursionError"
proof (induction d)
  case 0
  show ?case by (simp add: lit_def)
next
  case (Suc d)
  let ?t = "replicate (Suc d) (Lat (CHR ''['')) @ s"
  have "skip_ws ?t = ?t" "\<not> startswith ?t [Lat (CHR '']'')]" by (simp_all add: skip_ws_def json_ws_def startswith_Cons_simp)
  with Suc show ?case by (simp add: scan_items.simps)
qed

lemma json_loads_too_deep: "json_loads limit (replicate (Suc limit) (Lat (CHR ''['')) @ s) = Failed RecursionError"
proof -
  let ?t = "replicate (Suc limit) (Lat (CHR ''['')) @ s"
  have "skip_ws ?t = ?t" by (simp add: skip_ws_def json_ws_def)
  then show ?thesis unfolding json_loads_def by (simp only: scan_too_deep bindS_simps)
qed

section \<open>Parsers\<close>

text \<open>
  A parser that agrees with the scanner where the scanner says something: what the program
  calls \<open>json.loads\<close>, with whatever it returns beyond the modelled values.
\<close>

definition json_parser :: "nat \<Rightarrow> (pystr \<Rightarrow> exn + json) \<Rightarrow> bool" where
  "json_parser limit loads \<longleftrightarrow>
     (\<forall>s. case json_loads limit s of Scanned v r \<Rightarrow> loads s = Inr v | Failed e \<Rightarrow> loads s = Inl e | Outside \<Rightarrow> True)"

definition model_loads :: "nat \<Rightarrow> pystr \<Rightarrow> exn + json" where
  "model_loads limit s =
     (case json_loads limit s of Scanned v r \<Rightarrow> Inr v | Failed e \<Rightarrow> Inl e | Outside \<Rightarrow> Inl OtherException)"

lemma json_parser_model: "json_parser limit (model_loads limit)"
  by (simp add: json_parser_def model_loads_def split: scanned.split)

lemma json_parserD:
  assumes "json_parser limit loads"
  shows "json_loads limit s = Scanned v r \<Longrightarrow> loads s = Inr v"
    and "json_loads limit s = Failed e \<Longrightarrow> loads s = Inl e"
  using assms [unfolded json_parser_def, THEN spec, of s] by simp_all

lemma dumps_separates: "separates (lit '', '') (lit '': '')" "separates (lit '','') (lit '':'')"
  by (auto simp: separates_def lit_Cons json_ws_def)

lemma parser_dumps: "json_parser limit loads \<Longrightarrow> readable limit v \<Longrightarrow> loads (dumps v) = Inr v"
  unfolding dumps_def by (rule json_parserD(1) [OF _ loads_dumps_with [OF dumps_separates(1)]])

end
