(* ===== verification/ChatText.thy ===== *)
theory ChatText
  imports Faces JsonParser
begin

text \<open>
  The chat as text. A command is a word and a JSON text, so what it does depends on what
  \<open>json.loads\<close> makes of the text; the answer is a stream of frames, each of which holds one
  printed event. Here: a command with a printed payload does what the REST route does with
  the payload, texts that do not parse, and the frames as a client reads them.
\<close>

section \<open>Printed text\<close>

definition plain_c :: "uchar \<Rightarrow> bool" where
  "plain_c c \<longleftrightarrow> 32 \<le> cp c \<and> cp c \<le> 126"

lemma plain_c_Lat [simp]: "plain_c (Lat c) \<longleftrightarrow> 32 \<le> (of_char c :: int) \<and> (of_char c :: int) \<le> 126"
  by (simp add: plain_c_def)

lemma plain_decimal: "list_all isdecimal_c s \<Longrightarrow> list_all plain_c s"
  by (auto simp: list_all_iff isdecimal_c_def plain_c_def)

lemma plain_lit: "list_all plain_c (lit s) \<longleftrightarrow> list_all (\<lambda>c. plain_c (Lat c)) s"
  by (simp add: lit_def list_all_length)

lemma plain_dec_digits: "0 \<le> n \<Longrightarrow> list_all plain_c (dec_digits n)"
  by (rule plain_decimal [OF dec_digits_decimal])

lemma plain_str_of_int: "list_all plain_c (str_of_int i)"
  using plain_dec_digits [of i] plain_dec_digits [of "- i"] by (simp add: str_of_int_def lit_def)

lemma plain_exp_repr: "list_all plain_c (exp_repr e)"
  using plain_dec_digits [of "\<bar>e\<bar>"] by (simp add: exp_repr_def lit_def)

lemma plain_place_point: "significant ds \<Longrightarrow> list_all plain_c (place_point ds k)"
  using plain_decimal [of ds] plain_exp_repr
  by (auto simp: place_point_def Let_def significant_def lit_def list_all_iff plain_c_def
      dest: in_set_takeD in_set_dropD)

lemma plain_float_repr: "is_float64 x \<Longrightarrow> list_all plain_c (float_repr x)"
proof -
  have p: "list_all plain_c (pos_repr y)" if "fl y = y" "0 < y" for y
    using pos_repr_digits [OF that] plain_place_point by metis
  assume "is_float64 x"
  then show ?thesis using p [of x] p [of "- x"]
    by (cases "x = 0"; cases "x < 0") (auto simp: float_repr_def is_float64_def fl_minus lit_def)
qed

lemma plain_hex_digit: "0 \<le> n \<Longrightarrow> n < 16 \<Longrightarrow> plain_c (hex_digit n)"
  by (auto simp: hex_digit_def plain_c_def cp_char_of)

lemma plain_esc_char: "list_all plain_c (esc_char c)"
proof -
  have "list_all plain_c (hex4 n)" for n
    unfolding hex4_def list.map list.pred_inject by (intro conjI plain_hex_digit) simp_all
  then show ?thesis by (simp add: esc_char_def Let_def lit_def) (simp add: plain_c_def)
qed

lemma plain_dump_str: "list_all plain_c (dump_str s)"
  using plain_esc_char by (auto simp: dump_str_def plain_c_def list_all_iff)

lemma plain_join: "list_all plain_c sep \<Longrightarrow> list_all (list_all plain_c) ss \<Longrightarrow> list_all plain_c (join sep ss)"
  by (induction sep ss rule: join.induct) auto

text \<open>Printed values are one line of printable ASCII.\<close>

lemma plain_dumps:
  assumes "list_all plain_c isep" and "list_all plain_c ksep"
  shows "readable d v \<Longrightarrow> list_all plain_c (dumps_with isep ksep False v)"
proof (induction v arbitrary: d)
  case (JList vs)
  then have "list_all (list_all plain_c) (map (dumps_with isep ksep False) vs)" by (auto simp: list_all_iff)
  from plain_join [OF assms(1) this] show ?case by (simp add: lit_def)
next
  case (JObj kvs)
  have "list_all plain_c (dumps_with isep ksep False v)" if "(k, v) \<in> set kvs" for k v
    using JObj.IH [of "(k, v)" v "d - 1"] JObj.prems that by (auto simp: list_all_iff intro: snds.intros)
  then have "list_all (list_all plain_c) (map (\<lambda>(k, t). dump_str k @ ksep @ t) (map (\<lambda>(k, v). (k, dumps_with isep ksep False v)) kvs))"
    using plain_dump_str assms(2) by (auto simp: list_all_iff)
  from plain_join [OF assms(1) this] show ?case by (simp add: lit_def Let_def)
qed (simp_all add: plain_str_of_int plain_float_repr plain_dump_str plain_lit plain_c_def)

lemma plain_printed: "readable d v \<Longrightarrow> list_all plain_c (dumps v)"
  unfolding dumps_def by (rule plain_dumps) (simp_all add: lit_def)

section \<open>Commands\<close>

text \<open>A word that is neither split nor stripped.\<close>

definition plain_word :: "pystr \<Rightarrow> bool" where
  "plain_word n \<longleftrightarrow> n \<noteq> [] \<and> list_all (\<lambda>c. \<not> isspace_c c) n"

lemma strip_tight:
  assumes "s \<noteq> []" and "\<not> isspace_c (hd s)" and "\<not> isspace_c (last s)"
  shows "strip s = s"
proof -
  have "dropWhile isspace_c s = s" using assms(1,2) by (cases s) auto
  moreover have "dropWhile isspace_c (rev s) = rev s"
    using assms(1,3) by (cases "rev s") (auto simp: hd_rev [symmetric])
  ultimately show ?thesis by (simp add: strip_def strip_by_def)
qed

lemma space_c: "isspace_c (Lat (CHR '' ''))"
  by (simp add: isspace_c_def)

text \<open>A command whose text does not end in white space reaches \<open>chat_command\<close> in its two parts.\<close>

lemma chat_of_command:
  assumes "plain_word n" and "t \<noteq> []" and "\<not> isspace_c (last t)"
  shows "chat a (n @ Lat (CHR '' '') # t) = chat_command a (n @ Lat (CHR '' '') # t)"
    and "partition_on (Lat (CHR '' '')) (n @ Lat (CHR '' '') # t) = (n, t)"
    and "strip t \<noteq> []"
proof -
  let ?s = "n @ Lat (CHR '' '') # t"
  have n: "\<forall>c \<in> set n. \<not> isspace_c c" "n \<noteq> []" using assms(1) by (auto simp: plain_word_def list_all_iff)
  have s: "strip ?s = ?s" using n assms by (intro strip_tight) (auto simp: hd_append)
  have "Lat (CHR '' '') \<in> set ?s" by simp
  moreover have "Lat (CHR '' '') \<notin> set (lit ''help'')" "Lat (CHR '' '') \<notin> set (lit ''list'')" by (simp_all add: lit_def)
  ultimately have "?s \<noteq> []" "?s \<noteq> lit ''help''" "?s \<noteq> lit ''list''" by fastforce+
  then show "chat a ?s = chat_command a ?s" by (simp only: chat_def s Let_def if_False simp_thms)
  have "\<forall>c \<in> set n. c \<noteq> Lat (CHR '' '')" using n(1) space_c by blast
  then show "partition_on (Lat (CHR '' '')) ?s = (n, t)"
    by (simp add: partition_on_def takeWhile_append dropWhile_append)
  show "strip t \<noteq> []"
  proof
    assume "strip t = []"
    then have "\<forall>x \<in> set (dropWhile isspace_c t). isspace_c x" by (simp add: strip_def strip_by_def dropWhile_eq_Nil_conv)
    then have "dropWhile isspace_c t = []" using hd_dropWhile [of isspace_c t] hd_in_set by blast
    then show False using assms(2,3) by (simp add: dropWhile_eq_Nil_conv)
  qed
qed

text \<open>
  C24. A chat command whose text is not JSON sends one error event and changes nothing else, as long
  as the text opens no more arrays and objects than the interpreter's recursion limit. Beyond
  that the parser may raise \<open>RecursionError\<close>, which is no \<open>ValueError\<close>: it leaves the chat, and
  no event is sent at all.
\<close>

theorem chat_bad_json:
  assumes "json_parser limit (app_loads a)" and "plain_word n" and "t \<noteq> []" and "\<not> isspace_c (last t)"
    and "json_loads limit t = Failed e"
  shows "(opens t \<le> limit \<longrightarrow> e = ValueError)
    \<and> (e = ValueError \<longrightarrow> chat a (n @ Lat (CHR '' '') # t) s =
          (Inr (), s\<lparr>as_sent := as_sent s @ [error_event (lit ''the text after the command must be valid JSON'')]\<rparr>))
    \<and> (e \<noteq> ValueError \<longrightarrow> e = RecursionError \<and> chat a (n @ Lat (CHR '' '') # t) s = (Inl RecursionError, s))"
proof -
  note c = chat_of_command [OF assms(2-4)]
  have e: "parse_error e" by (rule json_loads_fails [OF assms(5)])
  have "app_loads a t = Inl e" using json_parserD(2) [OF assms(1,5)] .
  then have "chat a (n @ Lat (CHR '' '') # t) s = (case e of
      ValueError \<Rightarrow> send (error_event (lit ''the text after the command must be valid JSON'')) s | _ \<Rightarrow> raiseM e s)"
    by (simp add: c chat_command_def split: exn.splits)
  moreover have "opens t \<le> limit \<Longrightarrow> e \<noteq> RecursionError" using json_loads_within_limit assms(5) by blast
  ultimately show ?thesis using e by (auto simp: parse_error_def send_def raiseM_run)
qed

text \<open>An application with the model parser.\<close>

definition chat_app :: "int app" where
  "chat_app =
     \<lparr>app_catalog = in_memory_ops (in_memory_init [manifest_defaults (lit ''echo'')]), app_invoke = sample_invoke, app_policy = BaselinePolicy,
      app_validator = None, app_loads = model_loads 3, app_sign = sample_sign_env\<rparr>"

lemma chat_app_parser: "json_parser 3 (app_loads chat_app)"
  by (simp add: chat_app_def json_parser_model)

theorem chat_bad_json_witness:
  "chat chat_app (lit ''echo [[[['') (start_state Map.empty start_world) = (Inl RecursionError, start_state Map.empty start_world)
    \<and> chat chat_app (lit ''echo {x}'') (start_state Map.empty start_world) =
        (Inr (), (start_state Map.empty start_world)\<lparr>as_sent := [error_event (lit ''the text after the command must be valid JSON'')]\<rparr>)"
proof
  let ?s = "start_state Map.empty start_world"
  have w: "plain_word (lit ''echo'')" by code_simp
  have deep: "json_loads 3 (lit ''[[[['') = Failed RecursionError" by code_simp
  have bad: "json_loads 3 (lit ''{x}'') = Failed ValueError" by code_simp
  have t: "\<not> isspace_c (last (lit ''[[[[''))" "\<not> isspace_c (last (lit ''{x}''))" by code_simp+
  have e: "lit ''echo [[[['' = lit ''echo'' @ Lat (CHR '' '') # lit ''[[[[''"
    "lit ''echo {x}'' = lit ''echo'' @ Lat (CHR '' '') # lit ''{x}''" by (simp_all add: lit_def)
  from chat_bad_json [OF chat_app_parser w _ t(1) deep] show "chat chat_app (lit ''echo [[[['') ?s = (Inl RecursionError, ?s)"
    unfolding e by simp
  from chat_bad_json [OF chat_app_parser w _ t(2) bad] show "chat chat_app (lit ''echo {x}'') ?s =
        (Inr (), ?s\<lparr>as_sent := [error_event (lit ''the text after the command must be valid JSON'')]\<rparr>)"
    unfolding e by (simp add: start_state_def)
qed

section \<open>The chat and the REST routes\<close>

text \<open>The event for a response, and the texts for an answer that is an error.\<close>

definition reply_event :: "invoke_response \<Rightarrow> json" where
  "reply_event resp =
     JObj [(lit ''type'', JStr (lit ''result'')), (lit ''feature'', JStr (ir_feature resp)), (lit ''vendor'', JStr (ir_vendor resp)),
       (lit ''output'', JObj (ir_output resp)), (lit ''latency_ms'', JFloat (ir_latency_ms resp))]"

definition error_text :: "pystr \<Rightarrow> nat \<Rightarrow> pystr + pystr list \<Rightarrow> pystr" where
  "error_text n code detail =
     (case detail of
        Inr errors \<Rightarrow> lit ''invalid input: '' @ join (lit ''; '') errors
      | Inl _ \<Rightarrow>
          if code = 404 then
            (if startswith n (lit ''cap:'') then no_provider (drop 4 n)
             else lit ''unknown feature '' @ quoted n @ lit '' (try '' @ quoted (lit ''list'') @ lit '')'')
          else if code = 422 then lit ''the feature rejected the input''
          else lit ''the feature is currently unavailable'')"

text \<open>
  The chat (second run) does what the direct invocation (first run) does: the same state but
  for the events, and a result event, an error event or an exception as the direct answer has it.
\<close>

definition same_reply :: "pystr \<Rightarrow> json list \<Rightarrow> (exn + invoke_response) \<times> 'e app_state \<Rightarrow> (exn + unit) \<times> 'e app_state \<Rightarrow> bool" where
  "same_reply n sent x y \<longleftrightarrow> snd y = (snd x)\<lparr>as_sent := as_sent (snd y)\<rparr> \<and>
     (\<exists>ss. (\<forall>e \<in> set ss. event_type e = lit ''status'') \<and>
       (case fst x of
          Inr resp \<Rightarrow> fst y = Inr () \<and> as_sent (snd y) = sent @ ss @ [reply_event resp]
        | Inl (HTTPException code detail) \<Rightarrow>
            (code \<in> {404, 422, 503} \<and> fst y = Inr () \<and> as_sent (snd y) = sent @ ss @ [error_event (error_text n code detail)])
            \<or> fst y = Inl (HTTPException code detail) \<and> as_sent (snd y) = sent @ ss
        | Inl e \<Rightarrow> fst y = Inl e \<and> as_sent (snd y) = sent @ ss))"

text \<open>The route of a command: the feature, or the best provider of the capability.\<close>

definition direct :: "'e app \<Rightarrow> pystr \<Rightarrow> invoke_request \<Rightarrow> ('e app_state, invoke_response) io" where
  "direct a n body =
     (if startswith n (lit ''cap:'') then invoke_capability a (drop 4 n) body None None else invoke_feature a n body)"

lemma same_reply_exn: "same_reply n sent (Inl e, s) (Inl e, s\<lparr>as_sent := sent @ ss\<rparr>)" if "\<forall>e \<in> set ss. event_type e = lit ''status''"
  using that by (cases e) (auto simp: same_reply_def)

lemma same_reply_error:
  "\<forall>e \<in> set ss. event_type e = lit ''status'' \<Longrightarrow> code \<in> {404, 422, 503} \<Longrightarrow>
   same_reply n sent (Inl (HTTPException code detail), s) (Inr (), s\<lparr>as_sent := sent @ ss @ [error_event (error_text n code detail)]\<rparr>)"
  by (auto simp: same_reply_def)

lemma same_reply_result:
  "\<forall>e \<in> set ss. event_type e = lit ''status'' \<Longrightarrow> same_reply n sent (Inr resp, s) (Inr (), s\<lparr>as_sent := sent @ ss @ [reply_event resp]\<rparr>)"
  by (auto simp: same_reply_def)

text \<open>An admitted invocation, directly and in the chat, by what the invoker answers.\<close>

definition direct_answer :: "feature \<Rightarrow> exn + invoke_result \<Rightarrow> exn + invoke_response" where
  "direct_answer f r =
     (case r of
        Inr res \<Rightarrow> Inr \<lparr>ir_feature = f_name f, ir_version = f_version f, ir_output = res_output res,
            ir_latency_ms = res_latency_ms res, ir_vendor = f_vendor f\<rparr>
      | Inl (FeatureInputError m) \<Rightarrow> Inl (HTTPException 422 (Inl (lit ''feature '' @ quoted (f_name f) @ lit '' rejected the input'')))
      | Inl (FeatureUnavailable m) \<Rightarrow> Inl (HTTPException 503 (Inl (lit ''feature '' @ quoted (f_name f) @ lit '' is currently unavailable'')))
      | Inl e \<Rightarrow> Inl e)"

lemma gw_invoke_admitted:
  assumes "collect_errors (app_validator a) (JObj i) (m_input_schema (f_manifest f)) = Inr []"
    and "app_invoke a (f_name f) (JObj i) c (as_world s) = (r, w)"
  shows "gw_invoke a f \<lparr>r_input = i, r_context = c\<rparr> s = (direct_answer f r, after_call f s r w)"
  using assms(1) by (simp add: gw_invoke_def bindM_liftE attempt_run [where f = f, OF assms(2)] returnM_run http_error_def
      raiseM_run direct_answer_def split: sum.split exn.split)

definition invoking :: "feature \<Rightarrow> json" where
  "invoking f = status_event (lit ''invoking '' @ f_vendor f @ lit ''/'' @ f_name f @ [Ellipsis])"

lemma chat_invoke_checks:
  "chat_invoke a f p s =
     (let s1 = s\<lparr>as_sent := as_sent s @ [invoking f]\<rparr> in
      case collect_errors (app_validator a) p (m_input_schema (f_manifest f)) of
        Inl e \<Rightarrow> (Inl e, s1)
      | Inr errors \<Rightarrow>
          if errors \<noteq> [] then send (error_event (lit ''invalid input: '' @ join (lit ''; '') errors)) s1
          else attempt a f p default_context (send (error_event (lit ''the feature rejected the input'')))
            (send (error_event (lit ''the feature is currently unavailable''))) (\<lambda>result. send (result_event f result)) s1)"
  by (simp add: chat_invoke_def invoking_def bindM_def send_def liftE_run Let_def split: sum.split)

lemma after_call_sent: "after_call f (s\<lparr>as_sent := es\<rparr>) r w = (after_call f s r w)\<lparr>as_sent := es\<rparr>"
  by (cases "(f, s, r, w)" rule: after_call.cases) simp_all

lemma result_event_reply: "direct_answer f (Inr res) = Inr resp \<Longrightarrow> result_event f res = reply_event resp"
  by (auto simp: direct_answer_def result_event_def reply_event_def)

lemma chat_invoke_reply:
  assumes "\<forall>e \<in> set ss. event_type e = lit ''status''"
  shows "same_reply n (as_sent s) (gw_invoke a f \<lparr>r_input = i, r_context = default_context\<rparr> s)
    (chat_invoke a f (JObj i) (s\<lparr>as_sent := as_sent s @ ss\<rparr>))"
proof -
  let ?ss = "ss @ [invoking f]"
  have ss: "\<forall>e \<in> set ?ss. event_type e = lit ''status''" using assms by (auto simp: invoking_def)
  note err = same_reply_error [where n = n, OF ss]
  show ?thesis
  proof (cases "collect_errors (app_validator a) (JObj i) (m_input_schema (f_manifest f))")
    case (Inl e)
    then show ?thesis using same_reply_exn [OF ss] by (simp add: chat_invoke_checks gw_invoke_def bindM_liftE Let_def)
  next
    case errs: (Inr errs)
    show ?thesis
    proof (cases "errs = []")
      case False
      then show ?thesis using errs err [where code = 422 and detail = "Inr errs"]
        by (simp add: chat_invoke_checks gw_invoke_def bindM_liftE raiseM_run send_def error_text_def Let_def)
    next
      case True
      obtain r w where r: "app_invoke a (f_name f) (JObj i) default_context (as_world s) = (r, w)"
        by (cases "app_invoke a (f_name f) (JObj i) default_context (as_world s)")
      let ?s1 = "after_call f s r w"
      have x: "gw_invoke a f \<lparr>r_input = i, r_context = default_context\<rparr> s = (direct_answer f r, ?s1)"
        using True errs r by (intro gw_invoke_admitted) simp_all
      have r': "app_invoke a (f_name f) (JObj i) default_context (as_world (s\<lparr>as_sent := as_sent s @ ?ss\<rparr>)) = (r, w)"
        using r by simp
      have y: "chat_invoke a f (JObj i) (s\<lparr>as_sent := as_sent s @ ss\<rparr>) = (case direct_answer f r of
          Inr resp \<Rightarrow> (Inr (), ?s1\<lparr>as_sent := as_sent s @ ?ss @ [reply_event resp]\<rparr>)
        | Inl (HTTPException code detail) \<Rightarrow> (if \<exists>m. r = Inl (FeatureInputError m) \<or> r = Inl (FeatureUnavailable m)
            then (Inr (), ?s1\<lparr>as_sent := as_sent s @ ?ss @ [error_event (error_text n code detail)]\<rparr>)
            else (Inl (HTTPException code detail), ?s1\<lparr>as_sent := as_sent s @ ?ss\<rparr>))
        | Inl e \<Rightarrow> (Inl e, ?s1\<lparr>as_sent := as_sent s @ ?ss\<rparr>))"
        using True errs
        by (simp add: chat_invoke_checks Let_def attempt_run [where f = f, OF r'] after_call_sent send_def direct_answer_def
            error_text_def result_event_reply split: sum.split exn.split)
      show ?thesis unfolding x y using same_reply_exn [OF ss] same_reply_result [OF ss] err [where code = 422] err [where code = 503]
        by (auto simp: direct_answer_def split: sum.split exn.split)
    qed
  qed
qed

text \<open>What a command does once its text is parsed.\<close>

abbreviation typed :: "'e app \<Rightarrow> pystr \<Rightarrow> json \<Rightarrow> ('e app_state, unit) io" where
  "typed a n p \<equiv> bindM (chat_target a n) (\<lambda>target. case target of None \<Rightarrow> returnM () | Some f \<Rightarrow> chat_invoke a f p)"

lemma typed_capability_reply:
  assumes "startswith n (lit ''cap:'')"
  shows "same_reply n (as_sent s) (direct a n \<lparr>r_input = i, r_context = default_context\<rparr> s) (typed a n (JObj i) s)"
proof -
  let ?c = "drop 4 n"
  let ?e = "status_event (lit ''resolving capability '' @ quoted ?c @ [Ellipsis])"
  let ?s = "s\<lparr>as_sent := as_sent s @ [?e]\<rparr>"
  have st: "\<forall>e \<in> set [?e]. event_type e = lit ''status''" by simp
  have sent: "send ?e s = (Inr (), ?s)" by (simp add: send_def)
  show ?thesis
  proof (cases "bindE (providers a ?c None None) (\<lambda>fs. policy_rank (app_policy a) (as_store s) fs)")
    case (Inl e)
    then show ?thesis using assms same_reply_exn [OF st]
      by (simp add: direct_def capability_run chat_target_def Let_def bindM_def sent ranked_run)
  next
    case (Inr fs)
    show ?thesis
    proof (cases fs)
      case Nil
      then show ?thesis using assms Inr same_reply_error [where code = 404 and detail = "Inl (no_provider ?c)" and n = n, OF st]
        by (simp add: direct_def capability_run chat_target_def Let_def bindM_def sent ranked_run send_def returnM_run error_text_def pin_text_def given_def)
    next
      case (Cons f rest)
      then show ?thesis using assms Inr chat_invoke_reply [OF st, of n s a f i]
        by (simp add: direct_def capability_run chat_target_def Let_def bindM_def sent ranked_run returnM_run)
    qed
  qed
qed

lemma typed_feature_reply:
  assumes "\<not> startswith n (lit ''cap:'')"
  shows "same_reply n (as_sent s) (direct a n \<lparr>r_input = i, r_context = default_context\<rparr> s) (typed a n (JObj i) s)"
proof -
  show ?thesis
  proof (cases "cat_get (app_catalog a) n")
    case (Inl e)
    then show ?thesis using assms same_reply_exn [of "[]" n "as_sent s" e s]
      by (simp add: direct_def invoke_feature_def chat_target_def bindM_def liftE_run)
  next
    case (Inr found)
    show ?thesis
    proof (cases found)
      case None
      then show ?thesis using assms Inr same_reply_error [where code = 404 and detail = "Inl (lit ''unknown feature: '' @ n)" and n = n and ss = "[]" and sent = "as_sent s" and s = s]
        by (simp add: direct_def invoke_feature_def chat_target_def bindM_def liftE_run unknown_feature_def http_error_def
            raiseM_run send_def returnM_run error_text_def)
    next
      case (Some f)
      then show ?thesis using assms Inr chat_invoke_reply [of "[]" n s a f i]
        by (simp add: direct_def invoke_feature_def chat_target_def bindM_def liftE_run returnM_run)
    qed
  qed
qed

lemma quiet_typed: "no_http a \<Longrightarrow> quiet (typed a n p)"
  unfolding chat_target_def chat_invoke_def Let_def
  by (rule quiet_bind)
    (auto split: option.split list.split intro!: quiet_bind quiet_collect quiet_attempt quiet_ranked quiet_get)

text \<open>
  C6. Typing a command is calling the route. A chat message of a name and the JSON text of an input
  leaves the application in the same state as the REST route for that feature or capability
  with that input: where the route answers, the chat sends status events and then the result
  with the same feature, vendor, output and latency; any other exception leaves the chat as it
  leaves the route. Where the route answers with an HTTP error, which is 404, 422 or 503 when
  the catalog, the invoker and the validator raise none themselves, the chat does not raise: it
  sends status events and then one error event with the text for that answer.
\<close>

theorem chat_is_direct:
  assumes "json_parser limit (app_loads a)" and "readable limit (JObj i)" and "plain_word n"
  shows "same_reply n (as_sent s) (direct a n \<lparr>r_input = i, r_context = default_context\<rparr> s)
      (chat a (n @ Lat (CHR '' '') # dumps (JObj i)) s)
    \<and> (\<forall>code detail s'. no_http a
         \<and> direct a n \<lparr>r_input = i, r_context = default_context\<rparr> s = (Inl (HTTPException code detail), s') \<longrightarrow>
         code \<in> {404, 422, 503}
         \<and> (\<exists>ss. (\<forall>e \<in> set ss. event_type e = lit ''status'') \<and>
              chat a (n @ Lat (CHR '' '') # dumps (JObj i)) s =
                (Inr (), s'\<lparr>as_sent := as_sent s @ ss @ [error_event (error_text n code detail)]\<rparr>)))"
proof -
  let ?t = "dumps (JObj i)" and ?body = "\<lparr>r_input = i, r_context = default_context\<rparr>"
  have t: "?t \<noteq> []" "\<not> isspace_c (last ?t)" by (simp_all add: dumps_def Let_def lit_def isspace_c_def)
  have "app_loads a ?t = Inr (JObj i)" by (rule parser_dumps [OF assms(1,2)])
  then have c: "chat a (n @ Lat (CHR '' '') # ?t) s = typed a n (JObj i) s"
    by (simp add: chat_of_command [OF assms(3) t] chat_command_def)
  have r: "same_reply n (as_sent s) (direct a n ?body s) (typed a n (JObj i) s)"
    by (cases "startswith n (lit ''cap:'')") (rule typed_capability_reply typed_feature_reply; assumption)+
  have "code \<in> {404, 422, 503} \<and> (\<exists>ss. (\<forall>e \<in> set ss. event_type e = lit ''status'') \<and>
      typed a n (JObj i) s = (Inr (), s'\<lparr>as_sent := as_sent s @ ss @ [error_event (error_text n code detail)]\<rparr>))"
    if q: "no_http a" and d: "direct a n ?body s = (Inl (HTTPException code detail), s')" for code detail s'
  proof -
    obtain y s'' where y: "typed a n (JObj i) s = (y, s'')" by (cases "typed a n (JObj i) s")
    then have "y \<noteq> Inl (HTTPException code detail)"
      using quietD [OF quiet_typed [OF q], of n "JObj i" s] by auto
    with r show ?thesis unfolding d y same_reply_def by auto
  qed
  with r show ?thesis unfolding c by blast
qed

lemma chat_app_quiet: "no_http chat_app"
  by (simp add: no_http_def chat_app_def in_memory_ops_def in_memory_list_def in_memory_get_def sample_invoke_def
      local_invoke_def bindM_def perf_counter_def Let_def tryM_def on_env_def dict_get_def raiseM_run returnM_run split: option.split)

theorem chat_is_direct_witness:
  "\<exists>ss s'. (\<forall>e \<in> set ss. event_type e = lit ''status'')
    \<and> direct chat_app (lit ''nope'') \<lparr>r_input = [(lit ''name'', JStr (lit ''Ada''))], r_context = default_context\<rparr>
        (start_state Map.empty start_world) = (Inl (HTTPException 404 (Inl (lit ''unknown feature: nope''))), s')
    \<and> chat chat_app (lit ''nope'' @ Lat (CHR '' '') # dumps (JObj [(lit ''name'', JStr (lit ''Ada''))])) (start_state Map.empty start_world)
      = (Inr (), s'\<lparr>as_sent := ss @ [error_event (error_text (lit ''nope'') 404 (Inl (lit ''unknown feature: nope'')))]\<rparr>)"
proof -
  let ?s = "start_state Map.empty start_world :: int app_state" and ?i = "[(lit ''name'', JStr (lit ''Ada''))]"
  let ?d = "direct chat_app (lit ''nope'') \<lparr>r_input = ?i, r_context = default_context\<rparr> ?s"
  have w: "readable 3 (JObj ?i)" "plain_word (lit ''nope'')" by code_simp+
  have "fst ?d = Inl (HTTPException 404 (Inl (lit ''unknown feature: nope'')))" by code_simp
  then obtain s' where d: "?d = (Inl (HTTPException 404 (Inl (lit ''unknown feature: nope''))), s')" by (cases ?d) auto
  moreover have "as_sent ?s = []" by (simp add: start_state_def)
  ultimately show ?thesis using chat_is_direct [OF chat_app_parser w, of ?s] chat_app_quiet by fastforce
qed

section \<open>Frames\<close>

text \<open>
  A client of the stream: it cuts the text at empty lines, and parses what follows
  \<open>data: \<close> in each piece.
\<close>

definition newline :: uchar where
  "newline = Lat (CHR 0x0A)"

fun read_frames :: "pystr list \<Rightarrow> pystr list" where
  "read_frames (l # [] # ls) = drop 6 l # read_frames ls"
| "read_frames ls = []"

definition frames_of :: "pystr \<Rightarrow> pystr list" where
  "frames_of body = read_frames (split_on newline body)"

lemma sse_shape: "sse e = (lit ''data: '' @ dumps e) @ newline # newline # []"
  by (simp add: sse_def newline_def)

lemma no_newline: "readable d e \<Longrightarrow> newline \<notin> set (lit ''data: '' @ dumps e)"
  using plain_printed [of d e] by (auto simp: newline_def list_all_iff lit_def plain_c_def)

lemma frames_of_sse:
  "list_all (readable d) es \<Longrightarrow> frames_of (concat (map sse es)) = map dumps es"
proof (induction es)
  case Nil
  show ?case by (simp add: frames_of_def)
next
  case (Cons e es)
  let ?l = "lit ''data: '' @ dumps e" and ?rest = "concat (map sse es)"
  have n: "newline \<notin> set ?l" using Cons.prems by (intro no_newline [of d]) simp
  have "concat (map sse (e # es)) = ?l @ newline # newline # ?rest" by (simp add: sse_shape)
  moreover have "split_on newline (?l @ newline # newline # ?rest) = ?l # [] # split_on newline ?rest"
    using split_on_append_sep [OF n, of "newline # ?rest"] by simp
  moreover have "drop 6 ?l = dumps e" by (simp add: lit_def)
  ultimately show ?case using Cons by (simp add: frames_of_def)
qed

text \<open>
  C23. The chat stream decodes to its events: splitting the text of the response at blank lines and
  parsing what follows \<open>data: \<close> in each frame gives exactly the events the chat sent, in order,
  whatever characters they contain; the stream breaks exactly when the chat raises, and a whole
  stream of a command ends in its verdict.
\<close>

theorem stream_decodes:
  assumes "json_parser limit loads" and "stream_events a txt s = (Inr (frames, broken), s')"
    and "chat a txt (s\<lparr>as_sent := []\<rparr>) = (r, s1)" and "list_all (readable limit) (as_sent s1)"
  shows "map loads (frames_of (concat frames)) = map Inr (as_sent s1)
    \<and> (broken = None \<longleftrightarrow> r = Inr ()) \<and> (r = Inr () \<and> strip txt \<notin> {[], lit ''help'', lit ''list''} \<longrightarrow> verdict (s\<lparr>as_sent := []\<rparr>) s1)"
proof -
  have f: "frames = map sse (as_sent s1)" "broken = (case r of Inl e \<Rightarrow> Some e | Inr _ \<Rightarrow> None)"
    using assms(2,3) by (auto simp: stream_events_def)
  have "map loads (map dumps (as_sent s1)) = map Inr (as_sent s1)"
    using parser_dumps [OF assms(1)] assms(4) by (simp add: list_all_iff)
  then have "map loads (frames_of (concat frames)) = map Inr (as_sent s1)"
    using frames_of_sse [OF assms(4)] by (simp only: f(1))
  moreover have "r = Inr () \<and> strip txt \<notin> {[], lit ''help'', lit ''list''} \<longrightarrow> verdict (s\<lparr>as_sent := []\<rparr>) s1"
    using assms(3) chat_command_verdict [of a "strip txt" "s\<lparr>as_sent := []\<rparr>" s1] by (auto simp: chat_def Let_def)
  ultimately show ?thesis using f(2) by (cases r) auto
qed

theorem stream_decodes_witness:
  "\<exists>frames s' es. stream_events chat_app (lit ''nope'') (start_state Map.empty start_world) = (Inr (frames, None), s') \<and> length es = 1
    \<and> map (model_loads 3) (frames_of (concat frames)) = map Inr es"
proof -
  let ?s = "start_state Map.empty start_world :: int app_state"
  let ?txt = "lit ''nope''"
  obtain r s1 where c: "chat chat_app ?txt (?s\<lparr>as_sent := []\<rparr>) = (r, s1)" by (cases "chat chat_app ?txt (?s\<lparr>as_sent := []\<rparr>)")
  have "list_all (readable 3) (as_sent (snd (chat chat_app ?txt (?s\<lparr>as_sent := []\<rparr>))))"
    "length (as_sent (snd (chat chat_app ?txt (?s\<lparr>as_sent := []\<rparr>)))) = 1"
    "\<not> isl (fst (chat chat_app ?txt (?s\<lparr>as_sent := []\<rparr>)))" by code_simp+
  with c have k: "list_all (readable 3) (as_sent s1)" "length (as_sent s1) = 1" "r = Inr ()" by (cases r; simp)+
  have st: "stream_events chat_app ?txt ?s = (Inr (map sse (as_sent s1), None), s1\<lparr>as_sent := []\<rparr>)"
    using c k by (simp add: stream_events_def)
  from stream_decodes [OF json_parser_model st c k(1)] st k(2) show ?thesis by blast
qed

end
