(* ===== verification/Clients.thy ===== *)
theory Clients
  imports ChatText
begin

text \<open>
  The example client, \<open>examples/agent_client.py\<close>, which lists the tools and calls one over
  MCP, and the example workload, \<open>examples/features/echo/server.py\<close>, which the gateway
  reaches over gRPC. The HTTP client and server, and protobuf, are parameters.
\<close>

section \<open>The client\<close>

text \<open>What the terminal shows, and the network.\<close>

type_synonym 'w terminal = "'w \<times> pystr list"

type_synonym 'w urlopen = "pystr \<Rightarrow> pystr \<Rightarrow> ('w, pystr) io"

definition on_net :: "('w, 'a) io \<Rightarrow> ('w terminal, 'a) io" where
  "on_net m st = (case m (fst st) of (r, w) \<Rightarrow> (r, (w, snd st)))"

definition print_line :: "pystr \<Rightarrow> ('w terminal, unit) io" where
  "print_line t st = (Inr (), (fst st, snd st @ [t]))"

definition GATEWAY :: pystr where
  "GATEWAY = lit ''http://127.0.0.1:8000/mcp''"

definition rpc_payload :: "string \<Rightarrow> json option \<Rightarrow> int \<Rightarrow> json" where
  "rpc_payload meth params msg_id =
     JObj ([(lit ''jsonrpc'', JStr (lit ''2.0'')), (lit ''id'', JInt msg_id), (lit ''method'', JStr (lit meth))] @
       (case params of None \<Rightarrow> [] | Some p \<Rightarrow> [(lit ''params'', p)]))"

definition rpc ::
  "'w urlopen \<Rightarrow> (pystr \<Rightarrow> exn + json) \<Rightarrow> string \<Rightarrow> json option \<Rightarrow> int \<Rightarrow> ('w, json) io" where
  "rpc urlopen loads meth params msg_id =
     bindM (urlopen GATEWAY (dumps (rpc_payload meth params msg_id))) (\<lambda>resp. liftE (loads resp))"

text \<open>\<open>for x in v\<close> and \<open>v[0]\<close> of a JSON value; a dictionary has string keys.\<close>

fun iterate :: "json \<Rightarrow> exn + json list" where
  "iterate (JList vs) = Inr vs"
| "iterate (JObj d) = Inr (map JStr (dict_keys d))"
| "iterate (JStr s) = Inr (map (\<lambda>c. JStr [c]) s)"
| "iterate v = Inl TypeError"

fun first_item :: "json \<Rightarrow> exn + json" where
  "first_item (JList []) = Inl IndexError"
| "first_item (JList (v # vs)) = Inr v"
| "first_item (JObj d) = Inl KeyError"
| "first_item (JStr []) = Inl IndexError"
| "first_item (JStr (c # s)) = Inr (JStr [c])"
| "first_item v = Inl TypeError"

definition tool_line :: "json \<Rightarrow> exn + pystr" where
  "tool_line t =
     bindE (subscript t (lit ''name'')) (\<lambda>n.
     bindE (subscript t (lit ''description'')) (\<lambda>d.
     Inr (lit ''  - '' @ py_str n @ lit '': '' @ py_str d)))"

fun print_tools :: "json list \<Rightarrow> ('w terminal, unit) io" where
  "print_tools [] = returnM ()"
| "print_tools (t # ts) =
     bindM (liftE (tool_line t)) (\<lambda>l. bindM (print_line l) (\<lambda>_. print_tools ts))"

definition calculator_call :: json where
  "calculator_call =
     JObj [(lit ''name'', JStr (lit ''calculator'')),
       (lit ''arguments'', JObj [(lit ''expression'', JStr (lit ''2 * (3 + 4)''))])]"

definition client_main :: "'w urlopen \<Rightarrow> (pystr \<Rightarrow> exn + json) \<Rightarrow> ('w terminal, unit) io" where
  "client_main urlopen loads =
     bindM (on_net (rpc urlopen loads ''tools/list'' None 1)) (\<lambda>listing.
     bindM (liftE (bindE (subscript listing (lit ''result'')) (\<lambda>r. subscript r (lit ''tools'')))) (\<lambda>tools.
     bindM (print_line (lit ''Available features (as agent tools):'')) (\<lambda>_.
     bindM (liftE (iterate tools)) (\<lambda>ts.
     bindM (print_tools ts) (\<lambda>_.
     bindM (print_line (newline # lit ''Calling calculator with expression '' @ quoted (lit ''2 * (3 + 4)'') @ lit '' ...'')) (\<lambda>_.
     bindM (on_net (rpc urlopen loads ''tools/call'' (Some calculator_call) 2)) (\<lambda>result.
     bindM (liftE (bindE (subscript result (lit ''result'')) (\<lambda>r. bindE (subscript r (lit ''content'')) (\<lambda>c.
        bindE (first_item c) (\<lambda>x. subscript x (lit ''text'')))))) (\<lambda>t.
     print_line (lit ''Result: '' @ py_str t)))))))))"

section \<open>The client and the gateway\<close>

text \<open>
  A connection to the MCP route of an application: the server reads the body as JSON, calls
  the route, and answers with a JSON text of what it returns (\<open>null\<close> for nothing), which reads
  back as it does when it is within the modelled values.
\<close>

definition connected :: "nat \<Rightarrow> (pystr \<Rightarrow> exn + json) \<Rightarrow> 'e app \<Rightarrow> 'e app_state urlopen \<Rightarrow> bool" where
  "connected limit loads a urlopen \<longleftrightarrow>
     (\<forall>body msg s r s'. loads body = Inr msg \<and> mcp_endpoint a msg s = (Inr r, s') \<longrightarrow>
        (let v = (case r of None \<Rightarrow> JNull | Some v \<Rightarrow> v) in
         \<exists>t. urlopen GATEWAY body s = (Inr t, s') \<and> (readable limit v \<longrightarrow> loads t = Inr v)))"

text \<open>One such connection: the answer is printed by \<open>json.dumps\<close>.\<close>

definition http :: "(pystr \<Rightarrow> exn + json) \<Rightarrow> 'e app \<Rightarrow> 'e app_state urlopen" where
  "http loads a url body =
     bindM (liftE (loads body)) (\<lambda>msg.
     bindM (mcp_endpoint a msg) (\<lambda>r. returnM (dumps (case r of None \<Rightarrow> JNull | Some v \<Rightarrow> v))))"

lemma http_connected: "json_parser limit loads \<Longrightarrow> connected limit loads a (http loads a)"
  by (auto simp: connected_def http_def bindM_def liftE_run returnM_run parser_dumps Let_def split: option.split)

lemma rpc_answer:
  assumes "json_parser limit loads" and "connected limit loads a urlopen"
    and "readable limit (rpc_payload meth params i)"
    and "mcp_endpoint a (rpc_payload meth params i) s = (Inr (Some v), s')" and "readable limit v"
  shows "rpc urlopen loads meth params i s = (Inr v, s')"
proof -
  have "loads (dumps (rpc_payload meth params i)) = Inr (rpc_payload meth params i)"
    by (rule parser_dumps [OF assms(1,3)])
  then obtain t where "urlopen GATEWAY (dumps (rpc_payload meth params i)) s = (Inr t, s')" "loads t = Inr v"
    using assms(2,4,5) unfolding connected_def by (fastforce simp: Let_def)
  then show ?thesis by (simp add: rpc_def bindM_def liftE_run)
qed

definition tools_of :: "feature list \<Rightarrow> json" where
  "tools_of fs = rpc_ok (JInt 1) (JObj [(lit ''tools'', JList (map (\<lambda>f. tool (f_manifest f)) fs))])"

lemma list_message:
  assumes "cat_list (app_catalog a) None None = Inr fs"
  shows "mcp_endpoint a (rpc_payload ''tools/list'' None 1) s = (Inr (Some (tools_of fs)), s)"
  using assms
  by (simp add: mcp_endpoint_def on_world_def handle_def rpc_payload_def bindM_liftE get_or_def dict_get_def returnM_run
      tools_of_def)

definition calculator_args :: json_obj where
  "calculator_args = [(lit ''expression'', JStr (lit ''2 * (3 + 4)''))]"

lemma handle_call:
  "handle vld cat invoke (rpc_payload ''tools/call'' (Some params) i) w =
     bindM (call_tool vld cat invoke (JInt i) (or_empty params)) (\<lambda>r. returnM (Some r)) w"
  by (simp add: handle_def rpc_payload_def bindM_liftE get_or_def dict_get_def)

lemma calculator_fields:
  "or_empty calculator_call = calculator_call"
  "as_dict calculator_call = Inr [(lit ''name'', JStr (lit ''calculator'')), (lit ''arguments'', JObj calculator_args)]"
  by (simp_all add: calculator_call_def or_empty_def calculator_args_def)

lemma call_message:
  assumes "cat_get (app_catalog a) (lit ''calculator'') = Inr (Some f)"
    and "collect_errors (app_validator a) (JObj calculator_args) (m_input_schema (f_manifest f)) = Inr []"
    and "app_invoke a (lit ''calculator'') (JObj calculator_args) default_context (as_world s) = (Inr res, w)"
  shows "mcp_endpoint a (rpc_payload ''tools/call'' (Some calculator_call) 2) s =
    (Inr (Some (rpc_ok (JInt 2) (content (dumps (JObj (res_output res))) False))), s\<lparr>as_world := w\<rparr>)"
proof -
  have n: "find_tool (app_catalog a) (JStr (lit ''calculator'')) = Inr (Some (lit ''calculator'', f))"
    using assms(1) by (simp add: find_tool_def)
  have "or_empty (JObj calculator_args) = JObj calculator_args" by (simp add: or_empty_def calculator_args_def)
  then have "call_tool (app_validator a) (app_catalog a) (app_invoke a) (JInt 2) calculator_call (as_world s) =
      (Inr (rpc_ok (JInt 2) (content (dumps (JObj (res_output res))) False)), w)"
    using assms(2,3) n
    by (simp add: call_tool_def calculator_fields bindM_liftE get_or_def dict_get_def Let_def tryM_def bindM_def returnM_run liftE_run)
  then show ?thesis by (simp add: mcp_endpoint_def on_world_def handle_call calculator_fields bindM_def returnM_run)
qed

lemma tool_line_tool:
  "tool_line (tool (f_manifest f)) = Inr (lit ''  - '' @ f_name f @ lit '': '' @ m_description (f_manifest f))"
  by (simp add: tool_line_def tool_def dict_get_def)

lemma print_tools_run:
  "print_tools (map (\<lambda>f. tool (f_manifest f)) fs) (w, out) =
     (Inr (), (w, out @ map (\<lambda>f. lit ''  - '' @ f_name f @ lit '': '' @ m_description (f_manifest f)) fs))"
  by (induction fs arbitrary: out)
    (simp_all add: returnM_run bindM_def liftE_run tool_line_tool print_line_def)

lemma tools_subscript:
  "bindE (subscript (tools_of fs) (lit ''result'')) (\<lambda>r. subscript r (lit ''tools'')) = Inr (JList (map (\<lambda>f. tool (f_manifest f)) fs))"
  by (simp add: tools_of_def rpc_ok_def dict_get_def)

lemma text_subscript:
  "bindE (subscript (rpc_ok i (content t b)) (lit ''result'')) (\<lambda>r. bindE (subscript r (lit ''content'')) (\<lambda>c.
      bindE (first_item c) (\<lambda>x. subscript x (lit ''text'')))) = Inr (JStr t)"
  by (simp add: rpc_ok_def content_def dict_get_def)

lemma readable_payloads:
  "3 \<le> limit \<Longrightarrow> readable limit (rpc_payload ''tools/list'' None 1)"
  "3 \<le> limit \<Longrightarrow> readable limit (rpc_payload ''tools/call'' (Some calculator_call) 2)"
  "4 \<le> limit \<Longrightarrow> readable limit (rpc_ok (JInt i) (content t b))" if "within_limit i"
proof -
  have w: "within_limit 1" "within_limit 2" by code_simp+
  show "3 \<le> limit \<Longrightarrow> readable limit (rpc_payload ''tools/list'' None 1)"
    using w by (simp add: rpc_payload_def dict_ok_def dict_keys_def)
  show "3 \<le> limit \<Longrightarrow> readable limit (rpc_payload ''tools/call'' (Some calculator_call) 2)"
    using w by (simp add: rpc_payload_def calculator_call_def dict_ok_def dict_keys_def)
  show "4 \<le> limit \<Longrightarrow> readable limit (rpc_ok (JInt i) (content t b))"
    using that by (simp add: rpc_ok_def content_def dict_ok_def dict_keys_def)
qed

text \<open>
  C21. The example client works against the gateway: connected to an application that offers a
  calculator which accepts the expression and returns, it prints one line for each
  feature the catalog lists, in its order, with the name and the description, and then the
  output of the call as JSON text; the world outside is as that one call, with the client's
  expression, leaves it.
\<close>

theorem client_prints:
  assumes "json_parser limit loads" and "connected limit loads a urlopen" and "4 \<le> limit"
    and "cat_list (app_catalog a) None None = Inr fs" and "readable limit (tools_of fs)"
    and "cat_get (app_catalog a) (lit ''calculator'') = Inr (Some f)"
    and "collect_errors (app_validator a) (JObj calculator_args) (m_input_schema (f_manifest f)) = Inr []"
    and "app_invoke a (lit ''calculator'') (JObj calculator_args) default_context (as_world s) = (Inr res, w)"
  shows "\<exists>s'. as_world s' = w \<and> client_main urlopen loads (s, []) = (Inr (), (s',
    [lit ''Available features (as agent tools):''] @
    map (\<lambda>f. lit ''  - '' @ f_name f @ lit '': '' @ m_description (f_manifest f)) fs @
    [newline # lit ''Calling calculator with expression '' @ quoted (lit ''2 * (3 + 4)'') @ lit '' ...'',
     lit ''Result: '' @ dumps (JObj (res_output res))]))"
proof -
  let ?r = "rpc_ok (JInt 2) (content (dumps (JObj (res_output res))) False)"
  have i: "within_limit 2" by code_simp
  have p: "readable limit (rpc_payload ''tools/list'' None 1)" "readable limit (rpc_payload ''tools/call'' (Some calculator_call) 2)"
    "readable limit ?r" using readable_payloads [OF i, of limit] assms(3) by simp_all
  have l: "rpc urlopen loads ''tools/list'' None 1 s = (Inr (tools_of fs), s)"
    using rpc_answer [OF assms(1,2) p(1) list_message [OF assms(4)] assms(5)] .
  have c: "rpc urlopen loads ''tools/call'' (Some calculator_call) 2 s = (Inr ?r, s\<lparr>as_world := w\<rparr>)"
    using rpc_answer [OF assms(1,2) p(2) call_message [OF assms(6-8)] p(3)] .
  show ?thesis
    by (rule exI [of _ "s\<lparr>as_world := w\<rparr>"])
      (simp add: client_main_def bindM_def on_net_def l c liftE_run tools_subscript print_line_def print_tools_run text_subscript)
qed

text \<open>The calculator alone, with an invoker that knows the answer.\<close>

definition calculator_app :: "int app" where
  "calculator_app =
     \<lparr>app_catalog = in_memory_ops (in_memory_init [calculator_manifest]),
      app_invoke = (\<lambda>n p c w. (Inr \<lparr>res_output = [(lit ''result'', JFloat 14)], res_latency_ms = 1\<rparr>, w)),
      app_policy = BaselinePolicy, app_validator = None, app_loads = model_loads 9, app_sign = sample_sign_env\<rparr>"

theorem client_prints_witness:
  "\<exists>st. client_main (http (model_loads 9) calculator_app) (model_loads 9) (start_state Map.empty start_world, []) = (Inr (), st)
    \<and> snd st = [lit ''Available features (as agent tools):'',
        lit ''  - calculator: Safely evaluates an arithmetic expression.'',
        newline # lit ''Calling calculator with expression '' @ quoted (lit ''2 * (3 + 4)'') @ lit '' ...'',
        lit ''Result: {\"result\": 14.0}'']"
proof -
  let ?s = "start_state Map.empty start_world :: int app_state"
  let ?f = "\<lparr>f_manifest = calculator_manifest, f_phase = READY, f_endpoint = Some (lit ''local://calculator'')\<rparr>"
  let ?fs = "[?f]"
  have "m_name calculator_manifest = lit ''calculator''" by code_simp
  then have c: "in_memory_init [calculator_manifest] = [(lit ''calculator'', ?f)]"
    by (simp add: in_memory_init_def dict_of_def dict_set_def lit_def)
  have l: "cat_list (app_catalog calculator_app) None None = Inr ?fs"
    by (simp add: calculator_app_def c in_memory_ops_def in_memory_list_def list_results_def given_def dict_values_def)
  have r: "readable 9 (tools_of ?fs)" by code_simp
  have g: "cat_get (app_catalog calculator_app) (lit ''calculator'') = Inr (Some ?f)"
    by (simp add: calculator_app_def c in_memory_ops_def in_memory_get_def dict_get_def)
  have e: "collect_errors (app_validator calculator_app) (JObj calculator_args) (m_input_schema (f_manifest ?f)) = Inr []"
    by code_simp
  have i: "app_invoke calculator_app (lit ''calculator'') (JObj calculator_args) default_context (as_world ?s) =
      (Inr \<lparr>res_output = [(lit ''result'', JFloat 14)], res_latency_ms = 1\<rparr>, as_world ?s)"
    by (simp add: calculator_app_def)
  have out: "dumps (JObj [(lit ''result'', JFloat 14)]) = lit ''{\"result\": 14.0}''" by code_simp
  have line: "lit ''  - '' @ m_name calculator_manifest @ lit '': '' @ m_description calculator_manifest =
      lit ''  - calculator: Safely evaluates an arithmetic expression.''" by code_simp
  have n: "(4::nat) \<le> 9" by simp
  from client_prints [OF json_parser_model http_connected [OF json_parser_model] n l r g e i] show ?thesis
    by (auto simp: line out lit_append [symmetric])
qed

section \<open>The echo workload\<close>

text \<open>
  What the servicer uses of the generated messages: the string a field of \<open>request.input\<close>
  holds, a \<open>Struct\<close> updated with a dictionary, and the response message.
\<close>

record ('q, 's, 'r) echo_pb =
  pb_string :: "'q \<Rightarrow> pystr \<Rightarrow> pystr"
  pb_struct :: "json_obj \<Rightarrow> 's"
  pb_response :: "'s \<Rightarrow> float64 \<Rightarrow> 'r"

text \<open>\<open>EchoService.Invoke\<close>\<close>

definition echo_invoke :: "('q, 's, 'r) echo_pb \<Rightarrow> 'q \<Rightarrow> ('x world, 'r) io" where
  "echo_invoke pb request =
     bindM perf_counter (\<lambda>start.
     let message = pb_string pb request (lit ''message'');
         output = pb_struct pb [(lit ''echo'', JStr message)] in
     bindM perf_counter (\<lambda>stop.
     returnM (pb_response pb output (fmul (fsub stop start) 1000))))"

text \<open>
  \<open>serve\<close>: \<open>grpc.server\<close> with a thread pool of the given size, the registration of the servicer,
  the port, and the calls that start the server and wait for its end are parameters.
\<close>

record ('s, 'w) server_api =
  sv_server :: "nat \<Rightarrow> ('w, 's) io"
  sv_add_servicer :: "'s \<Rightarrow> ('w, unit) io"
  sv_add_port :: "'s \<Rightarrow> pystr \<Rightarrow> ('w, int) io"
  sv_start :: "'s \<Rightarrow> ('w, unit) io"
  sv_wait :: "'s \<Rightarrow> ('w, unit) io"

definition PORT :: int where
  "PORT = 9090"

definition echo_serve :: "('s, 'w) server_api \<Rightarrow> ('w terminal, unit) io" where
  "echo_serve sv =
     bindM (on_net (sv_server sv 8)) (\<lambda>server.
     bindM (on_net (sv_add_servicer sv server)) (\<lambda>_.
     bindM (on_net (sv_add_port sv server (lit ''[::]:'' @ str_of_int PORT))) (\<lambda>_.
     bindM (on_net (sv_start sv server)) (\<lambda>_.
     bindM (print_line (lit ''echo feature listening on :'' @ str_of_int PORT)) (\<lambda>_.
     on_net (sv_wait sv server))))))"

text \<open>It announces itself at most once, and only when every call before has returned.\<close>

lemma echo_serve_announces:
  assumes "echo_serve sv (w, out) = (r, (w', out'))"
  shows "out' = out \<and> isl r \<or> out' = out @ [lit ''echo feature listening on :9090'']"
proof -
  have "lit ''echo feature listening on :'' @ str_of_int PORT = lit ''echo feature listening on :9090''" by code_simp
  then show ?thesis using assms
    by (auto simp: echo_serve_def bindM_def on_net_def print_line_def split: prod.splits sum.splits)
qed

text \<open>A network on which every channel reaches the echo servicer, with its own clock.\<close>

definition reaches_echo :: "('c, 'q, 'r, 'x world) grpc_api \<Rightarrow> ('q, 's, 'r) echo_pb \<Rightarrow> bool" where
  "reaches_echo api pb \<longleftrightarrow> (\<forall>ch q t net r net'. echo_invoke pb q net = (Inr r, net') \<longrightarrow> g_call api ch q t net = (Inr r, net'))"

text \<open>
  What protobuf guarantees of strings: a request built from a dictionary of strings, with a
  timeout that fits its field, holds them (a missing field reads as the empty string), and a
  response reads back as the dictionary of strings it was built from.
\<close>

definition string_field :: "json_obj \<Rightarrow> pystr \<Rightarrow> pystr" where
  "string_field d k = (case dict_get d k of Some (JStr s) \<Rightarrow> s | _ \<Rightarrow> [])"

definition all_strings :: "json_obj \<Rightarrow> bool" where
  "all_strings d \<longleftrightarrow> list_all (\<lambda>(k, v). case v of JStr s \<Rightarrow> True | _ \<Rightarrow> False) d"

definition keeps_strings :: "('c, 'q, 'r, 'x) grpc_api \<Rightarrow> ('q, 's, 'r) echo_pb \<Rightarrow> bool" where
  "keeps_strings api pb \<longleftrightarrow>
     (\<forall>f tr tn ms md d. \<bar>ms\<bar> < 2 ^ 31 \<and> all_strings d \<longrightarrow>
        (\<exists>q. g_request api f tr tn ms md (JObj d) = Inr q \<and> (\<forall>k. pb_string pb q k = string_field d k))) \<and>
     (\<forall>k s l. g_output api (pb_response pb (pb_struct pb [(k, JStr s)]) l) = Inr [(k, JStr s)])"

lemma echo_invoke_run:
  "\<exists>l net'. echo_invoke pb q net = (Inr (pb_response pb (pb_struct pb [(lit ''echo'', JStr (pb_string pb q (lit ''message'')))]) l), net')"
  by (simp add: echo_invoke_def bindM_def perf_counter_def Let_def returnM_run) blast

text \<open>
  C27. The echo workload behind the gRPC invoker: for every input of strings the invoker returns the
  message of the input, or the empty string if it has none, as the field \<open>echo\<close>, with a
  latency that is not negative, whatever channels are open and however the clocks run.
\<close>

theorem echo_over_grpc:
  assumes "reaches_echo api pb" and "keeps_strings api pb" and "resolver f = Inr ep"
    and "\<bar>c_timeout_ms ctx\<bar> < 2 ^ 31" and "all_strings d"
  shows "\<exists>latency w'. grpc_invoke api resolver f (JObj d) ctx w =
      (Inr \<lparr>res_output = [(lit ''echo'', JStr (string_field d (lit ''message'')))], res_latency_ms = latency\<rparr>, w')
    \<and> 0 \<le> latency"
proof -
  obtain q where q: "g_request api f (case c_trace_id ctx of None \<Rightarrow> [] | Some t \<Rightarrow> t) (case c_tenant ctx of None \<Rightarrow> [] | Some t \<Rightarrow> t)
      (c_timeout_ms ctx) (c_metadata ctx) (JObj d) = Inr q" "\<And>k. pb_string pb q k = string_field d k"
    using assms(2,4,5) unfolding keeps_strings_def by blast
  obtain r e' where "get_channel api ep (w_env w) = (r, e')" by force
  then obtain ch env where ch: "on_env (get_channel api ep) w = (Inr ch, env)"
    using get_channel_cached by (fastforce simp: on_env_def)
  obtain start w1 where s: "perf_counter env = (Inr start, w1)" by (simp add: perf_counter_def Let_def)
  let ?out = "[(lit ''echo'', JStr (string_field d (lit ''message'')))]"
  obtain l net' where "echo_invoke pb q (ge_net (w_env w1)) = (Inr (pb_response pb (pb_struct pb ?out) l), net')"
    using echo_invoke_run [of pb q "ge_net (w_env w1)"] q(2) by auto
  then have "g_call api ch q t (ge_net (w_env w1)) = (Inr (pb_response pb (pb_struct pb ?out) l), net')" for t
    using assms(1) unfolding reaches_echo_def by blast
  then obtain w2 where c: "on_env (call_stub api f ch q t) w1 = (Inr (pb_response pb (pb_struct pb ?out) l), w2)" for t
    by (simp add: on_env_def call_stub_def)
  obtain stop w3 where e: "perf_counter w2 = (Inr stop, w3)" by (simp add: perf_counter_def Let_def)
  have o: "g_output api (pb_response pb (pb_struct pb ?out) l) = Inr ?out" using assms(2) unfolding keeps_strings_def by blast
  have "grpc_invoke api resolver f (JObj d) ctx w = (Inr \<lparr>res_output = ?out, res_latency_ms = elapsed_ms start stop\<rparr>, w3)"
    by (simp add: grpc_invoke_def grpc_invoke_tail_def bindM_liftE assms(3) bindM_def ch q s c e o liftE_run returnM_run)
  then show ?thesis using grpc_latency by fastforce
qed

text \<open>A network that counts opened channels and runs the workload on a clock of its own.\<close>

definition echo_messages :: "(json_obj, json_obj, json_obj) echo_pb" where
  "echo_messages = \<lparr>pb_string = string_field, pb_struct = (\<lambda>d. d), pb_response = (\<lambda>s l. s)\<rparr>"

definition echo_api :: "(nat, json_obj, json_obj, nat world) grpc_api" where
  "echo_api = \<lparr>g_channel = (\<lambda>e n. (w_env n, n\<lparr>w_env := w_env n + 1\<rparr>)), g_request = (\<lambda>f t u ms md p. as_dict p),
     g_call = (\<lambda>ch q t n. case echo_invoke echo_messages q n of (Inl e, n') \<Rightarrow> (Inl (RpcOther e), n') | (Inr r, n') \<Rightarrow> (Inr r, n')),
     g_output = Inr, g_close = (\<lambda>ch. returnM ())\<rparr>"

definition echo_world :: "(nat, nat world) grpc_env world" where
  "echo_world = \<lparr>w_ns = 0, w_delays = (\<lambda>_. 5), w_reads = 0, w_env =
     \<lparr>ge_channels = [], ge_net = \<lparr>w_ns = 0, w_delays = (\<lambda>_. 7), w_reads = 0, w_env = 0\<rparr>\<rparr>\<rparr>"

theorem echo_over_grpc_witness:
  "\<exists>latency w'. grpc_invoke echo_api sample_resolver (lit ''echo'') (JObj [(lit ''message'', JStr (lit ''hi''))]) default_context echo_world =
    (Inr \<lparr>res_output = [(lit ''echo'', JStr (lit ''hi''))], res_latency_ms = latency\<rparr>, w') \<and> 0 \<le> latency"
proof -
  have r: "reaches_echo echo_api echo_messages" by (simp add: reaches_echo_def echo_api_def)
  have k: "keeps_strings echo_api echo_messages" by (simp add: keeps_strings_def echo_api_def echo_messages_def)
  have s: "sample_resolver (lit ''echo'') = Inr (lit ''echo:50051'')" by (simp add: sample_resolver_def)
  have c: "\<bar>c_timeout_ms default_context\<bar> < 2 ^ 31" by code_simp
  have d: "all_strings [(lit ''message'', JStr (lit ''hi''))]" by (simp add: all_strings_def)
  from echo_over_grpc [where resolver = sample_resolver and f = "lit ''echo''", OF r k s c d] show ?thesis by (simp add: string_field_def dict_get_def)
qed

end
