(* ===== verification/Cluster.thy ===== *)
theory Cluster
  imports Catalog JsonParser
begin

text \<open>
  Custom resources as the cluster stores them: the resource of a feature, with its schemas as
  JSON text, and a namespace that serves the resources of a list of features. The Kubernetes
  catalog reads back what was written.
\<close>

section \<open>The resource of a feature\<close>

fun visibility_label :: "visibility \<Rightarrow> pystr" where
  "visibility_label PUBLIC = lit ''Public''"
| "visibility_label INTERNAL = lit ''Internal''"
| "visibility_label PRIVATE = lit ''Private''"

fun trust_label :: "trust_tier \<Rightarrow> pystr" where
  "trust_label OFFICIAL = lit ''Official''"
| "trust_label VERIFIED = lit ''Verified''"
| "trust_label COMMUNITY = lit ''Community''"

fun phase_label :: "phase \<Rightarrow> pystr" where
  "phase_label PENDING = lit ''Pending''"
| "phase_label PROVISIONING = lit ''Provisioning''"
| "phase_label READY = lit ''Ready''"
| "phase_label FAILED = lit ''Failed''"

definition spec_of :: "manifest \<Rightarrow> json_obj" where
  "spec_of m =
     [(lit ''description'', JStr (m_description m)), (lit ''protocol'', JStr (protocol_value (m_protocol m))),
      (lit ''tags'', JList (map JStr (m_tags m))), (lit ''visibility'', JStr (visibility_label (m_visibility m))),
      (lit ''capability'', JStr (m_capability m)), (lit ''vendor'', JStr (m_vendor m)),
      (lit ''trust'', JStr (trust_label (m_trust m))),
      (lit ''inputSchema'', JStr (dumps (JObj (m_input_schema m)))),
      (lit ''outputSchema'', JStr (dumps (JObj (m_output_schema m))))]"

definition status_of :: "feature \<Rightarrow> json_obj" where
  "status_of f =
     (lit ''phase'', JStr (phase_label (f_phase f)))
       # (case f_endpoint f of None \<Rightarrow> [] | Some e \<Rightarrow> [(lit ''endpoint'', JStr e)])"

definition cr_of :: "feature \<Rightarrow> json_obj" where
  "cr_of f =
     [(lit ''metadata'', JObj [(lit ''name'', JStr (f_name f))]),
      (lit ''spec'', JObj (spec_of (f_manifest f))), (lit ''status'', JObj (status_of f))]"

text \<open>What the catalog makes of a feature: the capability defaulted, the version dropped.\<close>

definition served_from_cr :: "feature \<Rightarrow> feature" where
  "served_from_cr f = f\<lparr>f_manifest := default_capability ((f_manifest f)\<lparr>m_version := lit ''1.0.0''\<rparr>)\<rparr>"

definition readable_schemas :: "nat \<Rightarrow> feature \<Rightarrow> bool" where
  "readable_schemas limit f \<longleftrightarrow>
     readable limit (JObj (m_input_schema (f_manifest f))) \<and> readable limit (JObj (m_output_schema (f_manifest f)))"

text \<open>A namespace that serves the resources of the features.\<close>

definition namespace_api :: "feature list \<Rightarrow> k8s_api" where
  "namespace_api fs =
     \<lparr>api_list = Inr [(lit ''items'', JList (map (\<lambda>f. JObj (cr_of f)) fs))],
      api_get = (\<lambda>n. case find (\<lambda>f. f_name f = n) fs of
        None \<Rightarrow> Inl (ApiException 404) | Some f \<Rightarrow> Inr (cr_of f))\<rparr>"

section \<open>Reading a resource back\<close>

lemma label_tables [simp]:
  shows "dict_get visibility_table (visibility_label v) = Some v"
    and "dict_get trust_table (trust_label t) = Some t"
    and "dict_get phase_table (phase_label p) = Some p"
proof -
  show "dict_get visibility_table (visibility_label v) = Some v" by (cases v) (simp_all add: visibility_table_def dict_get_def)
  show "dict_get trust_table (trust_label t) = Some t" by (cases t) (simp_all add: trust_table_def dict_get_def)
  show "dict_get phase_table (phase_label p) = Some p" by (cases p) (simp_all add: phase_table_def dict_get_def)
qed

lemma mapE_str_field [simp]: "mapE str_field (map JStr ts) = Inr ts"
  by (induction ts) simp_all

lemma dumps_obj_nonempty: "dumps (JObj d) \<noteq> []"
  by (simp add: dumps_def lit_Cons)

lemma spec_of_get:
  "get_or (spec_of m) (lit ''description'') v = JStr (m_description m)"
  "get_or (spec_of m) (lit ''protocol'') v = JStr (protocol_value (m_protocol m))"
  "get_or (spec_of m) (lit ''tags'') v = JList (map JStr (m_tags m))"
  "get_or (spec_of m) (lit ''visibility'') v = JStr (visibility_label (m_visibility m))"
  "get_or (spec_of m) (lit ''capability'') v = JStr (m_capability m)"
  "get_or (spec_of m) (lit ''vendor'') v = JStr (m_vendor m)"
  "get_or (spec_of m) (lit ''trust'') v = JStr (trust_label (m_trust m))"
  "get_or (spec_of m) (lit ''inputSchema'') v = JStr (dumps (JObj (m_input_schema m)))"
  "get_or (spec_of m) (lit ''outputSchema'') v = JStr (dumps (JObj (m_output_schema m)))"
  by (simp_all add: spec_of_def get_or_def dict_get_def)

lemma schema_of_spec:
  assumes "json_parser limit loads"
  shows "readable limit (JObj (m_input_schema m)) \<Longrightarrow>
      schema_of loads (spec_of m) (lit ''inputSchema'') = Inr (JObj (m_input_schema m))"
    and "readable limit (JObj (m_output_schema m)) \<Longrightarrow>
      schema_of loads (spec_of m) (lit ''outputSchema'') = Inr (JObj (m_output_schema m))"
  using parser_dumps [OF assms] by (simp_all add: schema_of_def spec_of_get dumps_obj_nonempty del: readable.simps)

lemma manifest_from_spec:
  assumes "json_parser limit loads" and "readable limit (JObj (m_input_schema m))" and "readable limit (JObj (m_output_schema m))"
  shows "manifest_from_cr loads (JStr (m_name m)) (spec_of m) = Inr (default_capability (m\<lparr>m_version := lit ''1.0.0''\<rparr>))"
  unfolding manifest_from_cr_def spec_of_get schema_of_spec(1) [OF assms(1,2)] schema_of_spec(2) [OF assms(1,3)]
  by (cases m) (simp add: manifest_defaults_def)

lemma status_of_get:
  "get_or (status_of f) (lit ''phase'') v = JStr (phase_label (f_phase f))"
  "opt_str_field (get_or (status_of f) (lit ''endpoint'') JNull) = Inr (f_endpoint f)"
  by (simp_all add: status_of_def get_or_def dict_get_def split: option.split)

lemma feature_from_cr_of:
  assumes "json_parser limit loads" and "readable_schemas limit f"
  shows "feature_from_cr loads (cr_of f) = Inr (served_from_cr f)"
proof -
  have g: "get_or (cr_of f) (lit ''spec'') v = JObj (spec_of (f_manifest f))"
    "get_or (cr_of f) (lit ''status'') v = JObj (status_of f)"
    "bindE (subscript (JObj (cr_of f)) (lit ''metadata'')) (\<lambda>md. subscript md (lit ''name'')) = Inr (JStr (f_name f))" for v
    by (simp_all add: cr_of_def get_or_def dict_get_def)
  show ?thesis unfolding feature_from_cr_def g Let_def
    using assms(2) manifest_from_spec [OF assms(1)]
    by (cases f) (simp add: readable_schemas_def status_of_get served_from_cr_def del: readable.simps)
qed

lemma namespace_features:
  assumes "json_parser limit loads" and "list_all (readable_schemas limit) fs"
  shows "k8s_features loads (namespace_api fs) = Inr (map served_from_cr fs)"
proof -
  have "mapE (\<lambda>item. bindE (as_dict item) (feature_from_cr loads)) (map (\<lambda>f. JObj (cr_of f)) fs) = Inr (map served_from_cr fs)"
    using assms(2) by (induction fs) (simp_all add: feature_from_cr_of [OF assms(1)])
  then show ?thesis by (simp add: k8s_features_def namespace_api_def get_or_def dict_get_def)
qed

text \<open>
  C33. Custom resources round-trip: a namespace that serves the resources of features, with their
  schemas written as JSON text, is read by the Kubernetes catalog as those features, in
  listings, lookups by name and resolution. Every field comes back as it was, except the
  version, which is not in the resource and is always 1.0.0, and an empty capability, which
  becomes the feature's name.
\<close>

theorem resources_read_back:
  assumes "json_parser limit loads" and "list_all (readable_schemas limit) fs"
  shows "k8s_list loads (namespace_api fs) query tags = Inr (list_results query tags (map served_from_cr fs))
    \<and> k8s_get loads (namespace_api fs) n = Inr (map_option served_from_cr (find (\<lambda>f. f_name f = n) fs))
    \<and> k8s_resolve loads (namespace_api fs) capability version vendor =
        resolve_feature (sort_key f_name (map served_from_cr fs)) capability version vendor"
proof (intro conjI)
  note feats = namespace_features [OF assms]
  show "k8s_list loads (namespace_api fs) query tags = Inr (list_results query tags (map served_from_cr fs))"
    by (simp add: k8s_list_def feats)
  show "k8s_resolve loads (namespace_api fs) capability version vendor =
      resolve_feature (sort_key f_name (map served_from_cr fs)) capability version vendor"
    by (simp add: k8s_resolve_def k8s_list_def feats list_results_def Let_def given_def)
  show "k8s_get loads (namespace_api fs) n = Inr (map_option served_from_cr (find (\<lambda>f. f_name f = n) fs))"
  proof (cases "find (\<lambda>f. f_name f = n) fs")
    case None
    then show ?thesis by (simp add: k8s_get_def namespace_api_def)
  next
    case (Some f)
    then have "readable_schemas limit f" using assms(2) by (auto simp: find_Some_iff list_all_length)
    with Some show ?thesis by (simp add: k8s_get_def namespace_api_def feature_from_cr_of [OF assms(1)])
  qed
qed

definition cluster_feature :: feature where
  "cluster_feature =
     \<lparr>f_manifest = (manifest_defaults (lit ''echo''))
        \<lparr>m_version := lit ''2.1.0'', m_tags := [lit ''demo''], m_visibility := PRIVATE, m_trust := VERIFIED,
         m_input_schema := [(lit ''type'', JStr (lit ''object'')), (lit ''required'', JList [JStr (lit ''name'')])]\<rparr>,
      f_phase = READY, f_endpoint = Some (lit ''echo:9090'')\<rparr>"

theorem resources_read_back_witness:
  "k8s_get (model_loads 2) (namespace_api [cluster_feature]) (lit ''echo'') = Inr (Some (served_from_cr cluster_feature))
   \<and> f_capability (served_from_cr cluster_feature) = lit ''echo'' \<and> f_version (served_from_cr cluster_feature) = lit ''1.0.0''"
proof -
  have "list_all (readable_schemas 2) [cluster_feature]" by code_simp
  from resources_read_back [OF json_parser_model this]
  have "k8s_get (model_loads 2) (namespace_api [cluster_feature]) (lit ''echo'') =
      Inr (map_option served_from_cr (find (\<lambda>f. f_name f = lit ''echo'') [cluster_feature]))" by blast
  then show ?thesis by (simp add: cluster_feature_def served_from_cr_def manifest_defaults_def default_capability_def)
qed

end
