(* ===== verification/KubeClient.thy ===== *)
theory KubeClient
  imports Cluster Effects
begin

text \<open>
  \<open>KubernetesCatalog\<close> with its state: the namespace and the API client, which is made on first
  use, from the configuration inside the cluster or, failing that, the local one. The
  kubernetes package is a parameter. The operations refine the functions of \<open>Catalog\<close>
  on the answers of the API, and load the configuration once.
\<close>

section \<open>The catalog object\<close>

text \<open>What the catalog uses of the package; \<open>'c\<close> is a client, \<open>'w\<close> the world.\<close>

record ('c, 'w) kube_env =
  ke_import :: "('w, unit) io"
  ke_incluster :: "('w, unit) io"
  ke_kubeconfig :: "('w, unit) io"
  ke_objects :: "('w, 'c) io"
  ke_list :: "'c \<Rightarrow> pystr \<Rightarrow> pystr \<Rightarrow> pystr \<Rightarrow> pystr \<Rightarrow> ('w, json_obj) io"
  ke_get :: "'c \<Rightarrow> pystr \<Rightarrow> pystr \<Rightarrow> pystr \<Rightarrow> pystr \<Rightarrow> pystr \<Rightarrow> ('w, json_obj) io"

definition GROUP :: pystr where "GROUP = lit ''agentfeatures.io''"

definition VERSION :: pystr where "VERSION = lit ''v1alpha1''"

definition PLURAL :: pystr where "PLURAL = lit ''features''"

record 'c k8s_catalog =
  kc_namespace :: pystr
  kc_api :: "'c option"

definition k8s_init :: "pystr \<Rightarrow> 'c option \<Rightarrow> 'c k8s_catalog" where
  "k8s_init namespace api = \<lparr>kc_namespace = namespace, kc_api = api\<rparr>"

type_synonym ('c, 'w) kube = "'c k8s_catalog \<times> 'w"

definition out_there :: "('w, 'a) io \<Rightarrow> (('c, 'w) kube, 'a) io" where
  "out_there m st = (case m (snd st) of (r, w) \<Rightarrow> (r, (fst st, w)))"

definition keep_api :: "'c \<Rightarrow> (('c, 'w) kube, 'c) io" where
  "keep_api c st = (Inr c, ((fst st)\<lparr>kc_api := Some c\<rparr>, snd st))"

definition k8s_client :: "('c, 'w) kube_env \<Rightarrow> (('c, 'w) kube, 'c) io" where
  "k8s_client env st =
     (case kc_api (fst st) of
        Some c \<Rightarrow> (Inr c, st)
      | None \<Rightarrow>
          bindM (out_there (ke_import env)) (\<lambda>_.
          bindM (tryM (out_there (ke_incluster env)) (\<lambda>e. Some (out_there (ke_kubeconfig env)))) (\<lambda>_.
          bindM (out_there (ke_objects env)) keep_api)) st)"

definition list_objects :: "('c, 'w) kube_env \<Rightarrow> 'c \<Rightarrow> (('c, 'w) kube, json_obj) io" where
  "list_objects env c st = out_there (ke_list env c GROUP VERSION (kc_namespace (fst st)) PLURAL) st"

definition get_object :: "('c, 'w) kube_env \<Rightarrow> 'c \<Rightarrow> pystr \<Rightarrow> (('c, 'w) kube, json_obj) io" where
  "get_object env c name st = out_there (ke_get env c GROUP VERSION (kc_namespace (fst st)) PLURAL name) st"

text \<open>The methods.\<close>

definition kube_list ::
  "('c, 'w) kube_env \<Rightarrow> (pystr \<Rightarrow> exn + json) \<Rightarrow> pystr option \<Rightarrow> pystr list option \<Rightarrow> (('c, 'w) kube, feature list) io" where
  "kube_list env loads query tags =
     bindM (k8s_client env) (\<lambda>c.
     bindM (list_objects env c) (\<lambda>resp.
     bindM (liftE (cr_items (get_or resp (lit ''items'') (JList [])))) (\<lambda>items.
     bindM (liftE (mapE (\<lambda>item. bindE (as_dict item) (feature_from_cr loads)) items)) (\<lambda>fs.
     returnM (list_results query tags fs)))))"

definition kube_get :: "('c, 'w) kube_env \<Rightarrow> (pystr \<Rightarrow> exn + json) \<Rightarrow> pystr \<Rightarrow> (('c, 'w) kube, feature option) io" where
  "kube_get env loads name =
     bindM (out_there (ke_import env)) (\<lambda>_.
     bindM (tryM (bindM (k8s_client env) (\<lambda>c. bindM (get_object env c name) (\<lambda>cr. returnM (Some cr))))
        (\<lambda>e. if e = ApiException 404 then Some (returnM None) else None)) (\<lambda>r.
     case r of
       None \<Rightarrow> returnM None
     | Some cr \<Rightarrow> bindM (liftE (feature_from_cr loads cr)) (\<lambda>f. returnM (Some f))))"

definition kube_list_capabilities :: "('c, 'w) kube_env \<Rightarrow> (pystr \<Rightarrow> exn + json) \<Rightarrow> (('c, 'w) kube, capability_summary list) io" where
  "kube_list_capabilities env loads = bindM (kube_list env loads None None) (\<lambda>fs. liftE (summarize_capabilities fs))"

definition kube_resolve ::
  "('c, 'w) kube_env \<Rightarrow> (pystr \<Rightarrow> exn + json) \<Rightarrow> pystr \<Rightarrow> pystr option \<Rightarrow> pystr option \<Rightarrow> (('c, 'w) kube, feature option) io" where
  "kube_resolve env loads capability version vendor =
     bindM (kube_list env loads None None) (\<lambda>fs. liftE (resolve_feature fs capability version vendor))"

section \<open>Runs of catalog operations\<close>

datatype kube_call =
    OpList "pystr option" "pystr list option"
  | OpGet pystr
  | OpCapabilities
  | OpResolve pystr "pystr option" "pystr option"

datatype kube_answer = Features "feature list" | Found "feature option" | Summaries "capability_summary list"

fun kube_op :: "('c, 'w) kube_env \<Rightarrow> (pystr \<Rightarrow> exn + json) \<Rightarrow> kube_call \<Rightarrow> (('c, 'w) kube, kube_answer) io" where
  "kube_op env loads (OpList query tags) = bindM (kube_list env loads query tags) (\<lambda>fs. returnM (Features fs))"
| "kube_op env loads (OpGet n) = bindM (kube_get env loads n) (\<lambda>f. returnM (Found f))"
| "kube_op env loads OpCapabilities = bindM (kube_list_capabilities env loads) (\<lambda>cs. returnM (Summaries cs))"
| "kube_op env loads (OpResolve c version vendor) = bindM (kube_resolve env loads c version vendor) (\<lambda>f. returnM (Found f))"

text \<open>The specification: the answer the API's responses determine.\<close>

fun k8s_answer :: "(pystr \<Rightarrow> exn + json) \<Rightarrow> k8s_api \<Rightarrow> kube_call \<Rightarrow> exn + kube_answer" where
  "k8s_answer loads api (OpList query tags) = bindE (k8s_list loads api query tags) (\<lambda>fs. Inr (Features fs))"
| "k8s_answer loads api (OpGet n) = bindE (k8s_get loads api n) (\<lambda>f. Inr (Found f))"
| "k8s_answer loads api OpCapabilities = bindE (k8s_list_capabilities loads api) (\<lambda>cs. Inr (Summaries cs))"
| "k8s_answer loads api (OpResolve c version vendor) = bindE (k8s_resolve loads api c version vendor) (\<lambda>f. Inr (Found f))"

text \<open>The answers to a list of operations, each made whether or not the one before raised.\<close>

fun kube_run :: "('c, 'w) kube_env \<Rightarrow> (pystr \<Rightarrow> exn + json) \<Rightarrow> kube_call list \<Rightarrow> ('c, 'w) kube \<Rightarrow> (exn + kube_answer) list \<times> ('c, 'w) kube" where
  "kube_run env loads [] st = ([], st)"
| "kube_run env loads (op # ops) st =
     (case kube_op env loads op st of (r, st') \<Rightarrow>
      case kube_run env loads ops st' of (rs, st'') \<Rightarrow> (r # rs, st''))"

section \<open>Refinement\<close>

text \<open>The package works, and every client sees the same answers for the namespace.\<close>

definition serves_namespace :: "('c, 'w) kube_env \<Rightarrow> pystr \<Rightarrow> k8s_api \<Rightarrow> bool" where
  "serves_namespace env namespace api \<longleftrightarrow>
     (\<forall>w. \<not> isl (fst (ke_import env w)))
     \<and> (\<forall>w. isl (fst (ke_incluster env w)) \<longrightarrow> \<not> isl (fst (ke_kubeconfig env (snd (ke_incluster env w)))))
     \<and> (\<forall>w. \<not> isl (fst (ke_objects env w)))
     \<and> (\<forall>c w. fst (ke_list env c GROUP VERSION namespace PLURAL w) = api_list api)
     \<and> (\<forall>c n w. fst (ke_get env c GROUP VERSION namespace PLURAL n w) = api_get api n)"

definition ready :: "pystr \<Rightarrow> ('c, 'w) kube \<Rightarrow> bool" where
  "ready namespace st \<longleftrightarrow> kc_namespace (fst st) = namespace \<and> kc_api (fst st) \<noteq> None"

lemma not_isl_run: "\<not> isl (fst (m w)) \<Longrightarrow> \<exists>x w'. m w = (Inr x, w')"
  by (cases "m w"; cases "fst (m w)") auto

lemma serves_runs:
  assumes "serves_namespace env ns api"
  shows "\<exists>w'. ke_import env w = (Inr (), w')"
    and "\<exists>c w'. ke_objects env w = (Inr c, w')"
    and "(\<exists>w'. ke_incluster env w = (Inr (), w'))
      \<or> (\<exists>e w1 w'. ke_incluster env w = (Inl e, w1) \<and> ke_kubeconfig env w1 = (Inr (), w'))"
proof -
  have ok: "\<not> isl (fst (ke_import env w))" "\<not> isl (fst (ke_objects env w))"
    and cfg: "isl (fst (ke_incluster env w)) \<longrightarrow> \<not> isl (fst (ke_kubeconfig env (snd (ke_incluster env w))))"
    using assms by (simp_all add: serves_namespace_def)
  show "\<exists>w'. ke_import env w = (Inr (), w')" "\<exists>c w'. ke_objects env w = (Inr c, w')"
    using not_isl_run [of "ke_import env" w] not_isl_run [of "ke_objects env" w] ok by auto
  show "(\<exists>w'. ke_incluster env w = (Inr (), w'))
      \<or> (\<exists>e w1 w'. ke_incluster env w = (Inl e, w1) \<and> ke_kubeconfig env w1 = (Inr (), w'))"
  proof (cases "ke_incluster env w")
    case (Pair r w1)
    with cfg not_isl_run [of "ke_kubeconfig env" w1] show ?thesis by (cases r) auto
  qed
qed

lemma client_ready:
  assumes "serves_namespace env ns api" and "kc_namespace (fst st) = ns"
  shows "\<exists>c st'. k8s_client env st = (Inr c, st') \<and> ready ns st'"
proof (cases "kc_api (fst st)")
  case (Some c)
  with assms(2) show ?thesis by (simp add: k8s_client_def ready_def)
next
  case None
  obtain w1 where i: "ke_import env (snd st) = (Inr (), w1)" using serves_runs(1) [OF assms(1)] by blast
  obtain w2 where t: "tryM (out_there (ke_incluster env)) (\<lambda>e. Some (out_there (ke_kubeconfig env))) (fst st, w1) = (Inr (), (fst st, w2))"
    using serves_runs(3) [OF assms(1), of w1] by (auto simp: tryM_def out_there_def)
  obtain c w3 where o: "ke_objects env w2 = (Inr c, w3)" using serves_runs(2) [OF assms(1)] by blast
  have "out_there (ke_import env) st = (Inr (), (fst st, w1))" "out_there (ke_objects env) (fst st, w2) = (Inr c, (fst st, w3))"
    by (simp_all add: out_there_def i o)
  then have "k8s_client env st = (Inr c, ((fst st)\<lparr>kc_api := Some c\<rparr>, w3))"
    using None by (simp add: k8s_client_def bindM_def t keep_api_def)
  then show ?thesis using assms(2) by (simp add: ready_def)
qed

lemma list_objects_run:
  assumes "serves_namespace env ns api" and "ready ns st"
  shows "\<exists>st'. list_objects env c st = (api_list api, st') \<and> ready ns st'"
proof -
  have "fst (ke_list env c GROUP VERSION ns PLURAL (snd st)) = api_list api" using assms(1) by (simp add: serves_namespace_def)
  with assms(2) show ?thesis by (auto simp: list_objects_def out_there_def ready_def split: prod.split)
qed

lemma get_object_run:
  assumes "serves_namespace env ns api" and "ready ns st"
  shows "\<exists>st'. get_object env c n st = (api_get api n, st') \<and> ready ns st'"
proof -
  have "fst (ke_get env c GROUP VERSION ns PLURAL n (snd st)) = api_get api n" using assms(1) by (simp add: serves_namespace_def)
  with assms(2) show ?thesis by (auto simp: get_object_def out_there_def ready_def split: prod.split)
qed

lemma kube_list_run:
  assumes "serves_namespace env ns api" and "kc_namespace (fst st) = ns"
  shows "\<exists>st'. kube_list env loads query tags st = (k8s_list loads api query tags, st') \<and> ready ns st'"
proof -
  obtain c st1 where c: "k8s_client env st = (Inr c, st1)" "ready ns st1" using client_ready [OF assms] by blast
  obtain st2 where l: "list_objects env c st1 = (api_list api, st2)" "ready ns st2" using list_objects_run [OF assms(1) c(2)] by blast
  have "kube_list env loads query tags st = (k8s_list loads api query tags, st2)"
    by (simp add: kube_list_def bindM_Inr [of "k8s_client env", OF c(1)] bindM_def [of "list_objects env c"] l(1)
        bindM_liftE returnM_run k8s_list_def k8s_features_def split: sum.split)
  with l(2) show ?thesis by blast
qed

lemma kube_get_run:
  assumes "serves_namespace env ns api" and "kc_namespace (fst st) = ns"
  shows "\<exists>st'. kube_get env loads n st = (k8s_get loads api n, st') \<and> ready ns st'"
proof -
  obtain w1 where "ke_import env (snd st) = (Inr (), w1)" using serves_runs(1) [OF assms(1)] by blast
  then have i: "out_there (ke_import env) st = (Inr (), (fst st, w1))" by (simp add: out_there_def)
  obtain c st1 where c: "k8s_client env (fst st, w1) = (Inr c, st1)" "ready ns st1"
    using client_ready [OF assms(1), of "(fst st, w1)"] assms(2) by auto
  obtain st2 where g: "get_object env c n st1 = (api_get api n, st2)" "ready ns st2" using get_object_run [OF assms(1) c(2)] by blast
  have t: "tryM (bindM (k8s_client env) (\<lambda>c. bindM (get_object env c n) (\<lambda>cr. returnM (Some cr))))
        (\<lambda>e. if e = ApiException 404 then Some (returnM None) else None) (fst st, w1) =
      (case api_get api n of Inl e \<Rightarrow> (if e = ApiException 404 then Inr None else Inl e, st2) | Inr cr \<Rightarrow> (Inr (Some cr), st2))"
    by (simp add: tryM_def bindM_def c(1) g(1) returnM_run split: sum.split)
  have "kube_get env loads n st = (k8s_get loads api n, st2)"
    unfolding kube_get_def bindM_Inr [of "out_there (ke_import env)", OF i]
    by (simp add: bindM_def [of "tryM _ _"] t bindM_liftE returnM_run k8s_get_def split: sum.split exn.split)
  with g(2) show ?thesis by blast
qed

lemma kube_op_run:
  assumes "serves_namespace env ns api" and "kc_namespace (fst st) = ns"
  shows "\<exists>st'. kube_op env loads call st = (k8s_answer loads api call, st') \<and> ready ns st'"
proof -
  note lists = kube_list_run [OF assms, of loads]
  show ?thesis
  proof (cases call)
    case (OpList query tags)
    with lists [of query tags] show ?thesis by (auto simp: bindM_def returnM_run split: sum.split)
  next
    case (OpGet n)
    with kube_get_run [OF assms, of loads n] show ?thesis by (auto simp: bindM_def returnM_run split: sum.split)
  next
    case OpCapabilities
    with lists [of None None] show ?thesis
      by (auto simp: kube_list_capabilities_def k8s_list_capabilities_def bindM_def liftE_run returnM_run split: sum.split)
  next
    case (OpResolve c version vendor)
    with lists [of None None] show ?thesis
      by (auto simp: kube_resolve_def k8s_resolve_def bindM_def liftE_run returnM_run split: sum.split)
  qed
qed

lemma kube_run_answers:
  assumes "serves_namespace env ns api" and "kc_namespace (fst st) = ns"
  shows "\<exists>st'. kube_run env loads calls st = (map (k8s_answer loads api) calls, st') \<and> kc_namespace (fst st') = ns"
  using assms(2)
proof (induction calls arbitrary: st)
  case (Cons call calls)
  obtain st1 where c: "kube_op env loads call st = (k8s_answer loads api call, st1)" "ready ns st1"
    using kube_op_run [OF assms(1) Cons.prems] by blast
  then obtain st2 where "kube_run env loads calls st1 = (map (k8s_answer loads api) calls, st2)" "kc_namespace (fst st2) = ns"
    using Cons.IH [of st1] unfolding ready_def by blast
  with c show ?case by simp
qed simp

text \<open>The package with another configuration and other ways to make a client.\<close>

definition configured :: "('c, 'w) kube_env \<Rightarrow> ('w, unit) io \<Rightarrow> ('w, unit) io \<Rightarrow> ('w, 'c) io \<Rightarrow> ('c, 'w) kube_env" where
  "configured env a b objects = env\<lparr>ke_incluster := a, ke_kubeconfig := b, ke_objects := objects\<rparr>"

lemma client_configured: "kc_api (fst st) \<noteq> None \<Longrightarrow> k8s_client (configured env a b objects) st = k8s_client env st"
  by (auto simp: k8s_client_def split: option.split)

lemma objects_configured:
  "list_objects (configured env a b objects) = list_objects env"
  "get_object (configured env a b objects) = get_object env"
  "ke_import (configured env a b objects) = ke_import env"
  by (simp_all add: configured_def fun_eq_iff list_objects_def get_object_def)

lemma kube_list_configured:
  "kc_api (fst st) \<noteq> None \<Longrightarrow> kube_list (configured env a b objects) loads query tags st = kube_list env loads query tags st"
  by (simp add: kube_list_def objects_configured bindM_def [of "k8s_client _"] client_configured)

lemma kube_get_configured:
  assumes "kc_api (fst st) \<noteq> None"
  shows "kube_get (configured env a b objects) loads n st = kube_get env loads n st"
proof (cases "ke_import env (snd st)")
  case (Pair r w)
  have "k8s_client (configured env a b objects) (fst st, w) = k8s_client env (fst st, w)"
    using client_configured [of "(fst st, w)"] assms by simp
  with Pair show ?thesis
    by (simp add: kube_get_def objects_configured bindM_def [of "out_there _"] tryM_def bindM_def [of "k8s_client _"]
        bindM_def [of "tryM _ _"] out_there_def split: sum.split)
qed

lemma kube_op_configured:
  "kc_api (fst st) \<noteq> None \<Longrightarrow> kube_op (configured env a b objects) loads call st = kube_op env loads call st"
  by (cases call) (simp_all add: bindM_def kube_list_configured kube_get_configured kube_list_capabilities_def kube_resolve_def)

lemma kube_run_configured:
  assumes "serves_namespace env ns api" and "ready ns st"
  shows "kube_run (configured env a b objects) loads calls st = kube_run env loads calls st"
  using assms(2)
proof (induction calls arbitrary: st)
  case (Cons call calls)
  obtain st' where st': "kube_op env loads call st = (k8s_answer loads api call, st')" "ready ns st'"
    using kube_op_run [OF assms(1)] Cons.prems unfolding ready_def by blast
  have "kube_op (configured env a b objects) loads call st = kube_op env loads call st"
    by (rule kube_op_configured) (use Cons.prems in \<open>simp add: ready_def\<close>)
  with st' Cons.IH show ?case by simp
qed simp

text \<open>
  C32. The Kubernetes catalog object implements the specified catalog. On a cluster that serves a
  namespace, in whichever way its configuration is found, every list of operations on a fresh
  catalog gets the answers that the responses of the API determine; and the configuration is
  loaded for the first operation only: after it, replacing the configuration and the way clients
  are made changes neither answers nor effects.
\<close>

theorem kube_catalog_refines:
  assumes "serves_namespace env namespace api"
  shows "fst (kube_run env loads calls (k8s_init namespace injected, w)) = map (k8s_answer loads api) calls
    \<and> kube_run env loads (call # calls) (k8s_init namespace injected, w) =
        (let (r, st) = kube_op env loads call (k8s_init namespace injected, w);
             (rs, st') = kube_run (configured env a b objects) loads calls st in (r # rs, st'))"
proof
  have n: "kc_namespace (fst (k8s_init namespace injected, w)) = namespace" by (simp add: k8s_init_def)
  show "fst (kube_run env loads calls (k8s_init namespace injected, w)) = map (k8s_answer loads api) calls"
    using kube_run_answers [OF assms n, of loads calls] by auto
  obtain st where st: "kube_op env loads call (k8s_init namespace injected, w) = (k8s_answer loads api call, st)" "ready namespace st"
    using kube_op_run [OF assms n] by blast
  then show "kube_run env loads (call # calls) (k8s_init namespace injected, w) =
      (let (r, st) = kube_op env loads call (k8s_init namespace injected, w);
           (rs, st') = kube_run (configured env a b objects) loads calls st in (r # rs, st'))"
    by (simp add: kube_run_configured [OF assms st(2)])
qed

text \<open>
  Outside a cluster, with a local configuration: the world counts how often a configuration was
  asked for, and the client is its number.
\<close>

definition kind_env :: "(nat, nat) kube_env" where
  "kind_env = \<lparr>ke_import = returnM (), ke_incluster = (\<lambda>n. (Inl OtherException, n + 1)), ke_kubeconfig = (\<lambda>n. (Inr (), n + 1)),
     ke_objects = (\<lambda>n. (Inr n, n)), ke_list = (\<lambda>c g v ns p n. (api_list (namespace_api [cluster_feature]), n)),
     ke_get = (\<lambda>c g v ns p name n. (api_get (namespace_api [cluster_feature]) name, n))\<rparr>"

theorem kube_catalog_refines_witness:
  "fst (kube_run kind_env (model_loads 2) [OpGet (lit ''nope''), OpGet (lit ''nope'')] (k8s_init (lit ''features'') None, 0)) =
     [Inr (Found None), Inr (Found None)]
   \<and> snd (snd (kube_run kind_env (model_loads 2) [OpGet (lit ''nope''), OpGet (lit ''nope'')] (k8s_init (lit ''features'') None, 0))) = 2"
proof -
  have s: "serves_namespace kind_env (lit ''features'') (namespace_api [cluster_feature])"
    by (simp add: serves_namespace_def kind_env_def returnM_def)
  have "k8s_answer (model_loads 2) (namespace_api [cluster_feature]) (OpGet (lit ''nope'')) = Inr (Found None)"
    by (simp add: k8s_get_def namespace_api_def cluster_feature_def manifest_defaults_def)
  moreover have "snd (snd (kube_run kind_env (model_loads 2) [OpGet (lit ''nope''), OpGet (lit ''nope'')] (k8s_init (lit ''features'') None, 0))) = 2"
    by code_simp
  ultimately show ?thesis
    using kube_catalog_refines [OF s, of "model_loads 2" "[OpGet (lit ''nope''), OpGet (lit ''nope'')]" None 0] by simp
qed

end
