(* ===== verification/Export.thy ===== *)
theory Export
  imports Signing Samples
begin

text \<open>
  The export script, \<open>scripts/export_manifests.py\<close>: one file per feature of the development
  catalog, with the canonical bytes of its manifest. The release workflow signs these files,
  and the gateway later verifies the manifests it serves against the signatures. The file
  system calls are parameters.
\<close>

section \<open>The script\<close>







section \<open>What it writes\<close>
















section \<open>Signed at release, verified at run time\<close>




end
