(* ===== verification/Spec2Isabelle.thy ===== *)
theory Spec2Isabelle
  imports Bookkeeping Interleaving Failover Clients KubeClient Export
begin

text \<open>
  Verification of the Agent Features gateway, the Python package \<open>src/gateway\<close>.

  \<^bold>\<open>The program.\<close> The gateway is a marketplace of features. A \<^emph>\<open>catalog\<close> (in memory, or the
  custom resources of a Kubernetes namespace) offers features; each has a manifest with a name,
  a vendor, a version, a trust tier, a capability and JSON schemas. An \<^emph>\<open>invoker\<close> (in process, or
  over gRPC) runs them. A \<^emph>\<open>ranking policy\<close> orders the providers of a capability by trust and
  version, or by the success rate and latency that the \<^emph>\<open>metrics store\<close> has observed.
  \<^emph>\<open>Composites\<close> are pipelines of capabilities, published directly or compiled from the agent
  DSL, which also yields client stubs. Three faces share all this: REST routes, a chat stream,
  and MCP over JSON-RPC. Manifests have a content digest whose signature can be verified.
  Beside the package stand an example client and workload (\<open>src/examples\<close>) and the script that
  writes the manifests to be signed (\<open>src/scripts\<close>).

  \<^bold>\<open>Theories, in dependency order, and the files they model.\<close>
  \<^item> \<open>Prelude\<close>: computations that may raise (\<open>exn + 'a\<close>), insertion-ordered dictionaries, Python's
    stable \<open>sorted\<close> with a key that may raise, and their lemmas.
  \<^item> \<open>PyStr\<close>, \<open>PyFloat\<close>, \<open>Json\<close>: what the program uses of \<open>str\<close>, \<open>int\<close>, \<open>float\<close> (binary64 as rationals
    rounded by \<open>fl\<close>) and \<open>json.dumps\<close>, and the exceptions.
  \<^item> \<open>FloatText\<close>, \<open>JsonNumber\<close>, \<open>JsonLoads\<close>: the shortest text of a float reads back; \<open>json.loads\<close> as the
    scanner of CPython, with its recursion limit, and that it inverts \<open>json.dumps\<close>.
  \<^item> \<open>JsonContent\<close>, \<open>JsonParser\<close>: when two values have the same text with sorted keys; the exceptions of
    the scanner, how much of the limit a text can use, and the parsers that agree with it.
  \<^item> \<open>Models\<close> (\<open>models.py\<close>): the enumerations, manifests, features, requests and responses.
  \<^item> \<open>Versions\<close>, \<open>Catalog\<close> (\<open>catalog.py\<close>): version ranges; ranking, resolution, summaries, and the two
    catalogs, which interpret the locales \<open>catalog_list\<close> and \<open>catalog\<close>.
  \<^item> \<open>Cluster\<close>: the custom resources of features (as the operator's CRD has them) and a namespace that
    serves them, read back by the Kubernetes catalog. \<open>KubeClient\<close> (\<open>catalog.py\<close>): the catalog object
    with its lazily made API client, refining the functions of \<open>Catalog\<close>.
  \<^item> \<open>Ranking\<close> (\<open>ranking.py\<close>): the metrics store and the two policies; both, and the one the
    application selects, interpret the locale \<open>ranking_policy\<close>.
  \<^item> \<open>Effects\<close>: operations on a state that may raise (\<open>('s, 'a) io\<close>), the monotonic clock, and the
    locale \<open>effect_bound\<close>, by which a bound on single effects passes to whole operations.
  \<^item> \<open>Validation\<close> (\<open>validation.py\<close>), \<open>Invoker\<close> (\<open>invoker.py\<close>), \<open>Services\<close>: input checks; the two
    invokers, which interpret the locale \<open>invoker\<close>; the catalog operations as the faces see them.
  \<^item> \<open>Composer\<close> (\<open>composer.py\<close>, \<open>composites.py\<close>): references and the pipeline runner, against the step
    relation \<open>executes\<close>; the locale \<open>capability_invoker\<close> is the contract of the injected callback.
  \<^item> \<open>AgentDsl\<close>, \<open>AgentPrint\<close>, \<open>AgentSound\<close>, \<open>Codegen\<close> (\<open>agentdsl.py\<close>): the parser with its regular
    expressions, a printer and the round trip, soundness on every text, the stub generator.
  \<^item> \<open>Mcp\<close> (\<open>mcp.py\<close>), \<open>Sha256\<close> and \<open>Signing\<close> (\<open>signing.py\<close>), \<open>Samples\<close> (\<open>samples.py\<close>).
  \<^item> \<open>Gateway\<close> (\<open>main.py\<close>): the record \<open>app\<close> is what \<open>create_app\<close> closes over, \<open>app_state\<close> the mutable
    state (store, composites, files, open stream, world); one operation per route and inner
    function, under its name (\<open>_invoke\<close> is \<open>gw_invoke\<close>); \<open>serve\<close> dispatches a request.
  \<^item> \<open>Requests\<close>: the effect of one invocation, the locale \<open>request_bound\<close> (a bound on the effects is
    a bound on every request), the invariant of the state and runs of the application.
  \<^item> \<open>Bookkeeping\<close>: an invoker that logs its calls, that logging changes no answer, and what the
    log says of the store and of the payloads.
  \<^item> \<open>Faces\<close>: agreement of the ways into a feature, the chat events, compiling agents.
  \<^item> \<open>Interleaving\<close>: \<open>_invoke\<close> split at its only suspension point, and invocations in flight together.
  \<^item> \<open>Failover\<close>: how many failed calls a provider survives at the head of the metrics ranking.
  \<^item> \<open>ChatText\<close>: chat commands as text, against the REST routes, and the event stream decoded.
  \<^item> \<open>Clients\<close> (\<open>examples/agent_client.py\<close>, \<open>examples/features/echo/server.py\<close>): the client against
    the MCP route, the echo workload behind the gRPC invoker.
  \<^item> \<open>Export\<close> (\<open>scripts/export_manifests.py\<close>): the exported files and later verification.

  \<^bold>\<open>What is shown.\<close> Here: texts of exceptions do not leave the gateway, features see checked
  input only, the store records exactly the invocations made outside MCP, the invariant over all
  runs, the choice of the provider (best score; refinement of the catalog's resolution), composite
  steps as direct invocations, chat verdicts and compilation. In the component theories: version
  ranges, resolution and ranking, the metrics and their bounds under rounding, the pipeline
  semantics, the DSL round trip and soundness, JSON-RPC responses, digests and verification,
  the invokers and the sample features; failover within a bounded number of calls, the chat as
  REST, the round trips through resources, streams and gRPC, and the way of a manifest from export
  to verification. Each property has a witness at a concrete input where it
  has hypotheses.

  \<^bold>\<open>Parameters.\<close> Code outside the repository is an argument: the Kubernetes API, \<open>jsonschema\<close>
  (\<open>None\<close> when not installed), \<open>grpc\<close> and protobuf, \<open>cosign\<close> and the calls to the file system (each of which may
  raise), the wall clock
  (any delays that do not run backwards), the HTTP client and server between the example client and the
  gateway, and the ISO text of the current time. Three functions of
  the standard library are parameters because their results leave the modelled values:
  \<open>json.loads\<close>, where a property about its results assumes that it agrees with the scanner of
  \<open>JsonLoads\<close> wherever that stays within them (\<open>json_parser\<close>; the rest is other characters of
  Unicode and numbers that are not finite); \<open>ast.parse\<close>; and Python's float
  arithmetic beyond finite results in the calculator, of which \<open>py_arith\<close> states the documented
  exceptions. The other documented behaviour that a property relies on is named in it: \<open>no_http\<close> (catalog,
  invoker and validator raise no \<open>HTTPException\<close>), \<open>services_up\<close>, \<open>temp_works\<close> and \<open>disk_works\<close>.

  \<^bold>\<open>Bounds.\<close> No operation needs fuel: loops are structural or have a termination proof. The
  shortest float representation tries up to 17 digits and 400 shifts, which suffices for binary64.
  The scanner takes the number of containers it may still enter as the
  interpreter's recursion limit does; a text never needs more than it has opening brackets, and a
  larger limit changes nothing. The expression walker of the calculator takes the number of frames left
  to it; a tree needs its \<open>height\<close>. Strings range over Latin-1 and the two further characters the sources use; JSON numbers are
  integers and finite floats.

  \<^bold>\<open>Not modelled.\<close> Logging; the parsing of request bodies and the rendering of responses by
  FastAPI and pydantic (operations take and give the parsed models); the static dashboard; the
  interleaving of routes other than invocations, which suspend nowhere else (\<open>serve\<close> answers one
  request at a time). The Go operator, protocol definitions, infrastructure and
  the tests are other programs.
\<close>

section \<open>A sample application\<close>

text \<open>One feature, an invoker that always answers, the static policy.\<close>

definition sample_catalog :: catalog_ops where
  "sample_catalog =
     in_memory_ops (in_memory_init [default_capability ((manifest_defaults (lit ''echo''))\<lparr>m_input_schema := sample_schema\<rparr>)])"

definition sample_app :: "int app" where
  "sample_app =
     \<lparr>app_catalog = sample_catalog, app_invoke = (\<lambda>n p c w. (Inr \<lparr>res_output = [(lit ''ok'', JBool True)], res_latency_ms = 2\<rparr>, w)),
      app_policy = BaselinePolicy, app_validator = None, app_loads = (\<lambda>_. Inl ValueError), app_sign = sample_sign_env\<rparr>"

definition sample_state :: "int app_state" where
  "sample_state = start_state Map.empty start_world"

definition sample_body :: invoke_request where
  "sample_body = \<lparr>r_input = [(lit ''name'', JStr (lit ''Ada''))], r_context = default_context\<rparr>"

text \<open>Running an operation that returns.\<close>

lemma returns: "\<not> isl (fst y) \<Longrightarrow> \<exists>x s. y = (Inr x, s)"
  by (cases y; cases "fst y") auto

section \<open>Safety of the answers\<close>

text \<open>
  C1. No face of the gateway lets the text of a feature's exception out: with an invoker whose
  \<open>FeatureUnavailable\<close> and \<open>FeatureInputError\<close> carry no text, every request (REST, composite,
  chat and MCP) gets the same answer and leaves the same state.
\<close>

theorem exception_text_hidden:
  "serve (a\<lparr>app_invoke := erased (app_invoke a)\<rparr>) req s = serve a req s"
  using serve_hide [of a req] by (simp add: hide_def)

text \<open>
  C2. A feature never sees malformed input: observed through an invoker that logs its calls and
  changes no answer, every call that a request of any face makes is for an offered feature
  whose input schema finds no error in the payload.
\<close>

theorem input_checked:
  assumes "serve (logged_app a) req s = (x, s')"
  shows "serve a req (unlog s) = (x, unlog s') \<and>
    (\<exists>calls. call_log s' = call_log s @ calls \<and> list_all (checked_call a) calls)"
proof
  show "serve a req (unlog s) = (x, unlog s')"
    using mirrors_serve [of a req] assms by (simp add: mirrors_def)
  show "\<exists>calls. call_log s' = call_log s @ calls \<and> list_all (checked_call a) calls"
    using movesD [OF serve_checked assms] by (simp add: checked_calls_def)
qed

definition logged_start :: "(int \<times> call list) app_state" where
  "logged_start =
     start_state Map.empty \<lparr>w_ns = 0, w_delays = (\<lambda>_. 5), w_reads = 0, w_env = (0, [])\<rparr>"

theorem input_checked_witness:
  "\<exists>x s'. serve (logged_app sample_app) (PostInvoke (lit ''echo'') sample_body) logged_start = (x, s')
    \<and> length (call_log s') = 1 \<and> list_all (checked_call sample_app) (call_log s')"
proof -
  let ?run = "serve (logged_app sample_app) (PostInvoke (lit ''echo'') sample_body) logged_start"
  have "length (call_log (snd ?run)) = 1" "call_log logged_start = []" by code_simp+
  moreover obtain x s' where "?run = (x, s')" by (cases ?run)
  ultimately show ?thesis using input_checked by fastforce
qed

section \<open>Metrics\<close>

text \<open>
  C3. Outside MCP every invocation is recorded exactly once and nothing else is: the store
  after a request is the store before it with, in order, one success per call that returned,
  one failure per call that found the feature unavailable, under the id of the feature called,
  and nothing for rejected input.
\<close>

theorem invocations_recorded:
  assumes "\<forall>m. req \<noteq> PostMcp m" and "serve (logged_app a) req s = (x, s')"
  shows "serve a req (unlog s) = (x, unlog s') \<and>
    (\<exists>calls owed. call_log s' = call_log s @ calls \<and> list_all2 (accounted (app_catalog a)) calls owed
       \<and> as_store s' = record_all (concat owed) (as_store s))"
proof
  show "serve a req (unlog s) = (x, unlog s')"
    using mirrors_serve [of a req] assms(2) by (simp add: mirrors_def)
  show "\<exists>calls owed. call_log s' = call_log s @ calls \<and> list_all2 (accounted (app_catalog a)) calls owed
      \<and> as_store s' = record_all (concat owed) (as_store s)"
    using movesD [OF serve_books [OF assms(1)] assms(2)] by (simp add: books_def)
qed

theorem invocations_recorded_witness:
  "\<exists>x s' calls owed. serve (logged_app sample_app) (PostInvoke (lit ''echo'') sample_body) logged_start = (x, s')
    \<and> length calls = 1 \<and> list_all2 (accounted (app_catalog sample_app)) calls owed
    \<and> as_store s' = record_all (concat owed) Map.empty"
proof -
  let ?run = "serve (logged_app sample_app) (PostInvoke (lit ''echo'') sample_body) logged_start"
  have n: "length (call_log (snd ?run)) = 1" "call_log logged_start = []" by code_simp+
  have e: "as_store logged_start = Map.empty" by (simp add: logged_start_def start_state_def)
  have r: "\<forall>m. PostInvoke (lit ''echo'') sample_body \<noteq> PostMcp m" by simp
  obtain x s' where s: "?run = (x, s')" by (cases ?run)
  from invocations_recorded [OF r s] n e s show ?thesis by auto
qed

text \<open>
  A call through MCP is not recorded: whatever the message and the outcome, the metrics
  store and the composites stay as they are.
\<close>

theorem mcp_not_recorded:
  assumes "serve a (PostMcp m) s = (x, s')"
  shows "as_store s' = as_store s \<and> as_composites s' = as_composites s"
  using assms by (auto simp: answer_def bindM_def returnM_run mcp_endpoint_def on_world_def split: prod.splits sum.splits)

theorem mcp_not_recorded_witness:
  "\<exists>x s'. serve (logged_app sample_app) (PostMcp (JObj (rpc_request ''tools/call''
        (JObj [(lit ''name'', JStr (lit ''echo'')), (lit ''arguments'', JObj (r_input sample_body))])))) logged_start = (x, s')
    \<and> length (call_log s') = 1 \<and> as_store s' = Map.empty"
proof -
  let ?m = "JObj (rpc_request ''tools/call'' (JObj [(lit ''name'', JStr (lit ''echo'')), (lit ''arguments'', JObj (r_input sample_body))]))"
  let ?run = "serve (logged_app sample_app) (PostMcp ?m) logged_start"
  have n: "length (call_log (snd ?run)) = 1" by code_simp
  have e: "as_store logged_start = Map.empty" by (simp add: logged_start_def start_state_def)
  obtain x s' where s: "?run = (x, s')" by (cases ?run)
  from mcp_not_recorded [OF s] n e s show ?thesis by auto
qed

section \<open>Runs of the application\<close>

text \<open>
  C4. Invariant of the application the module creates, in either mode, over every run of
  requests interleaved with changes outside: the counters stay sound (at most as many
  successes as invocations, latencies not negative) and the registry keeps one complete composite
  per name under its own name. Along the run, from any point of it to any later one, no
  composite disappears, initial or published, and time does not go back.
\<close>

theorem run_keeps_invariant:
  assumes "run_app (module_app env loads api other grpc handlers vld sign, start_state fs w) es (a', s')"
    and "run_app (a', s') es' (a'', s'')"
  shows "store_ok (as_store s'') \<and> dict_ok (as_composites s'')
    \<and> (\<forall>(n, k) \<in> set (as_composites s''). k_name k = n \<and> post_init k = k)
    \<and> set (dict_keys initial_composites) \<subseteq> set (dict_keys (as_composites s'))
    \<and> set (dict_keys (as_composites s')) \<subseteq> set (dict_keys (as_composites s''))
    \<and> w_ns w \<le> w_ns (as_world s') \<and> w_ns (as_world s') \<le> w_ns (as_world s'')"
proof -
  note first = run_app_evolves [OF assms(1), unfolded fst_conv snd_conv, OF served.gateway_axioms]
  have e: "evolves (start_state fs w) s'" using first by simp
  then have i: "app_inv s'" "set (dict_keys initial_composites) \<subseteq> set (dict_keys (as_composites s'))" "w_ns w \<le> w_ns (as_world s')"
    using app_inv_start [of fs w] by (auto simp: evolves_def start_state_def)
  have "gateway a'" using first by simp
  then have "evolves s' s''" using run_app_evolves [OF assms(2), unfolded fst_conv snd_conv] by simp
  with i show ?thesis by (auto simp: evolves_def app_inv_def)
qed

text \<open>The module without environment variables and without development handlers.\<close>

definition bare_app :: "(nat, nat) grpc_env app" where
  "bare_app = module_app Map.empty (\<lambda>_. Inl ValueError) (\<lambda>_. \<lparr>api_list = Inr [], api_get = (\<lambda>_. Inl (ApiException 404))\<rparr>)
     (\<lambda>_. Inr ()) sample_api [] None sample_sign_env"

theorem run_keeps_invariant_witness:
  "\<exists>x s' s''. run_app (bare_app, start_state Map.empty sample_world) [Serve (PostCompose broken_step) x] (bare_app, s')
    \<and> run_app (bare_app, s') [Serve GetHealth (Inr (Doc health))] (bare_app, s'')
    \<and> set (dict_keys (as_composites s')) \<subseteq> set (dict_keys (as_composites s''))
    \<and> lit ''greet-report'' \<in> set (dict_keys (as_composites s'')) \<and> dict_ok (as_composites s'')"
proof -
  let ?s = "start_state Map.empty sample_world" and ?r = "PostCompose broken_step"
  obtain x s' where s: "serve bare_app ?r ?s = (x, s')" by (cases "serve bare_app ?r ?s")
  have "serve bare_app GetHealth s' = (Inr (Doc health), s')" by (simp add: answer_def bindM_def returnM_run)
  with s have run: "run_app (bare_app, ?s) [Serve ?r x] (bare_app, s')"
    "run_app (bare_app, s') [Serve GetHealth (Inr (Doc health))] (bare_app, s')"
    by (blast intro: run_app.intros step_app.intros)+
  have "lit ''greet-report'' \<in> set (dict_keys initial_composites)" by code_simp
  with run_keeps_invariant [OF run(1) [unfolded bare_app_def] run(2) [unfolded bare_app_def]] run show ?thesis by blast
qed

section \<open>Choosing a provider\<close>

text \<open>
  C8. Invoking a capability answers from the best-ranked provider: when it returns, the answer is
  that of an offered feature of the capability that satisfies the vendor and version pins and
  whose score is the highest among those, and its success has been recorded under its id.
\<close>

theorem capability_best_provider:
  assumes "cat_list (app_catalog a) None None = Inr fs"
    and "invoke_capability a capability body vendor version s = (Inr resp, s')"
  shows "\<exists>f \<in> set fs. eligible capability version vendor f
    \<and> (\<forall>g \<in> set fs. eligible capability version vendor g \<longrightarrow>
          policy_score (app_policy a) (as_store s) g \<le> policy_score (app_policy a) (as_store s) f)
    \<and> ir_feature resp = f_name f \<and> ir_version resp = f_version f \<and> ir_vendor resp = f_vendor f
    \<and> as_store s' = record_outcome (as_store s) (feature_id f) True (ir_latency_ms resp)"
proof -
  from assms(2) obtain ps f rest where ps: "providers a capability vendor version = Inr ps"
    and rank: "policy_rank (app_policy a) (as_store s) ps = Inr (f # rest)" and inv: "gw_invoke a f body s = (Inr resp, s')"
    by (auto simp: capability_run exn_simps split: sum.splits list.splits)
  have eq: "ps = filter (eligible capability version vendor) fs" using assms(1) ps by (rule providers_eligible)
  have "f \<in> set ps" using active.rank_set [OF rank] by auto
  with eq have "f \<in> set fs" "eligible capability version vendor f" by auto
  moreover have "policy_score (app_policy a) (as_store s) g \<le> policy_score (app_policy a) (as_store s) f"
    if "g \<in> set fs" "eligible capability version vendor g" for g
    using active.rank_top [OF rank] that eq by simp
  ultimately show ?thesis using gw_invoke_response [OF inv] by fastforce
qed

theorem capability_best_provider_witness:
  "\<exists>resp s'. invoke_capability sample_app (lit ''echo'') sample_body None None sample_state = (Inr resp, s')
    \<and> ir_feature resp = lit ''echo''"
proof -
  let ?run = "invoke_capability sample_app (lit ''echo'') sample_body None None sample_state"
  let ?fs = "projr (cat_list (app_catalog sample_app) None None)"
  have "\<not> isl (cat_list (app_catalog sample_app) None None)" by code_simp
  then have l: "cat_list (app_catalog sample_app) None None = Inr ?fs" by (simp add: sum.collapse)
  have "\<not> isl (fst ?run)" by code_simp
  then obtain resp s' where r: "?run = (Inr resp, s')" using returns by blast
  have "list_all (\<lambda>f. f_name f = lit ''echo'') ?fs" by code_simp
  with capability_best_provider [OF l r] r show ?thesis by (auto simp: list_all_iff)
qed

text \<open>
  C7. Under the static policy, and under any policy before the first outcome is recorded, invoking
  a capability is resolving it in the catalog and invoking the feature found: the same pins,
  the same order, the same exceptions, and 404 exactly when resolution finds nothing. For the
  Kubernetes catalog this is its own \<open>resolve\<close>. The in-memory catalog resolves in the order of
  registration, the gateway in that of the listing, by name: the two have the same outcome when no
  two eligible features tie on trust, version and vendor, and differ at most in a choice between
  such features.
\<close>

theorem capability_resolution_refines:
  assumes "app_policy a = BaselinePolicy \<or> as_store s = Map.empty"
  shows "(\<forall>fs. cat_list (app_catalog a) None None = Inr fs \<longrightarrow>
       invoke_capability a capability body vendor version s =
         invoke_found a capability body vendor version (resolve_feature fs capability version vendor) s)
   \<and> (\<forall>loads api other. app_catalog a = k8s_ops loads api other \<longrightarrow>
       invoke_capability a capability body vendor version s =
         invoke_found a capability body vendor version (k8s_resolve loads api capability version vendor) s)
   \<and> (\<forall>d. app_catalog a = in_memory_ops d \<longrightarrow>
       (\<exists>found. tied found (in_memory_resolve d capability version vendor)
          \<and> (inj_on rank_key {f \<in> set (dict_values d). eligible capability version vendor f} \<longrightarrow>
               found = in_memory_resolve d capability version vendor)
          \<and> invoke_capability a capability body vendor version s = invoke_found a capability body vendor version found s))"
proof (intro conjI allI impI)
  note found = static_capability_found [OF assms, of capability body vendor version]
  show "invoke_capability a capability body vendor version s =
      invoke_found a capability body vendor version (resolve_feature fs capability version vendor) s"
    if "cat_list (app_catalog a) None None = Inr fs" for fs
    using found that by simp
  show "invoke_capability a capability body vendor version s =
      invoke_found a capability body vendor version (k8s_resolve loads api capability version vendor) s"
    if "app_catalog a = k8s_ops loads api other" for loads api other
    using found that by (simp add: k8s_ops_def k8s_resolve_def)
  fix d assume d: "app_catalog a = in_memory_ops d"
  have "mset (sort_key f_name (dict_values d)) = mset (dict_values d)" by simp
  from resolve_reordered [OF this, of capability version vendor] found
  show "\<exists>found. tied found (in_memory_resolve d capability version vendor)
      \<and> (inj_on rank_key {f \<in> set (dict_values d). eligible capability version vendor f} \<longrightarrow>
           found = in_memory_resolve d capability version vendor)
      \<and> invoke_capability a capability body vendor version s = invoke_found a capability body vendor version found s"
    unfolding in_memory_found [OF d] in_memory_resolve_def by auto
qed

text \<open>Two features that tie: the gateway answers from the first by name, the catalog resolves to the first registered.\<close>

definition tie_catalog :: in_memory_catalog where
  "tie_catalog = in_memory_init
     [(manifest_defaults (lit ''two''))\<lparr>m_capability := lit ''greet''\<rparr>, (manifest_defaults (lit ''one''))\<lparr>m_capability := lit ''greet''\<rparr>]"

lemma resolution_tie:
  "resolved_name (in_memory_resolve tie_catalog (lit ''greet'') None None) = Some (lit ''two'')
   \<and> (case fst (invoke_capability (sample_app\<lparr>app_catalog := in_memory_ops tie_catalog\<rparr>) (lit ''greet'') sample_body None None sample_state) of
        Inr resp \<Rightarrow> ir_feature resp = lit ''one'' | Inl e \<Rightarrow> False)"
  by (rule conjI; code_simp)

theorem capability_resolution_refines_witness:
  "invoke_capability sample_app (lit ''nope'') sample_body None (Some (lit ''2'')) sample_state =
     (Inl (HTTPException 404 (Inl (no_provider (lit ''nope'') @ lit '' (version=2)''))), sample_state)
   \<and> invoke_capability sample_app (lit ''echo'') sample_body None None sample_state =
     invoke_found sample_app (lit ''echo'') sample_body None None
       (in_memory_resolve (in_memory_init [default_capability ((manifest_defaults (lit ''echo''))\<lparr>m_input_schema := sample_schema\<rparr>)])
          (lit ''echo'') None None) sample_state"
proof (rule conjI)
  let ?d = "in_memory_init [default_capability ((manifest_defaults (lit ''echo''))\<lparr>m_input_schema := sample_schema\<rparr>)]"
  have p: "app_policy sample_app = BaselinePolicy \<or> as_store sample_state = Map.empty" by (simp add: sample_app_def)
  have d: "app_catalog sample_app = in_memory_ops ?d" by (simp add: sample_app_def sample_catalog_def)
  have i: "inj_on rank_key {f \<in> set (dict_values ?d). P f}" for P
    by (rule inj_onI) (simp add: in_memory_init_def dict_of_def dict_set_def dict_values_def)
  have e: "invoke_capability sample_app c sample_body v r sample_state =
      invoke_found sample_app c sample_body v r (in_memory_resolve ?d c r v) sample_state" for c v r
    using capability_resolution_refines [OF p, of c sample_body v r, THEN conjunct2, THEN conjunct2, rule_format, OF d]
      i [of "eligible c r v"] by blast
  then show "invoke_capability sample_app (lit ''echo'') sample_body None None sample_state =
      invoke_found sample_app (lit ''echo'') sample_body None None (in_memory_resolve ?d (lit ''echo'') None None) sample_state" .
  have r: "in_memory_resolve ?d (lit ''nope'') (Some (lit ''2'')) None = Inr None" by code_simp
  have t: "no_provider (lit ''nope'') @ pin_text ''vendor'' None @ pin_text ''version'' (Some (lit ''2'')) =
      no_provider (lit ''nope'') @ lit '' (version=2)''" by code_simp
  show "invoke_capability sample_app (lit ''nope'') sample_body None (Some (lit ''2'')) sample_state =
     (Inl (HTTPException 404 (Inl (no_provider (lit ''nope'') @ lit '' (version=2)''))), sample_state)"
    unfolding e r invoke_found_def t by simp
qed

section \<open>Agreement of the faces\<close>

text \<open>
  C5. A step of a composite is a direct invocation of its capability: it leaves the same state
  (the same provider, validation and metrics), returns the output exactly when the direct
  invocation succeeds, and raises any other exception than an HTTP error as the direct
  invocation does. Where that answers with an HTTP error, which is 404, 422 or 503 when the
  catalog, the invoker and the validator raise none themselves, the step does not raise: it
  returns no output and the message for that answer.
\<close>

theorem composite_step_is_direct:
  "same_run capability (run_capability a capability input_dict vendor version s)
     (invoke_capability a capability \<lparr>r_input = input_dict, r_context = default_context\<rparr> vendor version s)
   \<and> (\<forall>code detail s'. no_http a
        \<and> invoke_capability a capability \<lparr>r_input = input_dict, r_context = default_context\<rparr> vendor version s
            = (Inl (HTTPException code detail), s') \<longrightarrow>
        code \<in> {404, 422, 503}
        \<and> run_capability a capability input_dict vendor version s = (Inr (None, Some (step_answer capability code detail)), s'))"
proof (intro conjI allI impI)
  let ?step = "run_capability a capability input_dict vendor version s"
    and ?direct = "invoke_capability a capability \<lparr>r_input = input_dict, r_context = default_context\<rparr> vendor version s"
  show same: "same_run capability ?step ?direct" by (rule step_is_direct)
  fix code detail s' assume h: "no_http a \<and> ?direct = (Inl (HTTPException code detail), s')"
  then have f: "fst ?direct = Inl (HTTPException code detail)" by simp
  note m = step_of_http_error [OF conjunct1 [OF h] f]
  show "code \<in> {404, 422, 503}" by (rule conjunct1 [OF m])
  have "snd ?step = s'" using same h by (simp add: same_run_def)
  with m show "?step = (Inr (None, Some (step_answer capability code detail)), s')" by (simp add: prod_eq_iff)
qed

lemma sample_app_quiet: "no_http sample_app"
  by (simp add: no_http_def sample_app_def sample_catalog_def in_memory_ops_def in_memory_list_def in_memory_get_def)

theorem composite_step_is_direct_witness:
  "run_capability sample_app (lit ''nope'') [] None None sample_state =
     (Inr (None, Some (no_provider (lit ''nope''))), sample_state)"
proof -
  let ?direct = "invoke_capability sample_app (lit ''nope'') \<lparr>r_input = [], r_context = default_context\<rparr> None None sample_state"
  have "bindE (providers sample_app (lit ''nope'') None None) (\<lambda>fs. policy_rank (app_policy sample_app) (as_store sample_state) fs) = Inr []"
    by code_simp
  then have "?direct = (Inl (HTTPException 404 (Inl (no_provider (lit ''nope'')))), sample_state)"
    by (simp add: capability_run pin_text_def given_def)
  with composite_step_is_direct [of "lit ''nope''" sample_app "[]" None None sample_state] sample_app_quiet
  show ?thesis by (simp add: step_answer_def)
qed

text \<open>
  C22. A chat command that completes sends status events and then exactly one verdict: an error
  event, after which the store is unchanged or has one more failure, or the result of a call
  whose success has been recorded with the latency shown.
\<close>

theorem chat_verdict:
  assumes "chat a txt s = (Inr (), s')" and "strip txt \<notin> {[], lit ''help'', lit ''list''}"
  shows "verdict s s'"
  using assms chat_command_verdict [of a "strip txt" s s'] by (simp add: chat_def Let_def)

theorem chat_verdict_witness:
  "\<exists>s'. chat sample_app (lit ''cap:nope'') sample_state = (Inr (), s') \<and> verdict sample_state s'"
proof -
  let ?run = "chat sample_app (lit ''cap:nope'') sample_state"
  have "\<not> isl (fst ?run)" by code_simp
  then obtain x s' where r: "?run = (Inr x, s')" using returns by blast
  moreover have "strip (lit ''cap:nope'') \<notin> {[], lit ''help'', lit ''list''}" by code_simp
  ultimately show ?thesis using chat_verdict by (metis (full_types) unit.exhaust)
qed

text \<open>
  C15. Compiling an agent document never raises. A document with errors changes nothing and its
  errors are returned; one that parses returns the composite with a stub for each of the six
  languages and, when asked to publish, registers the composite under its name, from where
  it can be fetched, leaving the other composites as they are.
\<close>

theorem compile_publishes:
  "case parse source of
     (None, errors) \<Rightarrow> \<exists>doc. compile_agent (compiled source publishes) s = (Inr doc, s)
       \<and> doc_get doc ''ok'' = JBool False \<and> doc_get doc ''errors'' = JList (map JStr errors)
   | (Some k, errors) \<Rightarrow> \<exists>doc code s'. compile_agent (compiled source publishes) s = (Inr doc, s')
       \<and> doc_get doc ''ok'' = JBool True \<and> doc_get doc ''composite'' = composite_json k
       \<and> doc_get doc ''code'' = JObj code \<and> dict_keys code = LANGUAGES
       \<and> (\<forall>lang \<in> set LANGUAGES. \<exists>stub. codegen k lang = Inr stub \<and> (lang, JStr stub) \<in> set code)
       \<and> (publishes \<longrightarrow> get_composite (k_name k) s' = (Inr k, s')
             \<and> (\<forall>n. n \<noteq> k_name k \<longrightarrow> fst (get_composite n s') = fst (get_composite n s)))
       \<and> (\<not> publishes \<longrightarrow> s' = s)"
proof (cases "parse source")
  case (Pair k errors)
  show ?thesis
  proof (cases k)
    case None
    with Pair compile_error [of source errors] show ?thesis by simp
  next
    case (Some c)
    let ?s = "if publishes then s\<lparr>as_composites := dict_set (k_name c) c (as_composites s)\<rparr> else s"
    have "publishes \<longrightarrow> get_composite (k_name c) ?s = (Inr c, ?s)
        \<and> (\<forall>n. n \<noteq> k_name c \<longrightarrow> fst (get_composite n ?s) = fst (get_composite n s))"
      by (auto simp: get_composite_def composites_now_def bindM_def returnM_run unknown_composite_def http_error_def
          raiseM_run dict_get_set split: option.splits)
    moreover have "\<not> publishes \<longrightarrow> ?s = s" by simp
    moreover obtain doc code where "compile_agent (compiled source publishes) s = (Inr doc, ?s)"
      "doc_get doc ''ok'' = JBool True" "doc_get doc ''composite'' = composite_json c" "doc_get doc ''code'' = JObj code"
      "dict_keys code = LANGUAGES"
      "\<forall>lang \<in> set LANGUAGES. \<exists>stub. codegen c lang = Inr stub \<and> (lang, JStr stub) \<in> set code"
      using compile_ok [of source c errors publishes s] Pair Some by blast
    ultimately show ?thesis unfolding Pair Some prod.case option.case by blast
  qed
qed

theorem compile_publishes_witness:
  "\<exists>doc s'. compile_agent (compiled (show_agent sample_agent) True) sample_state = (Inr doc, s')
    \<and> get_composite (k_name (composite_of sample_agent)) s' = (Inr (composite_of sample_agent), s')"
proof -
  have "agent_ok sample_agent" by code_simp
  then have "parse (show_agent sample_agent) = (Some (composite_of sample_agent), [])" by (rule parse_show)
  then show ?thesis using compile_publishes [of "show_agent sample_agent" True sample_state] by auto
qed

end
